(* ===== verification/Prelude.thy ===== *)
theory Prelude
  imports Main "HOL-Library.Word"
begin

text \<open>
  Shared vocabulary of the development: the machine types the Rust code uses, results as
  sums, byte-string literals, and the generic lemmas on lists the components share.

  A Rust \<open>Result<T, E>\<close> is the sum \<open>'e + 't\<close> (\<open>Inl\<close> is \<open>Err\<close>, \<open>Inr\<close> is \<open>Ok\<close>).
  \<open>Bytes\<close>, \<open>BytesMut\<close>, \<open>Vec<u8>\<close> and \<open>&[u8]\<close> stand for their contents, a list of
  bytes. \<open>usize\<close> counters that the code only compares, increments by one and decrements
  under a check are natural numbers; wherever the source could underflow, the model has an
  explicit panic branch.
\<close>

section \<open>Types\<close>

type_synonym u8 = "8 word"
type_synonym u64 = "64 word"
type_synonym i64 = "64 word"
type_synonym usize = nat
type_synonym bytes = "u8 list"

text \<open>A Rust byte-string literal \<open>b"..."\<close>.\<close>

definition bstr :: "string \<Rightarrow> bytes" where
  "bstr s = map of_char s"

abbreviation CR :: u8 where
  "CR \<equiv> 13"

abbreviation LF :: u8 where
  "LF \<equiv> 10"

abbreviation CRLF :: bytes where
  "CRLF \<equiv> [13, 10]"

section \<open>Collections of facts\<close>

named_theorems byte_simps \<open>evaluation of byte-string literals\<close>
named_theorems consume_intros \<open>a step never grows the input buffer\<close>

declare bstr_def [byte_simps]

section \<open>Results\<close>

text \<open>The \<open>?\<close> operator: return the error, or go on with the value.\<close>

definition res_bind :: "'e + 'a \<Rightarrow> ('a \<Rightarrow> 'e + 'b) \<Rightarrow> 'e + 'b" where
  "res_bind r f = (case r of Inl e \<Rightarrow> Inl e | Inr x \<Rightarrow> f x)"

definition ok_or :: "'a option \<Rightarrow> 'e \<Rightarrow> 'e + 'a" where
  "ok_or m e = (case m of None \<Rightarrow> Inl e | Some x \<Rightarrow> Inr x)"

lemma res_bind_simps [simp]:
  "res_bind (Inl e) f = Inl e"
  "res_bind (Inr x) f = f x"
  by (simp_all add: res_bind_def)

lemma res_bind_eq_Inr: "res_bind r f = Inr y \<longleftrightarrow> (\<exists>x. r = Inr x \<and> f x = Inr y)"
  by (cases r) auto

lemma res_bind_eq_Inl:
  "res_bind r f = Inl e \<longleftrightarrow> r = Inl e \<or> (\<exists>x. r = Inr x \<and> f x = Inl e)"
  by (cases r) auto

lemma res_bind_assoc: "res_bind (res_bind r f) g = res_bind r (\<lambda>x. res_bind (f x) g)"
  by (cases r) auto

lemma ok_or_simps [simp]:
  "ok_or None e = Inl e"
  "ok_or (Some x) e = Inr x"
  by (simp_all add: ok_or_def)

lemma ok_or_eq_Inr: "ok_or m e = Inr x \<longleftrightarrow> m = Some x"
  by (cases m) auto

lemma ok_or_eq_Inl: "ok_or m e = Inl e' \<longleftrightarrow> m = None \<and> e = e'"
  by (cases m) auto

text \<open>
  A loop \<open>for x in xs { acc.push(f(x)?) }\<close>: the images in order, or the first error.
\<close>

fun try_map :: "('a \<Rightarrow> 'e + 'b) \<Rightarrow> 'a list \<Rightarrow> 'e + 'b list" where
  "try_map f [] = Inr []"
| "try_map f (x # xs) = res_bind (f x) (\<lambda>y. res_bind (try_map f xs) (\<lambda>ys. Inr (y # ys)))"

lemma try_map_Inr: "try_map f xs = Inr ys \<longleftrightarrow> list_all2 (\<lambda>x y. f x = Inr y) xs ys"
proof (induction xs arbitrary: ys)
  case Nil
  then show ?case by (cases ys) auto
next
  case (Cons x xs)
  then show ?case by (cases ys) (auto simp: res_bind_eq_Inr)
qed

lemma try_map_total: "(\<And>x. x \<in> set xs \<Longrightarrow> f x = Inr (g x)) \<Longrightarrow> try_map f xs = Inr (map g xs)"
  by (induction xs) auto

lemma try_map_Inl:
  "try_map f xs = Inl e \<Longrightarrow>
     \<exists>ys x zs. xs = ys @ x # zs \<and> (\<forall>y \<in> set ys. \<exists>r. f y = Inr r) \<and> f x = Inl e"
proof (induction xs)
  case Nil
  then show ?case by simp
next
  case (Cons x xs)
  show ?case
  proof (cases "f x")
    case (Inl e')
    with Cons.prems show ?thesis by (intro exI [of _ "[]"]) auto
  next
    case (Inr r)
    with Cons.prems have "try_map f xs = Inl e" by (auto simp: res_bind_eq_Inl)
    then obtain ys y zs where "xs = ys @ y # zs" "\<forall>y \<in> set ys. \<exists>r. f y = Inr r" "f y = Inl e"
      using Cons.IH by blast
    with Inr show ?thesis by (intro exI [of _ "x # ys"]) auto
  qed
qed

section \<open>Lists\<close>

lemma take_append_exact [simp]: "take (length xs) (xs @ ys) = xs"
  by simp

lemma drop_append_exact [simp]: "drop (length xs) (xs @ ys) = ys"
  by simp

lemma sum_list_mono2:
  fixes f :: "'a \<Rightarrow> nat"
  shows "(\<And>x. x \<in> set xs \<Longrightarrow> f x \<le> g x) \<Longrightarrow> sum_list (map f xs) \<le> sum_list (map g xs)"
  by (rule sum_list_mono)

lemma Max_insert_le: "finite A \<Longrightarrow> (\<And>x. x \<in> A \<Longrightarrow> x \<le> n) \<Longrightarrow> Max (insert (0::nat) A) \<le> n"
  by auto

end
