(* ===== verification/Rust_Std.thy ===== *)
theory Rust_Std
  imports Prelude
begin

text \<open>
  The parts of the Rust standard library the code uses on strings and integers:
  \<open>to_string\<close> and \<open>FromStr\<close> for \<open>usize\<close>, \<open>u64\<close> and \<open>i64\<close>, zero-padded decimal
  formatting, and \<open>str::from_utf8\<close>. Integers print and parse back (\<open>i64_round_trip\<close>,
  \<open>u64_round_trip\<close>), and UTF-8 decoding is inverted by encoding.
\<close>

section \<open>Decimal digits\<close>

definition digit_byte :: "nat \<Rightarrow> u8" where
  "digit_byte d = of_nat (48 + d)"

definition is_digit :: "u8 \<Rightarrow> bool" where
  "is_digit c \<longleftrightarrow> 48 \<le> unat c \<and> unat c \<le> 57"

definition digit_value :: "u8 \<Rightarrow> nat" where
  "digit_value c = unat c - 48"

text \<open>The decimal digits of an unsigned integer, most significant first (\<open>to_string\<close>).\<close>

fun dec_string :: "nat \<Rightarrow> bytes" where
  "dec_string n =
     (if n < 10 then [digit_byte n] else dec_string (n div 10) @ [digit_byte (n mod 10)])"

declare dec_string.simps [simp del]

text \<open>\<open>i64::to_string\<close>: the two's complement value, with a minus sign when negative.\<close>

definition i64_to_string :: "i64 \<Rightarrow> bytes" where
  "i64_to_string w =
     (if sint w < 0 then 45 # dec_string (nat (- sint w)) else dec_string (nat (sint w)))"

text \<open>\<open>format!("{:0width$}", n)\<close>: decimal digits padded with zeros on the left.\<close>

definition zero_pad :: "nat \<Rightarrow> nat \<Rightarrow> bytes" where
  "zero_pad width n = (let s = dec_string n in replicate (width - length s) 48 @ s)"

section \<open>Parsing decimal integers\<close>

fun digits_acc :: "nat \<Rightarrow> bytes \<Rightarrow> nat option" where
  "digits_acc n [] = Some n"
| "digits_acc n (c # cs) = (if is_digit c then digits_acc (10 * n + digit_value c) cs else None)"

text \<open>A non-empty run of decimal digits and nothing else.\<close>

definition parse_digits :: "bytes \<Rightarrow> nat option" where
  "parse_digits cs = (if cs = [] then None else digits_acc 0 cs)"

text \<open>
  \<open>i64::from_str\<close>: an optional sign, at least one digit, and a value in range. \<open>None\<close> is
  \<open>Err(ParseIntError)\<close>.
\<close>

definition i64_in_range :: "int \<Rightarrow> bool" where
  "i64_in_range i \<longleftrightarrow> - (2 ^ 63) \<le> i \<and> i < 2 ^ 63"

definition signed_digits :: "bytes \<Rightarrow> int option" where
  "signed_digits s =
     (case s of
        [] \<Rightarrow> None
      | c # cs \<Rightarrow>
          if c = 45 then map_option (\<lambda>n. - int n) (parse_digits cs)
          else if c = 43 then map_option int (parse_digits cs)
          else map_option int (parse_digits s))"

definition i64_from_str :: "bytes \<Rightarrow> i64 option" where
  "i64_from_str s =
     (case signed_digits s of
        None \<Rightarrow> None
      | Some i \<Rightarrow> if i64_in_range i then Some (word_of_int i) else None)"

text \<open>\<open>u64::from_str\<close>: a leading \<open>+\<close> is accepted, a minus sign is not.\<close>

definition u64_from_str :: "bytes \<Rightarrow> u64 option" where
  "u64_from_str s =
     (case (case s of [] \<Rightarrow> None | c # cs \<Rightarrow> if c = 43 then parse_digits cs else parse_digits s) of
        None \<Rightarrow> None
      | Some n \<Rightarrow> if n < 2 ^ 64 then Some (of_nat n) else None)"

section \<open>UTF-8\<close>

text \<open>
  A \<open>char\<close> is a Unicode scalar value, here its code point. \<open>str::from_utf8\<close> accepts exactly
  the well-formed byte sequences of the Unicode standard: no overlong forms, no surrogates,
  nothing above \<open>10FFFF\<close>.
\<close>

type_synonym code_point = nat

definition is_scalar :: "code_point \<Rightarrow> bool" where
  "is_scalar c \<longleftrightarrow> c < 0xD800 \<or> 0xE000 \<le> c \<and> c < 0x110000"

definition is_cont :: "u8 \<Rightarrow> bool" where
  "is_cont c \<longleftrightarrow> 0x80 \<le> unat c \<and> unat c < 0xC0"

definition cont_bits :: "u8 \<Rightarrow> nat" where
  "cont_bits c = unat c - 0x80"

fun utf8_decode :: "bytes \<Rightarrow> code_point list option" where
  "utf8_decode [] = Some []"
| "utf8_decode (a # s) =
     (if unat a < 0x80 then map_option ((#) (unat a)) (utf8_decode s)
      else if unat a < 0xC2 then None
      else if unat a < 0xE0 then
        (case s of
           b # s' \<Rightarrow>
             if is_cont b
             then map_option ((#) ((unat a - 0xC0) * 64 + cont_bits b)) (utf8_decode s')
             else None
         | _ \<Rightarrow> None)
      else if unat a < 0xF0 then
        (case s of
           b # c # s' \<Rightarrow>
             if is_cont b \<and> is_cont c \<and> (a = 0xE0 \<longrightarrow> 0xA0 \<le> unat b) \<and> (a = 0xED \<longrightarrow> unat b < 0xA0)
             then map_option ((#) ((unat a - 0xE0) * 4096 + cont_bits b * 64 + cont_bits c))
                    (utf8_decode s')
             else None
         | _ \<Rightarrow> None)
      else if unat a < 0xF5 then
        (case s of
           b # c # d # s' \<Rightarrow>
             if is_cont b \<and> is_cont c \<and> is_cont d \<and>
                (a = 0xF0 \<longrightarrow> 0x90 \<le> unat b) \<and> (a = 0xF4 \<longrightarrow> unat b < 0x90)
             then map_option
                    ((#) ((unat a - 0xF0) * 262144 + cont_bits b * 4096 + cont_bits c * 64
                          + cont_bits d))
                    (utf8_decode s')
             else None
         | _ \<Rightarrow> None)
      else None)"

text \<open>The bytes of one \<open>char\<close> (\<open>char::encode_utf8\<close>), and of a string.\<close>

definition utf8_encode_char :: "code_point \<Rightarrow> bytes" where
  "utf8_encode_char c =
     (if c < 0x80 then [of_nat c]
      else if c < 0x800 then [of_nat (0xC0 + c div 64), of_nat (0x80 + c mod 64)]
      else if c < 0x10000 then
        [of_nat (0xE0 + c div 4096), of_nat (0x80 + c div 64 mod 64), of_nat (0x80 + c mod 64)]
      else
        [of_nat (0xF0 + c div 262144), of_nat (0x80 + c div 4096 mod 64),
         of_nat (0x80 + c div 64 mod 64), of_nat (0x80 + c mod 64)])"

definition utf8_encode :: "code_point list \<Rightarrow> bytes" where
  "utf8_encode cs = concat (map utf8_encode_char cs)"

definition from_utf8_ok :: "bytes \<Rightarrow> bool" where
  "from_utf8_ok s \<longleftrightarrow> utf8_decode s \<noteq> None"

section \<open>Decimal round trips\<close>

lemma unat_digit_byte: "d < 10 \<Longrightarrow> unat (digit_byte d) = 48 + d"
  by (simp add: digit_byte_def unat_of_nat del: of_nat_add)

lemma digit_byte_props [simp]:
  "d < 10 \<Longrightarrow> is_digit (digit_byte d)"
  "d < 10 \<Longrightarrow> digit_value (digit_byte d) = d"
  by (simp_all add: is_digit_def digit_value_def unat_digit_byte)

lemma digit_value_less: "is_digit c \<Longrightarrow> digit_value c < 10"
  by (auto simp: is_digit_def digit_value_def)

lemma dec_string_nonempty [simp]: "dec_string n \<noteq> []"
  by (subst dec_string.simps) simp

lemma dec_string_digits: "c \<in> set (dec_string n) \<Longrightarrow> is_digit c"
proof (induction n rule: dec_string.induct)
  case (1 n)
  show ?case
  proof (cases "n < 10")
    case True
    with "1.prems" show ?thesis by (subst (asm) dec_string.simps) simp
  next
    case False
    with "1" show ?thesis by (subst (asm) (2) dec_string.simps) auto
  qed
qed

lemma digits_acc_append:
  "digits_acc n (xs @ ys) = (case digits_acc n xs of None \<Rightarrow> None | Some m \<Rightarrow> digits_acc m ys)"
  by (induction n xs rule: digits_acc.induct) auto

lemma digits_acc_dec_string: "digits_acc 0 (dec_string n) = Some n"
proof (induction n rule: dec_string.induct)
  case (1 n)
  show ?case
  proof (cases "n < 10")
    case True
    then show ?thesis by (subst dec_string.simps) simp
  next
    case False
    then have "digits_acc 0 (dec_string (n div 10)) = Some (n div 10)" by (rule "1.IH")
    with False show ?thesis by (subst dec_string.simps) (simp add: digits_acc_append)
  qed
qed

lemma parse_digits_dec_string [simp]: "parse_digits (dec_string n) = Some n"
  by (simp add: parse_digits_def digits_acc_dec_string)

lemma is_digit_neqs: "is_digit c \<Longrightarrow> c \<noteq> 43 \<and> c \<noteq> 45 \<and> c \<noteq> 13 \<and> c \<noteq> 10 \<and> unat c < 0x80"
  by (auto simp: is_digit_def)

lemma signed_digits_dec_string: "signed_digits (dec_string n) = Some (int n)"
proof (cases "dec_string n")
  case Nil
  then show ?thesis by simp
next
  case (Cons c cs)
  then have "is_digit c" using dec_string_digits [of c n] by simp
  with Cons show ?thesis
    using is_digit_neqs [of c] parse_digits_dec_string [of n] by (simp add: signed_digits_def)
qed

lemma sint_in_range: "i64_in_range (sint (w :: i64))"
  using sint_ge [of w] sint_lt [of w] by (simp add: i64_in_range_def)

lemma signed_digits_i64_to_string: "signed_digits (i64_to_string w) = Some (sint w)"
proof (cases "sint w < 0")
  case True
  then show ?thesis by (simp add: i64_to_string_def signed_digits_def)
next
  case False
  then show ?thesis by (simp add: i64_to_string_def signed_digits_dec_string)
qed

lemma i64_round_trip [simp]: "i64_from_str (i64_to_string w) = Some w"
  by (simp add: i64_from_str_def signed_digits_i64_to_string sint_in_range)

lemma i64_from_str_dec_string:
  "n < 2 ^ 63 \<Longrightarrow> i64_from_str (dec_string n) = Some (of_nat n)"
  by (simp add: i64_from_str_def signed_digits_dec_string i64_in_range_def)

lemma u64_from_str_dec_string: "n < 2 ^ 64 \<Longrightarrow> u64_from_str (dec_string n) = Some (of_nat n)"
proof (cases "dec_string n")
  case Nil
  then show ?thesis by simp
next
  case (Cons c cs)
  assume n: "n < 2 ^ 64"
  from Cons have "is_digit c" using dec_string_digits [of c n] by simp
  with Cons n show ?thesis
    using is_digit_neqs [of c] parse_digits_dec_string [of n] by (simp add: u64_from_str_def)
qed

lemma u64_round_trip: "u64_from_str (dec_string (unat w)) = Some w"
  using u64_from_str_dec_string [of "unat w"] unsigned_less [of w] by simp

text \<open>What a successful parse says: the value printed is in range.\<close>

lemma i64_from_str_SomeD:
  "i64_from_str s = Some w \<Longrightarrow> \<exists>i. signed_digits s = Some i \<and> i64_in_range i \<and> sint w = i"
  by (auto simp: i64_from_str_def i64_in_range_def signed_of_int signed_take_bit_int_eq_self
      split: option.splits if_splits)

section \<open>Zero padding\<close>

lemma zero_digit [simp]: "is_digit 48" "digit_value 48 = 0"
  by (simp_all add: is_digit_def digit_value_def)

lemma digits_acc_replicate_zero: "digits_acc n (replicate k 48 @ s) = digits_acc (n * 10 ^ k) s"
  by (induction k arbitrary: n) (simp_all add: algebra_simps)

lemma zero_pad_digits: "c \<in> set (zero_pad k n) \<Longrightarrow> is_digit c"
  by (auto simp: zero_pad_def Let_def is_digit_def dest: dec_string_digits
      intro: dec_string_digits [unfolded is_digit_def])

lemma length_dec_string: "n < 10 ^ k \<Longrightarrow> 0 < k \<Longrightarrow> length (dec_string n) \<le> k"
proof (induction n arbitrary: k rule: dec_string.induct)
  case (1 n)
  show ?case
  proof (cases "n < 10")
    case True
    with "1.prems" show ?thesis by (subst dec_string.simps) simp
  next
    case False
    then obtain j where j: "k = Suc j" "0 < j"
      using "1.prems" by (cases k; cases "k - 1") auto
    with "1.prems" have "n div 10 < 10 ^ j" by (simp add: less_mult_imp_div_less mult.commute)
    with False j "1.IH" have "length (dec_string (n div 10)) \<le> j" by blast
    with False j show ?thesis by (subst dec_string.simps) simp
  qed
qed

lemma length_zero_pad: "n < 10 ^ k \<Longrightarrow> 0 < k \<Longrightarrow> length (zero_pad k n) = k"
  using length_dec_string [of n k] by (simp add: zero_pad_def Let_def)

lemma parse_digits_zero_pad: "parse_digits (zero_pad k n) = Some n"
  by (simp add: parse_digits_def zero_pad_def Let_def digits_acc_replicate_zero
      digits_acc_dec_string)

section \<open>ASCII strings are well-formed UTF-8\<close>

lemma utf8_decode_ascii: "(\<And>c. c \<in> set s \<Longrightarrow> unat c < 0x80) \<Longrightarrow> utf8_decode s = Some (map unat s)"
  by (induction s) auto

lemma from_utf8_ok_ascii: "(\<And>c. c \<in> set s \<Longrightarrow> unat c < 0x80) \<Longrightarrow> from_utf8_ok s"
  by (simp add: from_utf8_ok_def utf8_decode_ascii)

lemma i64_to_string_bytes: "c \<in> set (i64_to_string w) \<Longrightarrow> is_digit c \<or> c = 45"
  by (auto simp: i64_to_string_def dest: dec_string_digits split: if_splits)

lemma from_utf8_ok_dec_string [simp]: "from_utf8_ok (dec_string n)"
  by (rule from_utf8_ok_ascii) (auto dest!: dec_string_digits is_digit_neqs)

lemma from_utf8_ok_i64_to_string [simp]: "from_utf8_ok (i64_to_string w)"
  by (rule from_utf8_ok_ascii) (auto dest!: i64_to_string_bytes is_digit_neqs)

section \<open>UTF-8 round trips\<close>

lemma unat_of_nat_byte: "n < 256 \<Longrightarrow> unat (of_nat n :: u8) = n"
  by (simp add: unat_of_nat)

lemma of_nat_byte_less: "n < 256 \<Longrightarrow> (of_nat n :: u8) < k \<longleftrightarrow> n < unat k"
  by (simp add: word_less_nat_alt unat_of_nat)

lemma of_nat_byte_le: "n < 256 \<Longrightarrow> k \<le> (of_nat n :: u8) \<longleftrightarrow> unat k \<le> n"
  by (simp add: word_le_nat_alt unat_of_nat)

lemma of_nat_byte_eq: "n < 256 \<Longrightarrow> (of_nat n :: u8) = k \<longleftrightarrow> n = unat k"
  by (auto simp: word_unat_eq_iff unat_of_nat)

lemmas of_nat_byte = unat_of_nat_byte of_nat_byte_less of_nat_byte_le of_nat_byte_eq

text \<open>Code points from their groups of six bits, one lemma per length of the encoding.\<close>

lemma utf8_decode_2:
  assumes "2 \<le> q" "q < 32" "r < 64"
  shows "utf8_decode (of_nat (0xC0 + q) # of_nat (0x80 + r) # s) =
     map_option ((#) (q * 64 + r)) (utf8_decode s)"
  using assms by (simp add: of_nat_byte is_cont_def cont_bits_def del: of_nat_add)

lemma utf8_decode_3:
  assumes "q < 16" "m < 64" "r < 64" "q = 0 \<longrightarrow> 32 \<le> m" "q = 13 \<longrightarrow> m < 32"
  shows "utf8_decode (of_nat (0xE0 + q) # of_nat (0x80 + m) # of_nat (0x80 + r) # s) =
     map_option ((#) (q * 4096 + m * 64 + r)) (utf8_decode s)"
  using assms by (simp add: of_nat_byte is_cont_def cont_bits_def del: of_nat_add)

lemma utf8_decode_4:
  assumes "q < 5" "m < 64" "n < 64" "r < 64" "q = 0 \<longrightarrow> 16 \<le> m" "q = 4 \<longrightarrow> m < 16"
  shows "utf8_decode (of_nat (0xF0 + q) # of_nat (0x80 + m) # of_nat (0x80 + n) # of_nat (0x80 + r) # s) =
     map_option ((#) (q * 262144 + m * 4096 + n * 64 + r)) (utf8_decode s)"
  using assms by (simp add: of_nat_byte is_cont_def cont_bits_def del: of_nat_add)

lemma split_sextets2: "(c::nat) div 4096 * 4096 + c div 64 mod 64 * 64 + c mod 64 = c"
proof -
  have "c div 4096 = c div 64 div 64" by (simp add: div_mult2_eq [symmetric])
  then show ?thesis
    using div_mult_mod_eq [of "c div 64" 64] div_mult_mod_eq [of c 64] by linarith
qed

lemma split_sextets3:
  "(c::nat) div 262144 * 262144 + c div 4096 mod 64 * 4096 + c div 64 mod 64 * 64 + c mod 64 = c"
proof -
  have "c div 262144 = c div 4096 div 64" by (simp add: div_mult2_eq [symmetric])
  then show ?thesis
    using div_mult_mod_eq [of "c div 4096" 64] split_sextets2 [of c] by linarith
qed

lemma utf8_decode_encode_char:
  assumes "is_scalar c"
  shows "utf8_decode (utf8_encode_char c @ s) = map_option ((#) c) (utf8_decode s)"
proof -
  consider "c < 0x80" | "0x80 \<le> c" "c < 0x800" | "0x800 \<le> c" "c < 0x10000" | "0x10000 \<le> c"
    by linarith
  then show ?thesis
  proof cases
    case 1
    then show ?thesis by (simp add: utf8_encode_char_def of_nat_byte del: of_nat_add)
  next
    case 2
    then show ?thesis
      using utf8_decode_2 [of "c div 64" "c mod 64" s]
      by (simp add: utf8_encode_char_def less_mult_imp_div_less del: of_nat_add utf8_decode.simps)
  next
    case 3
    then have "c div 4096 < 16" "c div 4096 = 0 \<longrightarrow> 32 \<le> c div 64 mod 64"
      "c div 4096 = 13 \<longrightarrow> c div 64 mod 64 < 32"
      using assms split_sextets2 [of c] by (auto simp: is_scalar_def)
    with 3 show ?thesis
      using utf8_decode_3 [of "c div 4096" "c div 64 mod 64" "c mod 64" s]
      by (simp add: utf8_encode_char_def split_sextets2 del: of_nat_add utf8_decode.simps)
  next
    case 4
    then have "c div 262144 < 5" "c div 262144 = 0 \<longrightarrow> 16 \<le> c div 4096 mod 64"
      "c div 262144 = 4 \<longrightarrow> c div 4096 mod 64 < 16"
      using assms split_sextets3 [of c] by (auto simp: is_scalar_def)
    with 4 show ?thesis
      using utf8_decode_4 [of "c div 262144" "c div 4096 mod 64" "c div 64 mod 64" "c mod 64" s]
      by (simp add: utf8_encode_char_def split_sextets3 del: of_nat_add utf8_decode.simps)
  qed
qed

lemma utf8_decode_encode:
  "(\<And>c. c \<in> set cs \<Longrightarrow> is_scalar c) \<Longrightarrow> utf8_decode (utf8_encode cs) = Some cs"
  by (induction cs) (simp_all add: utf8_encode_def utf8_decode_encode_char)

lemma div_mod_sextet: "c = x * 64 + r \<Longrightarrow> r < 64 \<Longrightarrow> c div 64 = x \<and> c mod 64 = r" for c :: nat
  by simp

lemma utf8_encode_2:
  "2 \<le> q \<Longrightarrow> q < 32 \<Longrightarrow> r < 64 \<Longrightarrow>
     utf8_encode_char (q * 64 + r) = [of_nat (0xC0 + q), of_nat (0x80 + r)] \<and> is_scalar (q * 64 + r)"
  by (simp add: utf8_encode_char_def is_scalar_def del: of_nat_add)

lemma utf8_encode_3:
  assumes "q < 16" "m < 64" "r < 64" "q = 0 \<longrightarrow> 32 \<le> m" "q = 13 \<longrightarrow> m < 32"
  shows "utf8_encode_char (q * 4096 + m * 64 + r) =
       [of_nat (0xE0 + q), of_nat (0x80 + m), of_nat (0x80 + r)] \<and>
     is_scalar (q * 4096 + m * 64 + r)"
proof -
  let ?c = "q * 4096 + m * 64 + r"
  have d: "?c div 64 = q * 64 + m" and r: "?c mod 64 = r" 
    using div_mod_sextet [of ?c "q * 64 + m" r] assms(3) by simp_all
  have "?c div 4096 = ?c div 64 div 64" by (simp add: div_mult2_eq [symmetric])
  then have q: "?c div 4096 = q" using d assms(2) by simp
  have "?c < 0x10000" "0x800 \<le> ?c" using assms by (cases "q = 0"; simp)+
  moreover have "is_scalar ?c" using assms by (cases "q < 13"; cases "q = 13") (simp_all add: is_scalar_def)
  ultimately show ?thesis using d r q assms(2) by (simp add: utf8_encode_char_def del: of_nat_add)
qed

lemma utf8_encode_4:
  assumes "q < 5" "m < 64" "n < 64" "r < 64" "q = 0 \<longrightarrow> 16 \<le> m" "q = 4 \<longrightarrow> m < 16"
  shows "utf8_encode_char (q * 262144 + m * 4096 + n * 64 + r) =
       [of_nat (0xF0 + q), of_nat (0x80 + m), of_nat (0x80 + n), of_nat (0x80 + r)] \<and>
     is_scalar (q * 262144 + m * 4096 + n * 64 + r)"
proof -
  let ?c = "q * 262144 + m * 4096 + n * 64 + r"
  have d: "?c div 64 = (q * 64 + m) * 64 + n" and r: "?c mod 64 = r" 
    using div_mod_sextet [of ?c "(q * 64 + m) * 64 + n" r] assms(4) by simp_all
  have "?c div 4096 = ?c div 64 div 64" by (simp add: div_mult2_eq [symmetric])
  then have m: "?c div 4096 = q * 64 + m" and n: "?c div 64 mod 64 = n"
    using div_mod_sextet [OF d assms(3)] by simp_all
  have "?c div 262144 = ?c div 4096 div 64" by (simp add: div_mult2_eq [symmetric])
  then have q: "?c div 262144 = q" using m assms(2) by simp
  have "0x10000 \<le> ?c" using assms by (cases "q = 0") simp_all
  moreover have "?c < 0x110000" using assms by (cases "q = 4") simp_all
  ultimately show ?thesis
    using r n m q assms(2) by (simp add: utf8_encode_char_def is_scalar_def del: of_nat_add)
qed

lemma byte_of_nat_diff: "(k :: nat) \<le> unat a \<Longrightarrow> of_nat (k + (unat a - k)) = (a :: u8)"
  by simp

lemma cont_bits_less: "is_cont b \<Longrightarrow> cont_bits b < 64 \<and> of_nat (0x80 + cont_bits b) = b"
  by (auto simp: is_cont_def cont_bits_def)

lemma utf8_encode_decode:
  "utf8_decode s = Some cs \<Longrightarrow> utf8_encode cs = s \<and> (\<forall>c \<in> set cs. is_scalar c)"
proof (induction s arbitrary: cs rule: utf8_decode.induct)
  case 1
  then show ?case by (simp add: utf8_encode_def)
next
  case (2 a s)
  consider "unat a < 0x80" | "\<not> unat a < 0xC2" "unat a < 0xE0"
    | "\<not> unat a < 0xE0" "unat a < 0xF0" | "\<not> unat a < 0xF0" "unat a < 0xF5"
    using "2.prems" by (auto split: if_splits)
  then show ?case
  proof cases
    case 1
    then obtain ds where "utf8_decode s = Some ds" "cs = unat a # ds"
      using "2.prems" by auto
    with 1 "2.IH"(1) show ?thesis
      by (auto simp: utf8_encode_def utf8_encode_char_def is_scalar_def)
  next
    case 2
    then obtain b t ds where s: "s = b # t" and b: "is_cont b" and ds: "utf8_decode t = Some ds"
      and cs: "cs = ((unat a - 0xC0) * 64 + cont_bits b) # ds"
      using "2.prems" by (auto split: if_splits list.splits)
    have "utf8_encode ds = t \<and> (\<forall>c \<in> set ds. is_scalar c)"
      using 2 s b ds by (intro "2.IH"(2) [OF _ _ _ s]) auto
    then show ?thesis
      using 2 s b cs utf8_encode_2 [of "unat a - 0xC0" "cont_bits b"] cont_bits_less [OF b]
        byte_of_nat_diff [where k = "0xC0" and a = a]
      by (auto simp: utf8_encode_def)
  next
    case 3
    then obtain b c t ds where s: "s = b # c # t" and b: "is_cont b" and c: "is_cont c"
      and ab: "a = 0xE0 \<longrightarrow> 0xA0 \<le> unat b" "a = 0xED \<longrightarrow> unat b < 0xA0"
      and ds: "utf8_decode t = Some ds"
      and cs: "cs = ((unat a - 0xE0) * 4096 + cont_bits b * 64 + cont_bits c) # ds"
      using "2.prems" by (auto split: if_splits list.splits)
    have "utf8_encode ds = t \<and> (\<forall>c \<in> set ds. is_scalar c)"
      using 3 s b c ab ds by (intro "2.IH"(3) [OF _ _ _ _ s refl]) auto
    moreover have "unat a - 0xE0 = 0 \<longrightarrow> 32 \<le> cont_bits b" "unat a - 0xE0 = 13 \<longrightarrow> cont_bits b < 32"
      using 3 ab by (auto simp: word_unat_eq_iff cont_bits_def)
    ultimately show ?thesis
      using 3 s cs utf8_encode_3 [of "unat a - 0xE0" "cont_bits b" "cont_bits c"]
        cont_bits_less [OF b] cont_bits_less [OF c] byte_of_nat_diff [where k = "0xE0" and a = a]
      by (auto simp: utf8_encode_def)
  next
    case 4
    then obtain b c d t ds where s: "s = b # c # d # t"
      and b: "is_cont b" and c: "is_cont c" and d: "is_cont d"
      and ab: "a = 0xF0 \<longrightarrow> 0x90 \<le> unat b" "a = 0xF4 \<longrightarrow> unat b < 0x90"
      and ds: "utf8_decode t = Some ds"
      and cs: "cs = ((unat a - 0xF0) * 262144 + cont_bits b * 4096 + cont_bits c * 64 + cont_bits d) # ds"
      using "2.prems" by (auto split: if_splits list.splits)
    have "utf8_encode ds = t \<and> (\<forall>c \<in> set ds. is_scalar c)"
      using 4 s b c d ab ds by (intro "2.IH"(4) [OF _ _ _ _ _ s refl refl]) auto
    moreover have "unat a - 0xF0 = 0 \<longrightarrow> 16 \<le> cont_bits b" "unat a - 0xF0 = 4 \<longrightarrow> cont_bits b < 16"
      using 4 ab by (auto simp: word_unat_eq_iff cont_bits_def)
    ultimately show ?thesis
      using 4 s cs utf8_encode_4 [of "unat a - 0xF0" "cont_bits b" "cont_bits c" "cont_bits d"]
        cont_bits_less [OF b] cont_bits_less [OF c] cont_bits_less [OF d] byte_of_nat_diff [where k = "0xF0" and a = a]
      by (auto simp: utf8_encode_def)
  qed
qed

end
