(* ===== verification/F64.thy ===== *)
theory F64
  imports Rust_Std
begin

text \<open>
  The \<open>f64\<close> operations the RESP codec uses, on IEEE-754 binary64 bit patterns:
  classification, the sign test, \<open>f64::to_string\<close> (shortest decimal digits that read back,
  printed without an exponent) and \<open>f64::from_str\<close> (correctly rounded, ties to even).
  The finite doubles are the integer multiples of \<open>2\<^sup>-\<^sup>1\<^sup>0\<^sup>7\<^sup>4\<close> that fit 53 significant bits, so
  the whole arithmetic is on natural numbers, in units of \<open>2\<^sup>-\<^sup>1\<^sup>0\<^sup>7\<^sup>4\<close>.
  The result used by the codec is \<open>f64_round_trip\<close>: every finite double prints to a string
  that parses back to the same bits.
\<close>

section \<open>Bit patterns\<close>

type_synonym f64 = "64 word"

definition f64_negative :: "f64 \<Rightarrow> bool" where
  "f64_negative d \<longleftrightarrow> 2 ^ 63 \<le> unat d"

text \<open>The bits without the sign.\<close>

definition f64_mag :: "f64 \<Rightarrow> nat" where
  "f64_mag d = unat d mod 2 ^ 63"

definition inf_mag :: nat where
  "inf_mag = 0x7FF * 2 ^ 52"

definition f64_make :: "bool \<Rightarrow> nat \<Rightarrow> f64" where
  "f64_make neg m = of_nat ((if neg then 2 ^ 63 else 0) + m)"

definition f64_is_infinite :: "f64 \<Rightarrow> bool" where
  "f64_is_infinite d \<longleftrightarrow> f64_mag d = inf_mag"

definition f64_is_nan :: "f64 \<Rightarrow> bool" where
  "f64_is_nan d \<longleftrightarrow> inf_mag < f64_mag d"

definition f64_is_finite :: "f64 \<Rightarrow> bool" where
  "f64_is_finite d \<longleftrightarrow> f64_mag d < inf_mag"

definition f64_INFINITY :: f64 where
  "f64_INFINITY = f64_make False inf_mag"

definition f64_NEG_INFINITY :: f64 where
  "f64_NEG_INFINITY = f64_make True inf_mag"

definition f64_NAN :: f64 where
  "f64_NAN = f64_make False (inf_mag + 2 ^ 51)"

text \<open>\<open>d > 0.0\<close>: false for zeros, for negative numbers and for NaN.\<close>

definition f64_positive :: "f64 \<Rightarrow> bool" where
  "f64_positive d \<longleftrightarrow> \<not> f64_negative d \<and> 0 < f64_mag d \<and> f64_mag d \<le> inf_mag"

text \<open>The exponent of the unit: every finite double is a multiple of \<open>2\<^sup>-\<^sup>1\<^sup>0\<^sup>7\<^sup>4\<close>.\<close>

definition unit_exp :: nat where
  "unit_exp = 1074"

text \<open>The value of a finite magnitude in units of \<open>2\<^sup>-\<^sup>1\<^sup>0\<^sup>7\<^sup>4\<close>.\<close>

definition mag_units :: "nat \<Rightarrow> nat" where
  "mag_units m =
     (let e = m div 2 ^ 52; f = m mod 2 ^ 52
      in if e = 0 then f else (2 ^ 52 + f) * 2 ^ (e - 1))"

section \<open>Rounding\<close>

fun floor_log2 :: "nat \<Rightarrow> nat" where
  "floor_log2 n = (if n < 2 then 0 else Suc (floor_log2 (n div 2)))"

declare floor_log2.simps [simp del]

text \<open>
  The magnitude nearest to \<open>num / den\<close> units, ties to the even one; everything beyond the
  largest finite double is infinity.
\<close>

definition round_units :: "nat \<Rightarrow> nat \<Rightarrow> nat" where
  "round_units num den =
     (let t = num div den;
          s = (if t < 2 ^ 53 then 0 else floor_log2 t - 52);
          unit = den * 2 ^ s;
          q = num div unit;
          r = num mod unit;
          q' = (if unit < 2 * r \<or> unit = 2 * r \<and> odd q then q + 1 else q)
      in min (s * 2 ^ 52 + q') inf_mag)"

text \<open>The magnitude nearest to the decimal number \<open>m \<cdot> 10\<^sup>e\<close>.\<close>

definition round_decimal :: "nat \<Rightarrow> int \<Rightarrow> nat" where
  "round_decimal m e =
     (if 0 \<le> e then round_units (m * 10 ^ nat e * 2 ^ unit_exp) 1
      else round_units (m * 2 ^ unit_exp) (10 ^ nat (- e)))"

section \<open>Parsing\<close>

text \<open>A run of digits: its value, its length, and what follows.\<close>

fun span_digits :: "nat \<Rightarrow> nat \<Rightarrow> bytes \<Rightarrow> nat \<times> nat \<times> bytes" where
  "span_digits v n [] = (v, n, [])"
| "span_digits v n (c # cs) =
     (if is_digit c then span_digits (10 * v + digit_value c) (n + 1) cs else (v, n, c # cs))"

text \<open>The exponent's digits; once it reaches \<open>10000\<^sub>1\<^sub>6\<close> further digits are read and ignored.\<close>

fun exponent_acc :: "nat \<Rightarrow> bytes \<Rightarrow> nat option" where
  "exponent_acc e [] = Some e"
| "exponent_acc e (c # cs) =
     (if is_digit c then exponent_acc (if e < 0x10000 then 10 * e + digit_value c else e) cs
      else None)"

definition parse_exponent :: "bytes \<Rightarrow> int option" where
  "parse_exponent s =
     (case s of
        [] \<Rightarrow> None
      | c # cs \<Rightarrow>
          if c = 45 then (if cs = [] then None else map_option (\<lambda>e. - int e) (exponent_acc 0 cs))
          else if c = 43 then (if cs = [] then None else map_option int (exponent_acc 0 cs))
          else map_option int (exponent_acc 0 s))"

text \<open>Digits, an optional fraction and an optional exponent, with at least one digit in all.\<close>

definition parse_number :: "bytes \<Rightarrow> (nat \<times> int) option" where
  "parse_number s =
     (let (v, n, s1) = span_digits 0 0 s;
          (v, nf, s2) = (case s1 of
                           c # cs \<Rightarrow> if c = 46 then span_digits v 0 cs else (v, 0, s1)
                         | [] \<Rightarrow> (v, 0, s1))
      in if n + nf = 0 then None
         else case s2 of
                [] \<Rightarrow> Some (v, - int nf)
              | c # cs \<Rightarrow>
                  if c = 101 \<or> c = 69
                  then map_option (\<lambda>e. (v, e - int nf)) (parse_exponent cs)
                  else None)"

definition to_ascii_lowercase :: "u8 \<Rightarrow> u8" where
  "to_ascii_lowercase c = (if 65 \<le> unat c \<and> unat c \<le> 90 then c + 32 else c)"

definition parse_inf_nan :: "bytes \<Rightarrow> nat option" where
  "parse_inf_nan s =
     (let l = map to_ascii_lowercase s
      in if l = bstr ''nan'' then Some (inf_mag + 2 ^ 51)
         else if l = bstr ''inf'' \<or> l = bstr ''infinity'' then Some inf_mag
         else None)"

definition f64_from_str :: "bytes \<Rightarrow> f64 option" where
  "f64_from_str s =
     (case s of
        [] \<Rightarrow> None
      | c # cs \<Rightarrow>
          (let neg = (c = 45);
               body = (if c = 45 \<or> c = 43 then cs else s)
           in if body = [] then None
              else case parse_number body of
                     Some (m, e) \<Rightarrow> Some (f64_make neg (round_decimal m e))
                   | None \<Rightarrow> map_option (f64_make neg) (parse_inf_nan body)))"

section \<open>Printing\<close>

text \<open>
  Candidates with \<open>n\<close> significant digits for a magnitude whose exact decimal expansion is
  \<open>x \<cdot> 10\<^sup>-\<^sup>1\<^sup>0\<^sup>7\<^sup>4\<close>: \<open>x\<close> rounded down and up to a multiple of \<open>10\<^sup>p\<close>. A candidate counts when it
  reads back to the same magnitude; of two the nearer one is taken, and the upper one on a tie.
\<close>

definition reads_back :: "nat \<Rightarrow> nat \<Rightarrow> nat \<Rightarrow> bool" where
  "reads_back m d p \<longleftrightarrow> round_units (d * 10 ^ p * 2 ^ unit_exp) (10 ^ unit_exp) = m"

definition digits_at :: "nat \<Rightarrow> nat \<Rightarrow> nat \<Rightarrow> nat option" where
  "digits_at m x p =
     (let lo = x div 10 ^ p; r = x mod 10 ^ p; hi = lo + 1;
          down = reads_back m lo p; up = 0 < r \<and> reads_back m hi p
      in if up \<and> (\<not> down \<or> 10 ^ p \<le> 2 * r) then Some hi
         else if down then Some lo
         else None)"

text \<open>The shortest digits: drop as many digits of the exact expansion as possible.\<close>

fun shortest_digits :: "nat \<Rightarrow> nat \<Rightarrow> nat \<Rightarrow> nat \<times> nat" where
  "shortest_digits m x 0 = (x, 0)"
| "shortest_digits m x (Suc p) =
     (case digits_at m x (Suc p) of Some d \<Rightarrow> (d, Suc p) | None \<Rightarrow> shortest_digits m x p)"

function strip_zeros :: "nat \<Rightarrow> nat \<Rightarrow> nat \<times> nat" where
  "strip_zeros d p = (if 0 < d \<and> d mod 10 = 0 then strip_zeros (d div 10) (p + 1) else (d, p))"
  by pat_completeness auto
termination
  by (relation "measure fst") auto

declare strip_zeros.simps [simp del]

text \<open>The positional notation of \<open>d \<cdot> 10\<^sup>p\<^sup>-\<^sup>1\<^sup>0\<^sup>7\<^sup>4\<close>.\<close>

definition positional :: "nat \<Rightarrow> nat \<Rightarrow> bytes" where
  "positional d p =
     (if unit_exp \<le> p then dec_string (d * 10 ^ (p - unit_exp))
      else let k = unit_exp - p
           in dec_string (d div 10 ^ k) @ 46 # zero_pad k (d mod 10 ^ k))"

definition mag_to_string :: "nat \<Rightarrow> bytes" where
  "mag_to_string m =
     (if m = 0 then dec_string 0
      else let x = mag_units m * 5 ^ unit_exp;
               (d, p) = shortest_digits m x (length (dec_string x) - 1);
               (d', p') = strip_zeros d p
           in positional d' p')"

text \<open>\<open>f64::to_string\<close> of a finite number.\<close>

definition f64_to_string :: "f64 \<Rightarrow> bytes" where
  "f64_to_string d = (if f64_negative d then [45] else []) @ mag_to_string (f64_mag d)"

section \<open>Rounding is exact on finite doubles\<close>

lemma floor_log2_eq: "2 ^ j \<le> n \<Longrightarrow> n < 2 ^ Suc j \<Longrightarrow> floor_log2 n = j"
proof (induction j arbitrary: n)
  case 0
  then show ?case by (subst floor_log2.simps) simp
next
  case (Suc j)
  then have "2 ^ j \<le> n div 2" "n div 2 < 2 ^ Suc j" by (simp_all add: less_mult_imp_div_less)
  then have "floor_log2 (n div 2) = j" by (rule Suc.IH)
  moreover have "2 * 1 \<le> 2 * (2::nat) ^ j" by (rule mult_le_mono2) simp
  then have "\<not> n < 2" using Suc.prems(1) unfolding power_Suc by linarith
  ultimately show ?case by (subst floor_log2.simps) simp
qed

lemma round_units_cancel:
  assumes "0 < c"
  shows "round_units (c * num) (c * den) = round_units num den"
proof -
  have "c * num div (c * den) = num div den" using assms by simp
  moreover have "c * num div (c * den * 2 ^ s) = num div (den * 2 ^ s)"
    and "c * num mod (c * den * 2 ^ s) = c * (num mod (den * 2 ^ s))" for s :: nat
    using assms by (simp_all only: mult.assoc mult_mod_right div_mult_mult1)
  moreover have "c * den * u < 2 * (c * r) \<longleftrightarrow> den * u < 2 * r"
    and "c * den * u = 2 * (c * r) \<longleftrightarrow> den * u = 2 * r" for u r
    using nat_mult_less_cancel1 [OF assms, of "den * u" "2 * r"]
      nat_mult_eq_cancel1 [OF assms, of "den * u" "2 * r"]
    by (simp_all only: mult.assoc mult.left_commute [of 2 c])
  ultimately show ?thesis unfolding round_units_def Let_def by presburger
qed

lemma round_units_exact_1: "m < inf_mag \<Longrightarrow> round_units (mag_units m) 1 = m"
proof -
  assume m: "m < inf_mag"
  let ?e = "m div 2 ^ 52" and ?f = "m mod 2 ^ 52"
  have split: "?e * 2 ^ 52 + ?f = m" by (rule div_mult_mod_eq)
  have f: "?f < 2 ^ 52" by simp
  show ?thesis
  proof (cases "?e \<le> 1")
    case True
    then consider "?e = 0" | "?e = 1" by linarith
    then have "mag_units m = ?e * 2 ^ 52 + ?f" by cases (simp_all add: mag_units_def Let_def)
    then have "mag_units m = m" by (simp only: split)
    moreover have "m < 2 ^ 53" using True by simp
    ultimately show ?thesis using m by (simp add: round_units_def)
  next
    case False
    then obtain k where k: "?e = Suc (Suc k)" by (cases ?e; cases "?e - 1") auto
    let ?q = "2 ^ 52 + ?f" and ?s = "Suc k"
    have u: "mag_units m = ?q * 2 ^ ?s" using k by (simp add: mag_units_def Let_def)
    have "2 ^ (52 + ?s) \<le> mag_units m" unfolding u power_add by (intro mult_le_mono1) simp
    moreover have "mag_units m < 2 ^ Suc (52 + ?s)"
      unfolding u power_Suc power_add using f by (simp only: mult.assoc [symmetric]) (intro mult_strict_right_mono; simp)
    ultimately have lg: "floor_log2 (mag_units m) = 52 + ?s" by (rule floor_log2_eq)
    have big: "\<not> mag_units m < 2 ^ 53"
    proof -
      have "(2::nat) ^ 53 \<le> 2 ^ (52 + ?s)" by (rule power_increasing) simp_all
      with \<open>2 ^ (52 + ?s) \<le> mag_units m\<close> show ?thesis by linarith
    qed
    have "mag_units m div 2 ^ ?s = ?q" "mag_units m mod 2 ^ ?s = 0" by (simp_all add: u)
    then have "round_units (mag_units m) 1 = min (?s * 2 ^ 52 + ?q) inf_mag"
      using big lg by (simp add: round_units_def Let_def)
    moreover have "?s * 2 ^ 52 + ?q = m"
      using split by (simp only: k mult_Suc add.assoc add.left_commute)
    ultimately show ?thesis using m by simp
  qed
qed

lemma round_units_exact: "m < inf_mag \<Longrightarrow> 0 < den \<Longrightarrow> round_units (mag_units m * den) den = m"
  using round_units_cancel [of den "mag_units m" 1] round_units_exact_1 [of m] by (simp add: mult.commute)

section \<open>The digits printed read back\<close>

lemma reads_back_exact: "m < inf_mag \<Longrightarrow> reads_back m (mag_units m * 5 ^ unit_exp) 0"
proof -
  assume m: "m < inf_mag"
  have "(5::nat) ^ unit_exp * 2 ^ unit_exp = 10 ^ unit_exp"
    by (simp only: power_mult_distrib [symmetric]) simp
  then have "mag_units m * 5 ^ unit_exp * 10 ^ 0 * 2 ^ unit_exp = mag_units m * 10 ^ unit_exp"
    by (simp only: mult.assoc power_0 mult_1)
  moreover have "0 < (10::nat) ^ unit_exp" by (rule zero_less_power) simp
  ultimately show ?thesis unfolding reads_back_def using round_units_exact [OF m] by metis
qed

lemma digits_at_reads_back: "digits_at m x p = Some d \<Longrightarrow> reads_back m d p"
  by (auto simp: digits_at_def Let_def split: if_splits)

lemma shortest_digits_reads_back:
  "reads_back m x 0 \<Longrightarrow> shortest_digits m x n = (d, p) \<Longrightarrow> reads_back m d p"
  by (induction m x n rule: shortest_digits.induct)
    (auto split: option.splits dest: digits_at_reads_back)

lemma strip_zeros_value: "strip_zeros d p = (d', p') \<Longrightarrow> d' * 10 ^ p' = d * 10 ^ p"
proof (induction d p rule: strip_zeros.induct)
  case (1 d p)
  show ?case
  proof (cases "0 < d \<and> d mod 10 = 0")
    case True
    with "1.prems" have "strip_zeros (d div 10) (p + 1) = (d', p')"
      by (simp add: strip_zeros.simps [of d p])
    then have "d' * 10 ^ p' = d div 10 * 10 ^ (p + 1)" by (rule "1.IH" [OF True])
    also have "\<dots> = d div 10 * 10 * 10 ^ p" by simp
    also have "d div 10 * 10 = d" using True by auto
    finally show ?thesis .
  next
    case False
    with "1.prems" show ?thesis by (simp add: strip_zeros.simps [of d p])
  qed
qed

lemma reads_back_strip_zeros:
  "reads_back m d p \<Longrightarrow> strip_zeros d p = (d', p') \<Longrightarrow> reads_back m d' p'"
  by (simp only: reads_back_def strip_zeros_value)

section \<open>Positional notation parses back\<close>

lemma span_digits_all:
  "(\<And>c. c \<in> set s \<Longrightarrow> is_digit c) \<Longrightarrow> t = [] \<or> \<not> is_digit (hd t) \<Longrightarrow>
     span_digits v n (s @ t) = (the (digits_acc v s), n + length s, t)"
proof (induction s arbitrary: v n)
  case Nil
  then show ?case by (cases t) auto
next
  case (Cons c s)
  then show ?case by simp
qed

lemma digits_acc_dec_string_gen: "digits_acc v (dec_string n) = Some (v * 10 ^ length (dec_string n) + n)"
proof -
  have gen: "digits_acc v s = map_option (\<lambda>n. v * 10 ^ length s + n) (digits_acc 0 s)" for v s
  proof (induction s arbitrary: v)
    case Nil
    then show ?case by simp
  next
    case (Cons c s)
    show ?case
      using Cons.IH [of "10 * v + digit_value c"] Cons.IH [of "digit_value c"]
      by (cases "digits_acc 0 s") (auto simp: algebra_simps)
  qed
  show ?thesis using gen [of v "dec_string n"] by (simp add: digits_acc_dec_string)
qed

lemma digits_acc_zero_pad: "n < 10 ^ k \<Longrightarrow> 0 < k \<Longrightarrow> digits_acc v (zero_pad k n) = Some (v * 10 ^ k + n)"
proof -
  assume a: "n < 10 ^ k" "0 < k"
  have "length (dec_string n) \<le> k" by (rule length_dec_string [OF a])
  then show ?thesis
    by (simp add: zero_pad_def Let_def digits_acc_replicate_zero digits_acc_dec_string_gen
        power_add [symmetric] mult.assoc)
qed

lemma parse_number_integer: "parse_number (dec_string n) = Some (n, 0)"
proof -
  have "span_digits 0 0 (dec_string n @ []) = (n, length (dec_string n), [])"
    using span_digits_all [of "dec_string n" "[]" 0 0]
    by (simp add: dec_string_digits digits_acc_dec_string)
  then show ?thesis by (simp add: parse_number_def)
qed

lemma parse_number_fraction:
  assumes "f < 10 ^ k" "0 < k"
  shows "parse_number (dec_string n @ 46 # zero_pad k f) = Some (n * 10 ^ k + f, - int k)"
proof -
  have "\<not> is_digit 46" by (simp add: is_digit_def)
  then have "span_digits 0 0 (dec_string n @ 46 # zero_pad k f) = (n, length (dec_string n), 46 # zero_pad k f)"
    using span_digits_all [of "dec_string n" "46 # zero_pad k f" 0 0]
    by (simp add: dec_string_digits digits_acc_dec_string)
  moreover have "span_digits n 0 (zero_pad k f @ []) = (n * 10 ^ k + f, k, [])"
    using span_digits_all [of "zero_pad k f" "[]" n 0] assms
    by (simp add: zero_pad_digits digits_acc_zero_pad length_zero_pad)
  ultimately show ?thesis using assms by (simp add: parse_number_def)
qed

lemma parse_number_positional:
  assumes "reads_back m d p"
  shows "\<exists>v e. parse_number (positional d p) = Some (v, e) \<and> round_decimal v e = m"
proof (cases "unit_exp \<le> p")
  case True
  then have p: "10 ^ p = (10::nat) ^ unit_exp * 10 ^ (p - unit_exp)"
    by (simp add: power_add [symmetric])
  have "round_decimal (d * 10 ^ (p - unit_exp)) 0 =
      round_units (10 ^ unit_exp * (d * 10 ^ (p - unit_exp) * 2 ^ unit_exp)) (10 ^ unit_exp * 1)"
    by (subst round_units_cancel) (simp_all add: round_decimal_def)
  also have "\<dots> = m" using assms by (simp add: reads_back_def p ac_simps)
  finally show ?thesis using True by (simp add: positional_def parse_number_integer)
next
  case False
  define k where "k = unit_exp - p"
  then have k: "0 < k" "unit_exp = p + k" using False by simp_all
  have "round_decimal d (- int k) =
      round_units (10 ^ p * (d * 2 ^ unit_exp)) (10 ^ p * 10 ^ k)"
    using k by (subst round_units_cancel) (simp_all add: round_decimal_def)
  also have "\<dots> = round_units (d * 10 ^ p * 2 ^ unit_exp) (10 ^ unit_exp)"
    by (simp only: k(2) power_add ac_simps)
  also have "\<dots> = m" using assms by (simp add: reads_back_def)
  finally have "round_decimal d (- int k) = m" .
  moreover have "parse_number (positional d p) = Some (d div 10 ^ k * 10 ^ k + d mod 10 ^ k, - int k)"
    using False k parse_number_fraction [of "d mod 10 ^ k" k "d div 10 ^ k"]
    by (simp add: positional_def k_def Let_def)
  ultimately show ?thesis by (simp only: div_mult_mod_eq) blast
qed

section \<open>The round trip\<close>

lemma mag_less: "f64_mag d < 2 ^ 63"
  by (simp add: f64_mag_def)

lemma f64_make_mag: "f64_make (f64_negative d) (f64_mag d) = d"
proof -
  have "(if f64_negative d then 2 ^ 63 else 0) + f64_mag d = unat d"
    using unsigned_less [of d, where 'a = nat]
    by (auto simp: f64_negative_def f64_mag_def mod_if [of "unat d"])
  then show ?thesis by (simp only: f64_make_def) simp
qed

lemma mag_to_string_parses:
  assumes "m < inf_mag"
  shows "\<exists>v e. parse_number (mag_to_string m) = Some (v, e) \<and> round_decimal v e = m"
proof (cases "m = 0")
  case True
  then show ?thesis
    by (simp add: mag_to_string_def parse_number_integer round_decimal_def round_units_def)
next
  case False
  let ?x = "mag_units m * 5 ^ unit_exp"
  obtain d p where sd: "shortest_digits m ?x (length (dec_string ?x) - 1) = (d, p)" by fastforce
  obtain d' p' where sz: "strip_zeros d p = (d', p')" by fastforce
  have "reads_back m d' p'"
    using reads_back_strip_zeros [OF shortest_digits_reads_back [OF reads_back_exact [OF assms] sd] sz] .
  then show ?thesis
    using parse_number_positional False sd sz by (simp add: mag_to_string_def Let_def)
qed

lemma positional_bytes: "c \<in> set (positional d p) \<Longrightarrow> is_digit c \<or> c = 46"
  by (auto simp: positional_def Let_def dest: dec_string_digits zero_pad_digits split: if_splits)

lemma mag_to_string_bytes: "c \<in> set (mag_to_string m) \<Longrightarrow> is_digit c \<or> c = 46"
  by (auto simp: mag_to_string_def Let_def dest: dec_string_digits positional_bytes
      split: if_splits prod.splits)

lemma mag_to_string_head: "\<exists>c cs. mag_to_string m = c # cs \<and> is_digit c"
proof -
  have ds: "\<exists>c cs. dec_string n @ t = c # cs \<and> is_digit c" for n t
    using dec_string_digits [of "hd (dec_string n)" n] by (cases "dec_string n") auto
  have "\<exists>c cs. positional d p = c # cs \<and> is_digit c" for d p
    using ds [of _ "[]"] ds by (auto simp: positional_def Let_def)
  then show ?thesis using ds [of 0 "[]"] by (auto simp: mag_to_string_def Let_def split: prod.split)
qed

lemma f64_round_trip: "f64_is_finite d \<Longrightarrow> f64_from_str (f64_to_string d) = Some d"
proof -
  assume "f64_is_finite d"
  then have "f64_mag d < inf_mag" by (simp add: f64_is_finite_def)
  then obtain v e where ve: "parse_number (mag_to_string (f64_mag d)) = Some (v, e)"
      "round_decimal v e = f64_mag d"
    using mag_to_string_parses by blast
  obtain c cs where cs: "mag_to_string (f64_mag d) = c # cs" "is_digit c"
    using mag_to_string_head by blast
  then have "c \<noteq> 45" "c \<noteq> 43" using is_digit_neqs by auto
  with ve cs show ?thesis
    using f64_make_mag [of d] by (cases "f64_negative d") (simp_all add: f64_from_str_def f64_to_string_def)
qed

lemma f64_to_string_bytes: "c \<in> set (f64_to_string d) \<Longrightarrow> is_digit c \<or> c = 46 \<or> c = 45"
  by (auto simp: f64_to_string_def dest: mag_to_string_bytes split: if_splits)

lemma from_utf8_ok_f64_to_string [simp]: "from_utf8_ok (f64_to_string d)"
  by (rule from_utf8_ok_ascii) (auto dest!: f64_to_string_bytes is_digit_neqs)

text \<open>The three special spellings are never printed for a finite number.\<close>

lemma f64_to_string_not_special:
  "f64_to_string d \<noteq> bstr ''inf''" "f64_to_string d \<noteq> bstr ''-inf''" "f64_to_string d \<noteq> bstr ''nan''"
  using f64_to_string_bytes [of 110 d] f64_to_string_bytes [of 102 d] f64_to_string_bytes [of 97 d]
  by (auto simp: bstr_def is_digit_def)

lemma f64_cases: "f64_is_finite d \<or> f64_is_infinite d \<or> f64_is_nan d"
  by (auto simp: f64_is_finite_def f64_is_infinite_def f64_is_nan_def)

lemma f64_infinite_eq:
  "f64_is_infinite d \<Longrightarrow> d = (if f64_positive d then f64_INFINITY else f64_NEG_INFINITY)"
  using f64_make_mag [of d]
  by (auto simp: f64_is_infinite_def f64_positive_def f64_INFINITY_def f64_NEG_INFINITY_def inf_mag_def)

end
