(* ===== verification/Resp_Types.thy ===== *)
theory Resp_Types
  imports F64
begin

text \<open>
  The RESP data model: \<open>RespValue\<close> with its accessors (\<open>crates/resp/src/types.rs\<close>) and
  \<open>ProtocolError\<close> (\<open>crates/resp/src/error.rs\<close>). The wrapped \<open>io::Error\<close> and \<open>Utf8Error\<close>
  payloads are opaque to the crate and are left out of the two constructors that carry them.

  The second half is specification vocabulary: the nesting depth of a value and the
  well-formedness of a value under the parser's three limits.
\<close>

section \<open>Values\<close>

datatype RespValue =
    SimpleString bytes
  | Error bytes
  | Integer i64
  | BulkString "bytes option"
  | Array "RespValue list option"
  | Null
  | Boolean bool
  | Double f64
  | BigNumber bytes
  | BulkError bytes
  | VerbatimString "u8 \<times> u8 \<times> u8" bytes
  | Map "(RespValue \<times> RespValue) list"
  | Set "RespValue list"
  | Push "RespValue list"

datatype ProtocolError =
    InvalidTypeMarker u8
  | InvalidLength
  | BulkStringTooLarge usize usize
  | ArrayTooLarge usize usize
  | NestingTooDeep
  | ExpectedArray
  | EmptyCommand
  | InvalidCommandName
  | InvalidKey
  | InvalidValue
  | WrongArity string usize usize
  | UnknownCommand "code_point list"
  | Io
  | Utf8

fun is_null :: "RespValue \<Rightarrow> bool" where
  "is_null Null = True"
| "is_null (BulkString None) = True"
| "is_null (Array None) = True"
| "is_null _ = False"

fun as_bytes :: "RespValue \<Rightarrow> bytes option" where
  "as_bytes (SimpleString b) = Some b"
| "as_bytes (BulkString (Some b)) = Some b"
| "as_bytes (Error b) = Some b"
| "as_bytes (BigNumber b) = Some b"
| "as_bytes (BulkError b) = Some b"
| "as_bytes (VerbatimString _ data) = Some data"
| "as_bytes _ = None"

fun as_integer :: "RespValue \<Rightarrow> i64 option" where
  "as_integer (Integer i) = Some i"
| "as_integer _ = None"

fun into_array :: "RespValue \<Rightarrow> RespValue list option" where
  "into_array (Array (Some arr)) = Some arr"
| "into_array _ = None"

fun size_estimate :: "RespValue \<Rightarrow> nat" where
  "size_estimate (SimpleString b) = length b + 10"
| "size_estimate (Error b) = length b + 10"
| "size_estimate (BulkString (Some b)) = length b + 15"
| "size_estimate (BulkString None) = 5"
| "size_estimate (Integer _) = 15"
| "size_estimate (Array (Some arr)) = sum_list (map size_estimate arr) + 10"
| "size_estimate (Array None) = 5"
| "size_estimate (Map pairs) =
     sum_list (map (\<lambda>(k, v). size_estimate k + size_estimate v) pairs) + 10"
| "size_estimate (Set items) = sum_list (map size_estimate items) + 10"
| "size_estimate (BigNumber b) = length b + 10"
| "size_estimate (BulkError b) = length b + 15"
| "size_estimate (VerbatimString _ data) = length data + 20"
| "size_estimate (Push items) = sum_list (map size_estimate items) + 10"
| "size_estimate Null = 10"
| "size_estimate (Boolean _) = 10"
| "size_estimate (Double _) = 10"

section \<open>Line terminators\<close>

text \<open>\<open>find_crlf\<close>: the position of the first carriage return followed by a line feed.\<close>

fun find_crlf :: "bytes \<Rightarrow> nat option" where
  "find_crlf [] = None"
| "find_crlf [a] = None"
| "find_crlf (a # b # s) =
     (if a = CR \<and> b = LF then Some 0 else map_option Suc (find_crlf (b # s)))"

section \<open>Nesting and limits\<close>

text \<open>How many non-empty collections are open at once inside a value.\<close>

fun nesting :: "RespValue \<Rightarrow> nat" where
  "nesting (Array (Some xs)) = (if xs = [] then 0 else Suc (foldr (max \<circ> nesting) xs 0))"
| "nesting (Map ps) =
     (if ps = [] then 0 else Suc (foldr (\<lambda>(k, v). max (max (nesting k) (nesting v))) ps 0))"
| "nesting (Set xs) = (if xs = [] then 0 else Suc (foldr (max \<circ> nesting) xs 0))"
| "nesting (Push xs) = (if xs = [] then 0 else Suc (foldr (max \<circ> nesting) xs 0))"
| "nesting _ = 0"

text \<open>Every bulk payload has at most \<open>b\<close> bytes and every collection at most \<open>a\<close> elements.\<close>

fun within_limits :: "nat \<Rightarrow> nat \<Rightarrow> RespValue \<Rightarrow> bool" where
  "within_limits b a (BulkString (Some s)) \<longleftrightarrow> length s \<le> b"
| "within_limits b a (BulkError s) \<longleftrightarrow> length s \<le> b"
| "within_limits b a (VerbatimString f s) \<longleftrightarrow> length s + 4 \<le> b"
| "within_limits b a (Array (Some xs)) \<longleftrightarrow> length xs \<le> a \<and> (\<forall>x \<in> set xs. within_limits b a x)"
| "within_limits b a (Map ps) \<longleftrightarrow>
     length ps \<le> a \<and> (\<forall>(k, v) \<in> set ps. within_limits b a k \<and> within_limits b a v)"
| "within_limits b a (Set xs) \<longleftrightarrow> length xs \<le> a \<and> (\<forall>x \<in> set xs. within_limits b a x)"
| "within_limits b a (Push xs) \<longleftrightarrow> length xs \<le> a \<and> (\<forall>x \<in> set xs. within_limits b a x)"
| "within_limits b a _ \<longleftrightarrow> True"

text \<open>
  Values whose wire form determines them: a line-based payload holds no CRLF, and a NaN is the
  canonical one (the wire has a single spelling for all of them).
\<close>

fun line_safe :: "RespValue \<Rightarrow> bool" where
  "line_safe (SimpleString s) \<longleftrightarrow> find_crlf s = None"
| "line_safe (Error s) \<longleftrightarrow> find_crlf s = None"
| "line_safe (BigNumber s) \<longleftrightarrow> find_crlf s = None"
| "line_safe (Double d) \<longleftrightarrow> (f64_is_nan d \<longrightarrow> d = f64_NAN)"
| "line_safe (Array (Some xs)) \<longleftrightarrow> (\<forall>x \<in> set xs. line_safe x)"
| "line_safe (Map ps) \<longleftrightarrow> (\<forall>(k, v) \<in> set ps. line_safe k \<and> line_safe v)"
| "line_safe (Set xs) \<longleftrightarrow> (\<forall>x \<in> set xs. line_safe x)"
| "line_safe (Push xs) \<longleftrightarrow> (\<forall>x \<in> set xs. line_safe x)"
| "line_safe _ \<longleftrightarrow> True"

section \<open>Facts about line terminators\<close>

lemma find_crlf_SomeD:
  "find_crlf s = Some n \<Longrightarrow>
     n + 2 \<le> length s \<and> drop n s = CRLF @ drop (n + 2) s \<and> find_crlf (take n s) = None"
proof (induction s arbitrary: n rule: find_crlf.induct)
  case (3 a b s)
  show ?case
  proof (cases "a = CR \<and> b = LF")
    case True
    with "3.prems" show ?thesis by auto
  next
    case False
    with "3.prems" obtain k where k: "find_crlf (b # s) = Some k" "n = Suc k" by auto
    have "find_crlf (take n (a # b # s)) = None"
      using "3.IH" [OF False k(1)] False k(2) by (cases k) auto
    with "3.IH" [OF False k(1)] k(2) show ?thesis by simp
  qed
qed auto

lemma find_crlf_bound: "find_crlf s = Some n \<Longrightarrow> n + 2 \<le> length s"
  using find_crlf_SomeD by blast

lemma find_crlf_line: "find_crlf s = None \<Longrightarrow> find_crlf (s @ CRLF @ t) = Some (length s)"
proof (induction s rule: find_crlf.induct)
  case (2 v)
  then show ?case by simp
qed (auto split: if_splits)

lemma find_crlf_no_CR: "CR \<notin> set s \<Longrightarrow> find_crlf s = None"
  by (induction s rule: find_crlf.induct) auto

lemma find_crlf_no_LF: "LF \<notin> set s \<Longrightarrow> find_crlf s = None"
  by (induction s rule: find_crlf.induct) auto

text \<open>A terminator that straddles two chunks is in neither of them.\<close>

lemma find_crlf_append_None:
  "find_crlf s = None \<Longrightarrow> find_crlf t = None \<Longrightarrow> \<not> (\<exists>u v. s = u @ [CR] \<and> t = LF # v) \<Longrightarrow>
     find_crlf (s @ t) = None"
proof (induction s rule: find_crlf.induct)
  case (2 a)
  then show ?case by (cases t) auto
qed (auto split: if_splits simp: Cons_eq_append_conv)

lemma find_crlf_append_Some:
  "find_crlf s = None \<Longrightarrow> find_crlf t = Some n \<Longrightarrow> \<not> (\<exists>u v. s = u @ [CR] \<and> t = LF # v) \<Longrightarrow>
     find_crlf (s @ t) = Some (length s + n)"
proof (induction s rule: find_crlf.induct)
  case (2 a)
  then show ?case by (cases t) (auto split: if_splits)
qed (auto split: if_splits simp: Cons_eq_append_conv)

section \<open>Facts about nesting\<close>

lemma nesting_elem_le: "x \<in> set xs \<Longrightarrow> nesting x \<le> foldr (max \<circ> nesting) xs 0"
  by (induction xs) auto

lemma nesting_pair_le:
  "(k, v) \<in> set ps \<Longrightarrow> nesting k \<le> foldr (\<lambda>(k, v). max (max (nesting k) (nesting v))) ps 0 \<and>
     nesting v \<le> foldr (\<lambda>(k, v). max (max (nesting k) (nesting v))) ps 0"
  by (induction ps) auto

lemma foldr_nesting_le: "(\<And>x. x \<in> set xs \<Longrightarrow> nesting x \<le> n) \<Longrightarrow> foldr (max \<circ> nesting) xs 0 \<le> n"
  by (induction xs) auto

lemma foldr_nesting_pair_le:
  "(\<And>k v. (k, v) \<in> set ps \<Longrightarrow> nesting k \<le> n \<and> nesting v \<le> n) \<Longrightarrow>
     foldr (\<lambda>(k, v). max (max (nesting k) (nesting v))) ps 0 \<le> n"
proof (induction ps)
  case Nil
  then show ?case by simp
next
  case (Cons p ps)
  obtain k v where p: "p = (k, v)" by fastforce
  have "foldr (\<lambda>(k, v). max (max (nesting k) (nesting v))) ps 0 \<le> n"
    by (rule Cons.IH) (meson Cons.prems list.set_intros(2))
  with p Cons.prems [of k v] show ?case by simp
qed

text \<open>The converters agree with each other: what \<open>is_null\<close> accepts has no content.\<close>

lemma is_null_no_content: "is_null v \<Longrightarrow> as_bytes v = None \<and> as_integer v = None \<and> into_array v = None"
  by (cases v rule: is_null.cases) simp_all

end
