(* ===== verification/Resp_Encoder.thy ===== *)
theory Resp_Encoder
  imports Resp_Types
begin

text \<open>
  The RESP encoder (\<open>crates/resp/src/encoder.rs\<close>). \<open>encode\<close> appends the wire form of a value
  to a buffer; its \<open>Result\<close> is always \<open>Ok\<close>, which is a theorem here (\<open>encode_wire\<close>), with the
  bytes appended given by the buffer-free function \<open>wire\<close>.
\<close>

section \<open>The encoder\<close>

function (sequential) encode :: "RespValue \<Rightarrow> bytes \<Rightarrow> ProtocolError + bytes"
  and encode_elems :: "RespValue list \<Rightarrow> bytes \<Rightarrow> ProtocolError + bytes"
  and encode_pairs :: "(RespValue \<times> RespValue) list \<Rightarrow> bytes \<Rightarrow> ProtocolError + bytes"
where
  "encode (SimpleString s) buf = Inr (buf @ bstr ''+'' @ s @ CRLF)"
| "encode (Error e) buf = Inr (buf @ bstr ''-'' @ e @ CRLF)"
| "encode (Integer i) buf = Inr (buf @ bstr '':'' @ i64_to_string i @ CRLF)"
| "encode (BulkString None) buf = Inr (buf @ bstr ''$-1'' @ CRLF)"
| "encode (BulkString (Some s)) buf =
     Inr (buf @ bstr ''$'' @ dec_string (length s) @ CRLF @ s @ CRLF)"
| "encode (Array None) buf = Inr (buf @ bstr ''*-1'' @ CRLF)"
| "encode (Array (Some arr)) buf =
     encode_elems arr (buf @ bstr ''*'' @ dec_string (length arr) @ CRLF)"
| "encode Null buf = Inr (buf @ bstr ''_'' @ CRLF)"
| "encode (Boolean True) buf = Inr (buf @ bstr ''#t'' @ CRLF)"
| "encode (Boolean False) buf = Inr (buf @ bstr ''#f'' @ CRLF)"
| "encode (Double d) buf =
     Inr (buf @ bstr '','' @
       (if f64_is_infinite d then (if f64_positive d then bstr ''inf'' else bstr ''-inf'')
        else if f64_is_nan d then bstr ''nan''
        else f64_to_string d) @ CRLF)"
| "encode (BigNumber n) buf = Inr (buf @ bstr ''('' @ n @ CRLF)"
| "encode (BulkError e) buf =
     Inr (buf @ bstr ''!'' @ dec_string (length e) @ CRLF @ e @ CRLF)"
| "encode (VerbatimString (f0, f1, f2) data) buf =
     Inr (buf @ bstr ''='' @ dec_string (4 + length data) @ CRLF @ [f0, f1, f2] @ bstr '':'' @ data @ CRLF)"
| "encode (Map pairs) buf =
     encode_pairs pairs (buf @ bstr ''%'' @ dec_string (length pairs) @ CRLF)"
| "encode (Set elements) buf =
     encode_elems elements (buf @ bstr ''~'' @ dec_string (length elements) @ CRLF)"
| "encode (Push elements) buf =
     encode_elems elements (buf @ bstr ''>'' @ dec_string (length elements) @ CRLF)"
| "encode_elems [] buf = Inr buf"
| "encode_elems (elem # rest) buf = res_bind (encode elem buf) (encode_elems rest)"
| "encode_pairs [] buf = Inr buf"
| "encode_pairs ((key, value) # rest) buf =
     res_bind (encode key buf) (\<lambda>buf. res_bind (encode value buf) (encode_pairs rest))"
  by pat_completeness auto
termination
  by (relation "measure (case_sum (size \<circ> fst)
        (case_sum (size_list size \<circ> fst) (size_list (size_prod size size) \<circ> fst)))") auto

definition encode_ok :: "bytes \<Rightarrow> bytes" where
  "encode_ok buf = buf @ bstr ''+OK'' @ CRLF"

definition encode_error :: "bytes \<Rightarrow> bytes \<Rightarrow> bytes" where
  "encode_error msg buf = buf @ bstr ''-'' @ msg @ CRLF"

definition encode_null :: "bytes \<Rightarrow> bytes" where
  "encode_null buf = buf @ bstr ''_'' @ CRLF"

section \<open>The wire form\<close>

text \<open>The payload printed for a double.\<close>

definition double_text :: "f64 \<Rightarrow> bytes" where
  "double_text d =
     (if f64_is_infinite d then (if f64_positive d then bstr ''inf'' else bstr ''-inf'')
      else if f64_is_nan d then bstr ''nan''
      else f64_to_string d)"

definition bulk_frame :: "u8 \<Rightarrow> bytes \<Rightarrow> bytes" where
  "bulk_frame c s = c # dec_string (length s) @ CRLF @ s @ CRLF"

definition header :: "u8 \<Rightarrow> nat \<Rightarrow> bytes" where
  "header c n = c # dec_string n @ CRLF"

fun wire :: "RespValue \<Rightarrow> bytes" where
  "wire (SimpleString s) = 43 # s @ CRLF"
| "wire (Error s) = 45 # s @ CRLF"
| "wire (Integer i) = 58 # i64_to_string i @ CRLF"
| "wire (BulkString None) = [36, 45, 49] @ CRLF"
| "wire (BulkString (Some s)) = bulk_frame 36 s"
| "wire (Array None) = [42, 45, 49] @ CRLF"
| "wire (Array (Some xs)) = header 42 (length xs) @ concat (map wire xs)"
| "wire Null = 95 # CRLF"
| "wire (Boolean b) = [35, if b then 116 else 102] @ CRLF"
| "wire (Double d) = 44 # double_text d @ CRLF"
| "wire (BigNumber s) = 40 # s @ CRLF"
| "wire (BulkError s) = bulk_frame 33 s"
| "wire (VerbatimString (f0, f1, f2) s) = bulk_frame 61 (f0 # f1 # f2 # 58 # s)"
| "wire (Map ps) = header 37 (length ps) @ concat (map (\<lambda>(k, v). wire k @ wire v) ps)"
| "wire (Set xs) = header 126 (length xs) @ concat (map wire xs)"
| "wire (Push xs) = header 62 (length xs) @ concat (map wire xs)"

lemma encode_wire_all:
  "encode v buf = Inr (buf @ wire v)"
  "encode_elems xs buf = Inr (buf @ concat (map wire xs))"
  "encode_pairs ps buf = Inr (buf @ concat (map (\<lambda>(k, v). wire k @ wire v) ps))"
proof (induction v buf and xs buf and ps buf rule: encode_encode_elems_encode_pairs.induct)
qed (simp_all add: byte_simps header_def bulk_frame_def double_text_def numeral_eq_Suc)

lemmas encode_wire = encode_wire_all(1)

lemma wire_nonempty [simp]: "wire v \<noteq> []"
  by (cases v rule: wire.cases) (simp_all add: header_def bulk_frame_def)

text \<open>The first byte of a frame is its type marker.\<close>

fun marker :: "RespValue \<Rightarrow> u8" where
  "marker (SimpleString _) = 43"
| "marker (Error _) = 45"
| "marker (Integer _) = 58"
| "marker (BulkString _) = 36"
| "marker (Array _) = 42"
| "marker Null = 95"
| "marker (Boolean _) = 35"
| "marker (Double _) = 44"
| "marker (BigNumber _) = 40"
| "marker (BulkError _) = 33"
| "marker (VerbatimString _ _) = 61"
| "marker (Map _) = 37"
| "marker (Set _) = 126"
| "marker (Push _) = 62"

lemma hd_wire: "hd (wire v) = marker v"
  by (cases v rule: wire.cases) (simp_all add: header_def bulk_frame_def)

end
