(* ===== verification/Resp_Parser.thy ===== *)
theory Resp_Parser
  imports Resp_Types
begin

text \<open>
  The streaming RESP parser (\<open>crates/resp/src/parser.rs\<close>): the parser's state machine, one
  definition per state of the \<open>match\<close> inside \<open>parse\<close>'s loop, and the loop itself with its
  recursive call for the elements of a collection. The parser's fields are a record; the
  buffer is passed in and the unconsumed rest is returned.

  A collection state clears the state, calls \<open>parse\<close> on the same parser, and goes on with the
  element: \<open>Descend\<close> is the part before that call and \<open>resume\<close> the part after it. Every
  \<open>usize\<close> subtraction that can underflow has a \<open>Panic\<close> branch (it panics in a debug build; in
  a release build it wraps and the slice that follows panics), and so has \<open>Vec::with_capacity\<close>
  when the header's length is more than a vector can hold.

  \<open>parse\<close> is total: the termination proof shows that every iteration of the loop consumes
  input or returns, and that a nested call that yields an element consumed input.
\<close>

section \<open>State\<close>

datatype ParseState =
    WaitingForType
  | SimpleString_st bytes
  | Error_st bytes
  | Integer_st bytes
  | BulkStringLen bytes
  | BulkStringData usize bytes
  | ArrayLen bytes
  | ArrayData usize "RespValue list"
  | Double_st bytes
  | BigNumber_st bytes
  | BulkErrorLen bytes
  | BulkErrorData usize bytes
  | VerbatimStringLen bytes
  | VerbatimStringData usize bytes
  | MapLen bytes
  | MapData usize "(RespValue \<times> RespValue) list" "RespValue option"
  | SetLen bytes
  | SetData usize "RespValue list"
  | PushLen bytes
  | PushData usize "RespValue list"

record RespParser =
  state :: ParseState
  max_bulk_size :: usize
  max_array_len :: usize
  max_depth :: usize
  current_depth :: usize

definition new_parser :: RespParser where
  "new_parser =
     \<lparr>state = WaitingForType, max_bulk_size = 512 * 1024 * 1024, max_array_len = 1000000,
      max_depth = 32, current_depth = 0\<rparr>"

definition with_max_bulk_size :: "RespParser \<Rightarrow> usize \<Rightarrow> RespParser" where
  "with_max_bulk_size p sz = p\<lparr>max_bulk_size := sz\<rparr>"

definition with_max_array_len :: "RespParser \<Rightarrow> usize \<Rightarrow> RespParser" where
  "with_max_array_len p len = p\<lparr>max_array_len := len\<rparr>"

definition with_max_depth :: "RespParser \<Rightarrow> usize \<Rightarrow> RespParser" where
  "with_max_depth p depth = p\<lparr>max_depth := depth\<rparr>"

section \<open>Outcomes of a call and of a loop iteration\<close>

datatype parse_result = Ok "RespValue option" | Err ProtocolError | Panic

datatype iter = Return parse_result RespParser bytes | Continue RespParser bytes

datatype frame =
    ArrayFrame usize "RespValue list"
  | MapFrame usize "(RespValue \<times> RespValue) list" "RespValue option"
  | SetFrame usize "RespValue list"
  | PushFrame usize "RespValue list"

datatype step = Iter iter | Descend frame RespParser

abbreviation goto :: "RespParser \<Rightarrow> ParseState \<Rightarrow> RespParser" where
  "goto p s \<equiv> p\<lparr>state := s\<rparr>"

section \<open>Waiting for a type marker\<close>

definition parse_type :: "RespParser \<Rightarrow> bytes \<Rightarrow> iter" where
  "parse_type p buf =
     (case buf of
        [] \<Rightarrow> Return (Ok None) p buf
      | type_byte # buf \<Rightarrow>
          if type_byte = 43 then Continue (goto p (SimpleString_st [])) buf
          else if type_byte = 45 then Continue (goto p (Error_st [])) buf
          else if type_byte = 58 then Continue (goto p (Integer_st [])) buf
          else if type_byte = 36 then Continue (goto p (BulkStringLen [])) buf
          else if type_byte = 42 then Continue (goto p (ArrayLen [])) buf
          else if type_byte = 95 then
            (if length buf < 2 then Return (Ok None) p buf
             else if take 2 buf \<noteq> CRLF then Return (Err InvalidLength) p buf
             else Return (Ok (Some Null)) (goto p WaitingForType) (drop 2 buf))
          else if type_byte = 35 then
            (if length buf < 3 then Return (Ok None) p buf
             else if take 2 (drop 1 buf) \<noteq> CRLF then Return (Err InvalidLength) p buf
             else Return (Ok (Some (Boolean (hd buf = 116)))) (goto p WaitingForType) (drop 3 buf))
          else if type_byte = 44 then Continue (goto p (Double_st [])) buf
          else if type_byte = 40 then Continue (goto p (BigNumber_st [])) buf
          else if type_byte = 33 then Continue (goto p (BulkErrorLen [])) buf
          else if type_byte = 61 then Continue (goto p (VerbatimStringLen [])) buf
          else if type_byte = 37 then Continue (goto p (MapLen [])) buf
          else if type_byte = 126 then Continue (goto p (SetLen [])) buf
          else if type_byte = 62 then Continue (goto p (PushLen [])) buf
          else Return (Err (InvalidTypeMarker type_byte)) p buf)"

section \<open>Line-based states\<close>

text \<open>
  With a terminator in the buffer: the accumulated line, and the buffer after the terminator.
\<close>

definition take_line :: "bytes \<Rightarrow> bytes \<Rightarrow> (bytes \<times> bytes) option" where
  "take_line data buf =
     (case find_crlf buf of
        None \<Rightarrow> None
      | Some pos \<Rightarrow> Some (data @ take pos buf, drop (pos + 2) buf))"

definition parse_simple_string :: "RespParser \<Rightarrow> bytes \<Rightarrow> bytes \<Rightarrow> iter" where
  "parse_simple_string p data buf =
     (case take_line data buf of
        Some (data, buf) \<Rightarrow> Return (Ok (Some (SimpleString data))) (goto p WaitingForType) buf
      | None \<Rightarrow> Return (Ok None) (goto p (SimpleString_st (data @ buf))) [])"

definition parse_error :: "RespParser \<Rightarrow> bytes \<Rightarrow> bytes \<Rightarrow> iter" where
  "parse_error p data buf =
     (case take_line data buf of
        Some (data, buf) \<Rightarrow> Return (Ok (Some (Error data))) (goto p WaitingForType) buf
      | None \<Rightarrow> Return (Ok None) (goto p (Error_st (data @ buf))) [])"

text \<open>\<open>from_utf8\<close> followed by \<open>parse::<i64>\<close>; both errors become \<open>InvalidLength\<close>.\<close>

definition line_i64 :: "bytes \<Rightarrow> i64 option" where
  "line_i64 s = (if from_utf8_ok s then i64_from_str s else None)"

definition parse_integer :: "RespParser \<Rightarrow> bytes \<Rightarrow> bytes \<Rightarrow> iter" where
  "parse_integer p data buf =
     (case take_line data buf of
        Some (data, buf) \<Rightarrow>
          (case line_i64 data of
             None \<Rightarrow> Return (Err InvalidLength) (goto p (Integer_st data)) buf
           | Some v \<Rightarrow> Return (Ok (Some (Integer v))) (goto p WaitingForType) buf)
      | None \<Rightarrow> Return (Ok None) (goto p (Integer_st (data @ buf))) [])"

text \<open>The special spellings first, then \<open>parse::<f64>\<close>.\<close>

definition line_f64 :: "bytes \<Rightarrow> f64 option" where
  "line_f64 s =
     (if \<not> from_utf8_ok s then None
      else if s = bstr ''inf'' then Some f64_INFINITY
      else if s = bstr ''-inf'' then Some f64_NEG_INFINITY
      else if s = bstr ''nan'' then Some f64_NAN
      else f64_from_str s)"

definition parse_double :: "RespParser \<Rightarrow> bytes \<Rightarrow> bytes \<Rightarrow> iter" where
  "parse_double p data buf =
     (case take_line data buf of
        Some (data, buf) \<Rightarrow>
          (case line_f64 data of
             None \<Rightarrow> Return (Err InvalidLength) (goto p (Double_st data)) buf
           | Some v \<Rightarrow> Return (Ok (Some (Double v))) (goto p WaitingForType) buf)
      | None \<Rightarrow> Return (Ok None) (goto p (Double_st (data @ buf))) [])"

definition parse_big_number :: "RespParser \<Rightarrow> bytes \<Rightarrow> bytes \<Rightarrow> iter" where
  "parse_big_number p data buf =
     (case take_line data buf of
        Some (data, buf) \<Rightarrow> Return (Ok (Some (BigNumber data))) (goto p WaitingForType) buf
      | None \<Rightarrow> Return (Ok None) (goto p (BigNumber_st (data @ buf))) [])"

section \<open>Length lines\<close>

text \<open>The line that carries a length: still incomplete, not a number, or a number.\<close>

datatype length_line = LenMore bytes | LenBad bytes bytes | LenGot bytes i64 bytes

definition read_length :: "bytes \<Rightarrow> bytes \<Rightarrow> length_line" where
  "read_length len_bytes buf =
     (case take_line len_bytes buf of
        None \<Rightarrow> LenMore (len_bytes @ buf)
      | Some (line, rest) \<Rightarrow>
          (case line_i64 line of None \<Rightarrow> LenBad line rest | Some len \<Rightarrow> LenGot line len rest))"

definition parse_bulk_string_len :: "RespParser \<Rightarrow> bytes \<Rightarrow> bytes \<Rightarrow> iter" where
  "parse_bulk_string_len p len_bytes buf =
     (case read_length len_bytes buf of
        LenMore acc \<Rightarrow> Return (Ok None) (goto p (BulkStringLen acc)) []
      | LenBad line buf \<Rightarrow> Return (Err InvalidLength) (goto p (BulkStringLen line)) buf
      | LenGot line len buf \<Rightarrow>
          (let p = goto p (BulkStringLen line) in
           if len = - 1 then Return (Ok (Some (BulkString None))) (goto p WaitingForType) buf
           else if sint len < 0 then Return (Err InvalidLength) p buf
           else let len = unat len in
           if max_bulk_size p < len
           then Return (Err (BulkStringTooLarge len (max_bulk_size p))) p buf
           else if len = 0 then
             (if length buf < 2 then Return (Ok None) (goto p (BulkStringData 0 [])) buf
              else if take 2 buf \<noteq> CRLF then Return (Err InvalidLength) p buf
              else Return (Ok (Some (BulkString (Some [])))) (goto p WaitingForType) (drop 2 buf))
           else Continue (goto p (BulkStringData len [])) buf))"

definition parse_bulk_error_len :: "RespParser \<Rightarrow> bytes \<Rightarrow> bytes \<Rightarrow> iter" where
  "parse_bulk_error_len p len_bytes buf =
     (case read_length len_bytes buf of
        LenMore acc \<Rightarrow> Return (Ok None) (goto p (BulkErrorLen acc)) []
      | LenBad line buf \<Rightarrow> Return (Err InvalidLength) (goto p (BulkErrorLen line)) buf
      | LenGot line len buf \<Rightarrow>
          (let p = goto p (BulkErrorLen line) in
           if len = - 1 then Return (Ok (Some Null)) (goto p WaitingForType) buf
           else if sint len < 0 then Return (Err InvalidLength) p buf
           else let len = unat len in
           if max_bulk_size p < len
           then Return (Err (BulkStringTooLarge len (max_bulk_size p))) p buf
           else if len = 0 then
             (if length buf < 2 then Return (Ok None) (goto p (BulkErrorData 0 [])) buf
              else if take 2 buf \<noteq> CRLF then Return (Err InvalidLength) p buf
              else Return (Ok (Some (BulkError []))) (goto p WaitingForType) (drop 2 buf))
           else Continue (goto p (BulkErrorData len [])) buf))"

definition parse_verbatim_string_len :: "RespParser \<Rightarrow> bytes \<Rightarrow> bytes \<Rightarrow> iter" where
  "parse_verbatim_string_len p len_bytes buf =
     (case read_length len_bytes buf of
        LenMore acc \<Rightarrow> Return (Ok None) (goto p (VerbatimStringLen acc)) []
      | LenBad line buf \<Rightarrow> Return (Err InvalidLength) (goto p (VerbatimStringLen line)) buf
      | LenGot line len buf \<Rightarrow>
          (let p = goto p (VerbatimStringLen line) in
           if len = - 1 then Return (Ok (Some Null)) (goto p WaitingForType) buf
           else if sint len < 0 then Return (Err InvalidLength) p buf
           else let len = unat len in
           if max_bulk_size p < len
           then Return (Err (BulkStringTooLarge len (max_bulk_size p))) p buf
           else if len < 4 then Return (Err InvalidLength) p buf
           else Continue (goto p (VerbatimStringData len [])) buf))"

section \<open>Bulk payloads\<close>

text \<open>The payload and its terminator, from what is accumulated and what is in the buffer.\<close>

datatype payload = BulkPanic | BulkMore bytes | BulkBad bytes | BulkDone bytes bytes

definition read_payload :: "usize \<Rightarrow> bytes \<Rightarrow> bytes \<Rightarrow> payload" where
  "read_payload len data buf =
     (if len + 2 < length data then BulkPanic
      else let needed = len + 2 - length data in
      if length buf < needed then BulkMore (data @ buf)
      else if len < length data then BulkPanic
      else let data_needed = len - length data;
               data = data @ take data_needed buf in
      if take 2 (drop data_needed buf) \<noteq> CRLF then BulkBad data
      else BulkDone data (drop (data_needed + 2) buf))"

definition parse_bulk_string_data :: "RespParser \<Rightarrow> usize \<Rightarrow> bytes \<Rightarrow> bytes \<Rightarrow> iter" where
  "parse_bulk_string_data p len data buf =
     (case read_payload len data buf of
        BulkPanic \<Rightarrow> Return Panic p buf
      | BulkMore acc \<Rightarrow> Return (Ok None) (goto p (BulkStringData len acc)) []
      | BulkBad acc \<Rightarrow> Return (Err InvalidLength) (goto p (BulkStringData len acc)) buf
      | BulkDone data buf \<Rightarrow>
          Return (Ok (Some (BulkString (Some data)))) (goto p WaitingForType) buf)"

definition parse_bulk_error_data :: "RespParser \<Rightarrow> usize \<Rightarrow> bytes \<Rightarrow> bytes \<Rightarrow> iter" where
  "parse_bulk_error_data p len data buf =
     (case read_payload len data buf of
        BulkPanic \<Rightarrow> Return Panic p buf
      | BulkMore acc \<Rightarrow> Return (Ok None) (goto p (BulkErrorData len acc)) []
      | BulkBad acc \<Rightarrow> Return (Err InvalidLength) (goto p (BulkErrorData len acc)) buf
      | BulkDone data buf \<Rightarrow> Return (Ok (Some (BulkError data))) (goto p WaitingForType) buf)"

definition parse_verbatim_string_data :: "RespParser \<Rightarrow> usize \<Rightarrow> bytes \<Rightarrow> bytes \<Rightarrow> iter" where
  "parse_verbatim_string_data p len data buf =
     (case read_payload len data buf of
        BulkPanic \<Rightarrow> Return Panic p buf
      | BulkMore acc \<Rightarrow> Return (Ok None) (goto p (VerbatimStringData len acc)) []
      | BulkBad acc \<Rightarrow> Return (Err InvalidLength) (goto p (VerbatimStringData len acc)) buf
      | BulkDone data buf \<Rightarrow>
          (if length data < 4 \<or> data ! 3 \<noteq> 58
           then Return (Err InvalidLength) (goto p (VerbatimStringData len data)) buf
           else Return (Ok (Some (VerbatimString (data ! 0, data ! 1, data ! 2) (drop 4 data))))
                  (goto p WaitingForType) buf))"

section \<open>Collection headers\<close>

text \<open>
  \<open>Vec::with_capacity\<close> panics when the capacity in bytes exceeds \<open>isize::MAX\<close>. A \<open>RespValue\<close> takes 40
  bytes on a 64-bit target: the largest variant holds a \<open>Bytes\<close>, which is four words, and \<open>[u8; 3]\<close>, next
  to the tag. Running out of memory below that bound aborts the process and is not modelled.
\<close>

definition size_of_RespValue :: nat where
  "size_of_RespValue = 40"

definition max_capacity :: "nat \<Rightarrow> usize" where
  "max_capacity size_of_elem = (2 ^ 63 - 1) div size_of_elem"

abbreviation value_capacity :: usize where
  "value_capacity \<equiv> max_capacity size_of_RespValue"

abbreviation pair_capacity :: usize where
  "pair_capacity \<equiv> max_capacity (2 * size_of_RespValue)"

text \<open>
  The part the four collection headers share: the size limit, the empty collection, the nesting
  limit (a refused level leaves the depth as it was), and the vector for the elements, of which
  \<open>capacity\<close> fit. The panic leaves the depth counted up and the state as it was.
\<close>

definition open_collection ::
    "RespParser \<Rightarrow> usize \<Rightarrow> usize \<Rightarrow> RespValue \<Rightarrow> ParseState \<Rightarrow> bytes \<Rightarrow> iter" where
  "open_collection p capacity len empty_value data_state buf =
     (if max_array_len p < len then Return (Err (ArrayTooLarge len (max_array_len p))) p buf
      else if len = 0 then Return (Ok (Some empty_value)) (goto p WaitingForType) buf
      else if max_depth p < current_depth p + 1 then Return (Err NestingTooDeep) p buf
      else if capacity < len then Return Panic (p\<lparr>current_depth := current_depth p + 1\<rparr>) buf
      else Continue (p\<lparr>current_depth := current_depth p + 1, state := data_state\<rparr>) buf)"

definition parse_array_len :: "RespParser \<Rightarrow> bytes \<Rightarrow> bytes \<Rightarrow> iter" where
  "parse_array_len p len_bytes buf =
     (case read_length len_bytes buf of
        LenMore acc \<Rightarrow> Return (Ok None) (goto p (ArrayLen acc)) []
      | LenBad line buf \<Rightarrow> Return (Err InvalidLength) (goto p (ArrayLen line)) buf
      | LenGot line len buf \<Rightarrow>
          (let p = goto p (ArrayLen line) in
           if len = - 1 then Return (Ok (Some (Array None))) (goto p WaitingForType) buf
           else if sint len < 0 then Return (Err InvalidLength) p buf
           else open_collection p value_capacity (unat len) (Array (Some [])) (ArrayData (unat len) []) buf))"

definition parse_map_len :: "RespParser \<Rightarrow> bytes \<Rightarrow> bytes \<Rightarrow> iter" where
  "parse_map_len p len_bytes buf =
     (case read_length len_bytes buf of
        LenMore acc \<Rightarrow> Return (Ok None) (goto p (MapLen acc)) []
      | LenBad line buf \<Rightarrow> Return (Err InvalidLength) (goto p (MapLen line)) buf
      | LenGot line len buf \<Rightarrow>
          (let p = goto p (MapLen line) in
           if len = - 1 then Return (Ok (Some Null)) (goto p WaitingForType) buf
           else if sint len < 0 then Return (Err InvalidLength) p buf
           else open_collection p pair_capacity (unat len) (Map []) (MapData (unat len) [] None) buf))"

definition parse_set_len :: "RespParser \<Rightarrow> bytes \<Rightarrow> bytes \<Rightarrow> iter" where
  "parse_set_len p len_bytes buf =
     (case read_length len_bytes buf of
        LenMore acc \<Rightarrow> Return (Ok None) (goto p (SetLen acc)) []
      | LenBad line buf \<Rightarrow> Return (Err InvalidLength) (goto p (SetLen line)) buf
      | LenGot line len buf \<Rightarrow>
          (let p = goto p (SetLen line) in
           if len = - 1 then Return (Ok (Some Null)) (goto p WaitingForType) buf
           else if sint len < 0 then Return (Err InvalidLength) p buf
           else open_collection p value_capacity (unat len) (Set []) (SetData (unat len) []) buf))"

text \<open>A push has no null form, so \<open>-1\<close> is an error like every negative length.\<close>

definition parse_push_len :: "RespParser \<Rightarrow> bytes \<Rightarrow> bytes \<Rightarrow> iter" where
  "parse_push_len p len_bytes buf =
     (case read_length len_bytes buf of
        LenMore acc \<Rightarrow> Return (Ok None) (goto p (PushLen acc)) []
      | LenBad line buf \<Rightarrow> Return (Err InvalidLength) (goto p (PushLen line)) buf
      | LenGot line len buf \<Rightarrow>
          (let p = goto p (PushLen line) in
           if sint len < 0 then Return (Err InvalidLength) p buf
           else open_collection p value_capacity (unat len) (Push []) (PushData (unat len) []) buf))"

section \<open>Collection elements\<close>

text \<open>\<open>self.current_depth -= 1\<close>, then return a finished collection.\<close>

definition close_collection :: "RespParser \<Rightarrow> RespValue \<Rightarrow> bytes \<Rightarrow> iter" where
  "close_collection p v buf =
     (if current_depth p = 0 then Return Panic p buf
      else Return (Ok (Some v)) (p\<lparr>current_depth := current_depth p - 1\<rparr>) buf)"

text \<open>Before the recursive call: done, or clear the state and parse an element.\<close>

definition parse_array_data :: "RespParser \<Rightarrow> usize \<Rightarrow> RespValue list \<Rightarrow> bytes \<Rightarrow> step" where
  "parse_array_data p remaining elements buf =
     (if remaining = 0
      then Iter (close_collection (goto p WaitingForType) (Array (Some elements)) buf)
      else Descend (ArrayFrame remaining elements) (goto p WaitingForType))"

definition parse_map_data ::
    "RespParser \<Rightarrow> usize \<Rightarrow> (RespValue \<times> RespValue) list \<Rightarrow> RespValue option \<Rightarrow> bytes \<Rightarrow> step"
where
  "parse_map_data p remaining pairs current_key buf =
     (if remaining = 0 then Iter (close_collection (goto p WaitingForType) (Map pairs) buf)
      else Descend (MapFrame remaining pairs current_key) (goto p WaitingForType))"

definition parse_set_data :: "RespParser \<Rightarrow> usize \<Rightarrow> RespValue list \<Rightarrow> bytes \<Rightarrow> step" where
  "parse_set_data p remaining elements buf =
     (if remaining = 0 then Iter (close_collection (goto p WaitingForType) (Set elements) buf)
      else Descend (SetFrame remaining elements) (goto p WaitingForType))"

definition parse_push_data :: "RespParser \<Rightarrow> usize \<Rightarrow> RespValue list \<Rightarrow> bytes \<Rightarrow> step" where
  "parse_push_data p remaining elements buf =
     (if remaining = 0 then Iter (close_collection (goto p WaitingForType) (Push elements) buf)
      else Descend (PushFrame remaining elements) (goto p WaitingForType))"

text \<open>After the recursive call returned \<open>Ok\<close>: the element is added, or the state restored.\<close>

fun array_element ::
    "usize \<Rightarrow> RespValue list \<Rightarrow> RespValue option \<Rightarrow> RespParser \<Rightarrow> bytes \<Rightarrow> iter" where
  "array_element rem elems (Some element) p buf =
     (let elems = elems @ [element]; new_remaining = rem - 1 in
      if new_remaining = 0 then close_collection p (Array (Some elems)) buf
      else Continue (goto p (ArrayData new_remaining elems)) buf)"
| "array_element rem elems None p buf = Return (Ok None) (goto p (ArrayData rem elems)) buf"

fun map_element ::
    "usize \<Rightarrow> (RespValue \<times> RespValue) list \<Rightarrow> RespValue option \<Rightarrow> RespValue option \<Rightarrow>
     RespParser \<Rightarrow> bytes \<Rightarrow> iter" where
  "map_element rem pairs (Some key) (Some element) p buf =
     (let pairs = pairs @ [(key, element)]; new_remaining = rem - 1 in
      if new_remaining = 0 then close_collection p (Map pairs) buf
      else Continue (goto p (MapData new_remaining pairs None)) buf)"
| "map_element rem pairs None (Some element) p buf =
     Continue (goto p (MapData rem pairs (Some element))) buf"
| "map_element rem pairs key_opt None p buf =
     Return (Ok None) (goto p (MapData rem pairs key_opt)) buf"

fun set_element ::
    "usize \<Rightarrow> RespValue list \<Rightarrow> RespValue option \<Rightarrow> RespParser \<Rightarrow> bytes \<Rightarrow> iter" where
  "set_element rem elems (Some element) p buf =
     (let elems = elems @ [element]; new_remaining = rem - 1 in
      if new_remaining = 0 then close_collection p (Set elems) buf
      else Continue (goto p (SetData new_remaining elems)) buf)"
| "set_element rem elems None p buf = Return (Ok None) (goto p (SetData rem elems)) buf"

fun push_element ::
    "usize \<Rightarrow> RespValue list \<Rightarrow> RespValue option \<Rightarrow> RespParser \<Rightarrow> bytes \<Rightarrow> iter" where
  "push_element rem elems (Some element) p buf =
     (let elems = elems @ [element]; new_remaining = rem - 1 in
      if new_remaining = 0 then close_collection p (Push elems) buf
      else Continue (goto p (PushData new_remaining elems)) buf)"
| "push_element rem elems None p buf = Return (Ok None) (goto p (PushData rem elems)) buf"

text \<open>The \<open>?\<close> on the recursive call, and the frame that made it.\<close>

fun resume :: "frame \<Rightarrow> parse_result \<Rightarrow> RespParser \<Rightarrow> bytes \<Rightarrow> iter" where
  "resume fr Panic p buf = Return Panic p buf"
| "resume fr (Err e) p buf = Return (Err e) p buf"
| "resume (ArrayFrame rem elems) (Ok r) p buf = array_element rem elems r p buf"
| "resume (MapFrame rem pairs key_opt) (Ok r) p buf = map_element rem pairs key_opt r p buf"
| "resume (SetFrame rem elems) (Ok r) p buf = set_element rem elems r p buf"
| "resume (PushFrame rem elems) (Ok r) p buf = push_element rem elems r p buf"

section \<open>The loop\<close>

fun step_state :: "ParseState \<Rightarrow> RespParser \<Rightarrow> bytes \<Rightarrow> step" where
  "step_state WaitingForType p buf = Iter (parse_type p buf)"
| "step_state (SimpleString_st data) p buf = Iter (parse_simple_string p data buf)"
| "step_state (Error_st data) p buf = Iter (parse_error p data buf)"
| "step_state (Integer_st data) p buf = Iter (parse_integer p data buf)"
| "step_state (BulkStringLen len_bytes) p buf = Iter (parse_bulk_string_len p len_bytes buf)"
| "step_state (BulkStringData len data) p buf = Iter (parse_bulk_string_data p len data buf)"
| "step_state (ArrayLen len_bytes) p buf = Iter (parse_array_len p len_bytes buf)"
| "step_state (ArrayData rem elems) p buf = parse_array_data p rem elems buf"
| "step_state (Double_st data) p buf = Iter (parse_double p data buf)"
| "step_state (BigNumber_st data) p buf = Iter (parse_big_number p data buf)"
| "step_state (BulkErrorLen len_bytes) p buf = Iter (parse_bulk_error_len p len_bytes buf)"
| "step_state (BulkErrorData len data) p buf = Iter (parse_bulk_error_data p len data buf)"
| "step_state (VerbatimStringLen len_bytes) p buf = Iter (parse_verbatim_string_len p len_bytes buf)"
| "step_state (VerbatimStringData len data) p buf = Iter (parse_verbatim_string_data p len data buf)"
| "step_state (MapLen len_bytes) p buf = Iter (parse_map_len p len_bytes buf)"
| "step_state (MapData rem pairs key) p buf = parse_map_data p rem pairs key buf"
| "step_state (SetLen len_bytes) p buf = Iter (parse_set_len p len_bytes buf)"
| "step_state (SetData rem elems) p buf = parse_set_data p rem elems buf"
| "step_state (PushLen len_bytes) p buf = Iter (parse_push_len p len_bytes buf)"
| "step_state (PushData rem elems) p buf = parse_push_data p rem elems buf"

function (domintros) parse :: "RespParser \<Rightarrow> bytes \<Rightarrow> parse_result \<times> RespParser \<times> bytes" where
  "parse p buf =
     (case step_state (state p) p buf of
        Iter (Return r p' buf') \<Rightarrow> (r, p', buf')
      | Iter (Continue p' buf') \<Rightarrow> parse p' buf'
      | Descend fr p' \<Rightarrow>
          (case parse p' buf of
             (r, p'', buf'') \<Rightarrow>
               (case resume fr r p'' buf'' of
                  Return r p3 buf3 \<Rightarrow> (r, p3, buf3)
                | Continue p3 buf3 \<Rightarrow> parse p3 buf3)))"
  by pat_completeness auto

section \<open>Termination\<close>

lemma take_line_shorter: "take_line data buf = Some (line, rest) \<Longrightarrow> length rest + 2 \<le> length buf"
  by (auto simp: take_line_def dest: find_crlf_bound split: option.splits)

lemma read_length_shorter: "read_length l buf = LenGot line n rest \<Longrightarrow> length rest + 2 \<le> length buf"
  by (auto simp: read_length_def dest: take_line_shorter split: option.splits)

lemma read_length_bad_shorter: "read_length l buf = LenBad line rest \<Longrightarrow> length rest + 2 \<le> length buf"
  by (auto simp: read_length_def dest: take_line_shorter split: option.splits)

lemma read_payload_shorter: "read_payload len data buf = BulkDone d rest \<Longrightarrow> length rest < length buf"
  by (auto simp: read_payload_def Let_def split: if_splits)

lemmas line_defs = parse_simple_string_def parse_error_def parse_integer_def parse_double_def
  parse_big_number_def

lemmas bulk_len_defs = parse_bulk_string_len_def parse_bulk_error_len_def
  parse_verbatim_string_len_def

lemmas bulk_data_defs = parse_bulk_string_data_def parse_bulk_error_data_def
  parse_verbatim_string_data_def

lemmas coll_len_defs = parse_array_len_def parse_map_len_def parse_set_len_def parse_push_len_def
  open_collection_def

lemmas coll_data_defs = parse_array_data_def parse_map_data_def parse_set_data_def
  parse_push_data_def close_collection_def

lemmas handler_splits = if_splits option.splits length_line.splits payload.splits

lemma capacity_bounds: "pair_capacity \<le> value_capacity" "value_capacity < 2 ^ 63"
  by (simp_all add: max_capacity_def size_of_RespValue_def)

text \<open>What one iteration does to the length of the buffer.\<close>

fun shrinks :: "nat \<Rightarrow> iter \<Rightarrow> bool" where
  "shrinks n (Continue p buf) \<longleftrightarrow> length buf < n"
| "shrinks n (Return (Ok (Some v)) p buf) \<longleftrightarrow> length buf < n"
| "shrinks n (Return r p buf) \<longleftrightarrow> length buf \<le> n"

lemma shrinks_parse_type: "shrinks (length buf) (parse_type p buf)"
  by (cases buf) (auto simp: parse_type_def)

lemma shrinks_lines:
  "shrinks (length buf) (parse_simple_string p data buf)"
  "shrinks (length buf) (parse_error p data buf)"
  "shrinks (length buf) (parse_integer p data buf)"
  "shrinks (length buf) (parse_double p data buf)"
  "shrinks (length buf) (parse_big_number p data buf)"
  by (auto simp: line_defs dest!: take_line_shorter split: option.split prod.split)

lemma shrinks_open_collection:
  "length buf < n \<Longrightarrow> shrinks n (open_collection p capacity len v s buf)"
  by (simp add: open_collection_def)

lemma shrinks_bulk_len:
  "shrinks (length buf) (parse_bulk_string_len p l buf)"
  "shrinks (length buf) (parse_bulk_error_len p l buf)"
  "shrinks (length buf) (parse_verbatim_string_len p l buf)"
  by (auto simp: bulk_len_defs Let_def dest!: read_length_shorter read_length_bad_shorter
      split: length_line.split)

lemma shrinks_coll_len:
  "shrinks (length buf) (parse_array_len p l buf)"
  "shrinks (length buf) (parse_map_len p l buf)"
  "shrinks (length buf) (parse_set_len p l buf)"
  "shrinks (length buf) (parse_push_len p l buf)"
  by (auto simp: parse_array_len_def parse_map_len_def parse_set_len_def parse_push_len_def Let_def
      dest!: read_length_shorter read_length_bad_shorter intro!: shrinks_open_collection
      split: length_line.split)

lemma shrinks_bulk_data:
  "shrinks (length buf) (parse_bulk_string_data p len data buf)"
  "shrinks (length buf) (parse_bulk_error_data p len data buf)"
  "shrinks (length buf) (parse_verbatim_string_data p len data buf)"
  by (auto simp: bulk_data_defs dest!: read_payload_shorter split: payload.split)

text \<open>The collection states, where an iteration may leave the buffer alone.\<close>

fun in_collection :: "ParseState \<Rightarrow> bool" where
  "in_collection (ArrayData _ _) = True"
| "in_collection (MapData _ _ _) = True"
| "in_collection (SetData _ _) = True"
| "in_collection (PushData _ _) = True"
| "in_collection _ = False"

lemma step_shrinks:
  "step_state s p buf = Iter it \<Longrightarrow> \<not> in_collection s \<Longrightarrow> shrinks (length buf) it"
  by (cases s) (auto simp: shrinks_parse_type shrinks_lines shrinks_bulk_len shrinks_coll_len
      shrinks_bulk_data)

lemma step_collection_Iter:
  "step_state s p buf = Iter it \<Longrightarrow> in_collection s \<Longrightarrow> \<exists>r p'. it = Return r p' buf"
  by (cases s) (auto simp: coll_data_defs split: if_splits)

lemma step_Descend:
  "step_state s p buf = Descend fr p' \<Longrightarrow> in_collection s \<and> p' = goto p WaitingForType"
  by (cases s) (auto simp: coll_data_defs split: if_splits)

text \<open>
  After a nested call the buffer is kept, and the loop goes on or a value is returned only
  when the call yielded an element.
\<close>

definition keeps :: "bytes \<Rightarrow> parse_result \<Rightarrow> iter \<Rightarrow> bool" where
  "keeps buf r it \<longleftrightarrow>
     (case it of
        Return r' p' buf' \<Rightarrow> buf' = buf \<and> ((\<exists>v. r' = Ok (Some v)) \<longrightarrow> (\<exists>v. r = Ok (Some v)))
      | Continue p' buf' \<Rightarrow> buf' = buf \<and> (\<exists>v. r = Ok (Some v)))"

lemma keeps_close: "keeps buf (Ok (Some x)) (close_collection p v buf)"
  by (simp add: keeps_def close_collection_def)

lemma keeps_elements:
  "keeps buf (Ok r) (array_element rem elems r p buf)"
  "keeps buf (Ok r) (set_element rem elems r p buf)"
  "keeps buf (Ok r) (push_element rem elems r p buf)"
  by (cases r; simp add: Let_def keeps_close; simp add: keeps_def)+

lemma keeps_map_element: "keeps buf (Ok r) (map_element rem pairs key r p buf)"
  by (cases r; cases key; simp add: Let_def keeps_close; simp add: keeps_def)

lemma keeps_resume: "keeps buf r (resume fr r p buf)"
  by (cases r; cases fr; simp add: keeps_elements keeps_map_element; simp add: keeps_def)

lemma resume_Return: "resume fr r p buf = Return r' p' buf' \<Longrightarrow> buf' = buf"
  using keeps_resume [of buf r fr p] by (simp add: keeps_def)

lemma resume_Continue: "resume fr r p buf = Continue p' buf' \<Longrightarrow> buf' = buf \<and> (\<exists>v. r = Ok (Some v))"
  using keeps_resume [of buf r fr p] by (simp add: keeps_def)

lemma resume_Some: "resume fr r p buf = Return (Ok (Some v)) p' buf' \<Longrightarrow> \<exists>v. r = Ok (Some v)"
  using keeps_resume [of buf r fr p] by (simp add: keeps_def)

text \<open>
  A call never grows the buffer, and one that starts between frames and yields a value has
  consumed input. Proved on the function's domain first: the termination proof needs it.
\<close>

lemma parse_dom_shorter:
  "parse_dom (p, buf) \<Longrightarrow> parse p buf = (r, p', buf') \<Longrightarrow>
     length buf' \<le> length buf \<and>
     (\<not> in_collection (state p) \<longrightarrow> (\<exists>v. r = Ok (Some v)) \<longrightarrow> length buf' < length buf)"
proof (induction p buf arbitrary: r p' buf' rule: parse.pinduct)
  case (1 p buf)
  show ?case
  proof (cases "step_state (state p) p buf")
    case (Iter it)
    show ?thesis
    proof (cases it)
      case (Return r1 p1 b1)
      then have "(r, p', buf') = (r1, p1, b1)"
        using "1.prems" Iter by (simp add: parse.psimps [OF "1.hyps"])
      then show ?thesis
        using step_shrinks [OF Iter] step_collection_Iter [OF Iter] Return
        by (cases "in_collection (state p)"; cases r1 rule: parse_result.exhaust; auto)
          (case_tac "x1"; auto)
    next
      case (Continue p1 b1)
      then have nc: "\<not> in_collection (state p)" and "length b1 < length buf"
        using step_shrinks [OF Iter] step_collection_Iter [OF Iter] by auto
      moreover have "parse p1 b1 = (r, p', buf')"
        using "1.prems" Iter Continue by (simp add: parse.psimps [OF "1.hyps"])
      ultimately show ?thesis using "1.IH"(1) [OF Iter Continue] by fastforce
    qed
  next
    case (Descend fr p1)
    then have c: "in_collection (state p)" using step_Descend by blast
    obtain r2 p2 b2 where sub: "parse p1 buf = (r2, p2, b2)" using prod_cases3 by blast
    have "length b2 \<le> length buf" using "1.IH"(2) [OF Descend sub] by blast
    then show ?thesis
    proof (cases "resume fr r2 p2 b2")
      case (Return r3 p3 b3)
      then have "(r, p', buf') = (r3, p3, b2)"
        using "1.prems" Descend sub resume_Return [OF Return]
        by (simp add: parse.psimps [OF "1.hyps"])
      with c \<open>length b2 \<le> length buf\<close> show ?thesis by simp
    next
      case (Continue p3 b3)
      then have "parse p3 b3 = (r, p', buf')"
        using "1.prems" Descend sub by (simp add: parse.psimps [OF "1.hyps"])
      then have "length buf' \<le> length b3"
        using "1.IH"(3) [OF Descend sub [symmetric] refl Continue] by blast
      then show ?thesis
        using c resume_Continue [OF Continue] \<open>length b2 \<le> length buf\<close> by simp
    qed
  qed
qed

definition collection_rank :: "ParseState \<Rightarrow> nat" where
  "collection_rank s = (if in_collection s then 1 else 0)"

abbreviation parse_order :: "((RespParser \<times> bytes) \<times> (RespParser \<times> bytes)) set" where
  "parse_order \<equiv> measures [\<lambda>(p, buf). length buf, \<lambda>(p, buf). collection_rank (state p)]"

termination parse
proof (relation parse_order)
  show "wf parse_order" by simp
next
  fix p buf it p1 b1
  assume "step_state (state p) p buf = Iter it" "it = Continue p1 b1"
  then have "length b1 < length buf" using step_shrinks step_collection_Iter by fastforce
  then show "((p1, b1), (p, buf)) \<in> parse_order"
    by simp
next
  fix p buf fr p1
  assume "step_state (state p) p buf = Descend fr p1"
  then show "((p1, buf), (p, buf)) \<in> parse_order"
    by (auto simp: collection_rank_def dest!: step_Descend)
next
  fix p buf fr p1 r2 y p2 b2 p3 b3
  assume d: "step_state (state p) p buf = Descend fr p1" "parse_dom (p1, buf)"
    and sub: "(r2, y) = parse p1 buf" "(p2, b2) = y" and c: "resume fr r2 p2 b2 = Continue p3 b3"
  have "state p1 = WaitingForType" using step_Descend [OF d(1)] by simp
  moreover have "parse p1 buf = (r2, p2, b2)" using sub by simp
  moreover have "b3 = b2" "\<exists>v. r2 = Ok (Some v)" using resume_Continue [OF c] by auto
  ultimately have "length b3 < length buf"
    using parse_dom_shorter [OF d(2), of r2 p2 b2] by simp
  then show "((p3, b3), (p, buf)) \<in> parse_order"
    by simp
qed

lemma parse_dom_all: "parse_dom (p, buf)"
  by (induction p buf rule: parse.induct) (rule parse.domintros; blast)

declare parse.simps [simp del]

lemma parse_shorter:
  "parse p buf = (r, p', buf') \<Longrightarrow>
     length buf' \<le> length buf \<and>
     (\<not> in_collection (state p) \<longrightarrow> (\<exists>v. r = Ok (Some v)) \<longrightarrow> length buf' < length buf)"
  using parse_dom_shorter parse_dom_all by blast

end
