(* ===== verification/Resp_Round_Trip.thy ===== *)
theory Resp_Round_Trip
  imports Resp_Encoder Resp_Parser
begin

text \<open>
  The parser inverts the encoder. \<open>accepts p v\<close> collects what the parser's limits ask of a
  value; for every such value the wire form, followed by anything, parses back to the value,
  leaves exactly what followed, and leaves the parser as it was. The three list-like
  collections share one proof, in the locale \<open>sequence_state\<close>, interpreted on the parser's
  array, set and push states.
\<close>

section \<open>Lines and lengths\<close>

lemma find_crlf_digits: "(\<And>c. c \<in> set s \<Longrightarrow> c \<noteq> CR) \<Longrightarrow> find_crlf s = None"
  by (rule find_crlf_no_CR) blast

lemma find_crlf_dec_string [simp]: "find_crlf (dec_string n) = None"
  by (rule find_crlf_digits) (auto dest!: dec_string_digits is_digit_neqs)

lemma find_crlf_i64_to_string [simp]: "find_crlf (i64_to_string w) = None"
  by (rule find_crlf_digits) (auto dest!: i64_to_string_bytes is_digit_neqs)

lemma find_crlf_f64_to_string [simp]: "find_crlf (f64_to_string d) = None"
  by (rule find_crlf_digits) (auto dest!: f64_to_string_bytes is_digit_neqs)

lemma find_crlf_double_text [simp]: "find_crlf (double_text d) = None"
  by (simp add: double_text_def) (simp add: bstr_def)

lemma take_line_wire: "find_crlf s = None \<Longrightarrow> take_line [] (s @ CR # LF # rest) = Some (s, rest)"
  using find_crlf_line [of s rest] by (simp add: take_line_def)

lemma line_i64_to_string [simp]: "line_i64 (i64_to_string w) = Some w"
  by (simp add: line_i64_def)

lemma line_i64_dec_string: "n < 2 ^ 63 \<Longrightarrow> line_i64 (dec_string n) = Some (of_nat n)"
  by (simp add: line_i64_def i64_from_str_dec_string)

lemma from_utf8_ok_spellings [simp]:
  "from_utf8_ok (bstr ''inf'')" "from_utf8_ok (bstr ''-inf'')" "from_utf8_ok (bstr ''nan'')"
  by (simp_all add: bstr_def from_utf8_ok_def)

lemma spellings_distinct [simp]:
  "bstr ''-inf'' \<noteq> bstr ''inf''" "bstr ''nan'' \<noteq> bstr ''inf''" "bstr ''nan'' \<noteq> bstr ''-inf''"
  by (simp_all add: bstr_def)

lemma line_f64_double_text:
  assumes "f64_is_nan d \<longrightarrow> d = f64_NAN"
  shows "line_f64 (double_text d) = Some d"
proof -
  consider "f64_is_infinite d" | "f64_is_nan d" "\<not> f64_is_infinite d"
    | "f64_is_finite d" "\<not> f64_is_infinite d" "\<not> f64_is_nan d"
    using f64_cases [of d] by blast
  then show ?thesis
  proof cases
    case 1
    then have "d = (if f64_positive d then f64_INFINITY else f64_NEG_INFINITY)"
      by (rule f64_infinite_eq)
    with 1 show ?thesis
      by (cases "f64_positive d") (simp_all add: double_text_def line_f64_def)
  next
    case 2
    with assms show ?thesis
      by (simp add: double_text_def line_f64_def)
  next
    case 3
    then show ?thesis
      using f64_to_string_not_special [of d]
      by (simp add: double_text_def line_f64_def f64_round_trip)
  qed
qed

lemma of_nat_i64:
  assumes "n < 2 ^ 63"
  shows "unat (of_nat n :: i64) = n" "sint (of_nat n :: i64) = int n" "(of_nat n :: i64) \<noteq> - 1"
proof -
  have n: "n < 2 ^ 64" using assms by simp
  then show u: "unat (of_nat n :: i64) = n" by (simp add: unat_of_nat take_bit_nat_eq_self)
  show s: "sint (of_nat n :: i64) = int n"
    using assms by (simp add: signed_of_nat signed_take_bit_int_eq_self)
  show "(of_nat n :: i64) \<noteq> - 1"
  proof
    assume "(of_nat n :: i64) = - 1"
    then have "sint (of_nat n :: i64) = - 1" by simp
    with s show False by simp
  qed
qed

lemma read_length_wire:
  "n < 2 ^ 63 \<Longrightarrow> read_length [] (dec_string n @ CR # LF # rest) = LenGot (dec_string n) (of_nat n) rest"
  by (simp add: read_length_def take_line_wire line_i64_dec_string)

lemma read_length_null: "read_length [] (45 # 49 # CR # LF # rest) = LenGot [45, 49] (- 1) rest"
proof -
  have "take_line [] ([45, 49] @ CR # LF # rest) = Some ([45, 49], rest)"
    by (rule take_line_wire) simp
  moreover have "line_i64 [45, 49] = Some (- 1)"
    using line_i64_to_string [of "- 1"]
    by (simp add: i64_to_string_def dec_string.simps digit_byte_def)
  ultimately show ?thesis by (simp add: read_length_def)
qed

lemma read_payload_wire: "read_payload (length s) [] (s @ CR # LF # rest) = BulkDone s rest"
  by (simp add: read_payload_def)

section \<open>Frames that hold no other frame\<close>

lemma goto_id [simp]: "state p = s \<Longrightarrow> goto p s = p"
  by simp

lemmas run_simps = parse.simps line_defs take_line_wire read_length_wire read_length_null
  read_payload_wire of_nat_i64 bulk_len_defs bulk_data_defs Let_def

lemma parse_type_byte [simp]:
  "parse_type p (43 # buf) = Continue (goto p (SimpleString_st [])) buf"
  "parse_type p (45 # buf) = Continue (goto p (Error_st [])) buf"
  "parse_type p (58 # buf) = Continue (goto p (Integer_st [])) buf"
  "parse_type p (36 # buf) = Continue (goto p (BulkStringLen [])) buf"
  "parse_type p (42 # buf) = Continue (goto p (ArrayLen [])) buf"
  "parse_type p (44 # buf) = Continue (goto p (Double_st [])) buf"
  "parse_type p (40 # buf) = Continue (goto p (BigNumber_st [])) buf"
  "parse_type p (33 # buf) = Continue (goto p (BulkErrorLen [])) buf"
  "parse_type p (61 # buf) = Continue (goto p (VerbatimStringLen [])) buf"
  "parse_type p (37 # buf) = Continue (goto p (MapLen [])) buf"
  "parse_type p (126 # buf) = Continue (goto p (SetLen [])) buf"
  "parse_type p (62 # buf) = Continue (goto p (PushLen [])) buf"
  by (simp_all add: parse_type_def)

lemma parse_null_boolean:
  assumes "state p = WaitingForType"
  shows "parse p (95 # CR # LF # rest) = (Ok (Some Null), p, rest)"
    and "parse p (35 # c # CR # LF # rest) = (Ok (Some (Boolean (c = 116))), p, rest)"
  using assms by (simp_all add: parse.simps parse_type_def)

lemma parse_line_values:
  assumes "state p = WaitingForType"
  shows "find_crlf s = None \<Longrightarrow> parse p (43 # s @ CR # LF # rest) = (Ok (Some (SimpleString s)), p, rest)"
    and "find_crlf s = None \<Longrightarrow> parse p (45 # s @ CR # LF # rest) = (Ok (Some (Error s)), p, rest)"
    and "find_crlf s = None \<Longrightarrow> parse p (40 # s @ CR # LF # rest) = (Ok (Some (BigNumber s)), p, rest)"
    and "parse p (58 # i64_to_string w @ CR # LF # rest) = (Ok (Some (Integer w)), p, rest)"
    and "(f64_is_nan d \<longrightarrow> d = f64_NAN) \<Longrightarrow>
           parse p (44 # double_text d @ CR # LF # rest) = (Ok (Some (Double d)), p, rest)"
  using assms by (simp_all add: run_simps line_f64_double_text)

lemma parse_null_values:
  assumes "state p = WaitingForType"
  shows "parse p (36 # 45 # 49 # CR # LF # rest) = (Ok (Some (BulkString None)), p, rest)"
    and "parse p (42 # 45 # 49 # CR # LF # rest) = (Ok (Some (Array None)), p, rest)"
  using assms by (simp_all add: run_simps parse_array_len_def)

lemma parse_bulk_values:
  assumes "state p = WaitingForType" "length s \<le> max_bulk_size p" "max_bulk_size p < 2 ^ 63"
  shows "parse p (bulk_frame 36 s @ rest) = (Ok (Some (BulkString (Some s))), p, rest)"
    and "parse p (bulk_frame 33 s @ rest) = (Ok (Some (BulkError s)), p, rest)"
    and "4 \<le> length s \<Longrightarrow> s ! 3 = 58 \<Longrightarrow> parse p (bulk_frame 61 s @ rest) =
           (Ok (Some (VerbatimString (s ! 0, s ! 1, s ! 2) (drop 4 s))), p, rest)"
proof -
  have n: "length s < 2 ^ 63" using assms by simp
  show "parse p (bulk_frame 36 s @ rest) = (Ok (Some (BulkString (Some s))), p, rest)"
    using assms n by (cases "s = []") (simp_all add: bulk_frame_def run_simps)
  show "parse p (bulk_frame 33 s @ rest) = (Ok (Some (BulkError s)), p, rest)"
    using assms n by (cases "s = []") (simp_all add: bulk_frame_def run_simps)
  show "parse p (bulk_frame 61 s @ rest) =
      (Ok (Some (VerbatimString (s ! 0, s ! 1, s ! 2) (drop 4 s))), p, rest)"
    if "4 \<le> length s" "s ! 3 = 58"
    using assms n that by (simp add: bulk_frame_def run_simps not_less)
qed

section \<open>Collections\<close>

text \<open>
  What the array, set and push states have in common: the type marker leads to a length
  state, the length line to a data state, and every element parsed is appended.
\<close>

locale sequence_state =
  fixes type_byte :: u8
    and len_state :: "bytes \<Rightarrow> ParseState"
    and data_state :: "usize \<Rightarrow> RespValue list \<Rightarrow> ParseState"
    and data_frame :: "usize \<Rightarrow> RespValue list \<Rightarrow> frame"
    and make :: "RespValue list \<Rightarrow> RespValue"
  assumes type_step: "parse_type p (type_byte # buf) = Continue (goto p (len_state [])) buf"
    and len_step: "n < 2 ^ 63 \<Longrightarrow>
      step_state (len_state []) p (dec_string n @ CR # LF # buf) =
      Iter (open_collection (goto p (len_state (dec_string n))) value_capacity n (make []) (data_state n []) buf)"
    and data_step: "0 < k \<Longrightarrow>
      step_state (data_state k xs) p buf = Descend (data_frame k xs) (goto p WaitingForType)"
    and element_step: "resume (data_frame k xs) (Ok (Some x)) p buf =
      (if k - 1 = 0 then close_collection p (make (xs @ [x])) buf
       else Continue (goto p (data_state (k - 1) (xs @ [x]))) buf)"
    and incomplete_step: "resume (data_frame k xs) (Ok None) p buf =
      Return (Ok None) (goto p (data_state k xs)) buf"
begin

lemma parse_elements:
  assumes "\<And>x rest. x \<in> set xs \<Longrightarrow> parse q (wire x @ rest) = (Ok (Some x), q, rest)"
    and "goto p WaitingForType = q" "0 < current_depth q" "xs \<noteq> []"
    and "state p = data_state (length xs) acc"
  shows "parse p (concat (map wire xs) @ rest) =
     (Ok (Some (make (acc @ xs))), q\<lparr>current_depth := current_depth q - 1\<rparr>, rest)"
  using assms
proof (induction xs arbitrary: p acc)
  case Nil
  then show ?case by simp
next
  case (Cons x xs)
  have "parse p (concat (map wire (x # xs)) @ rest) =
    (case resume (data_frame (length (x # xs)) acc) (Ok (Some x)) q (concat (map wire xs) @ rest) of
       Return r p3 buf3 \<Rightarrow> (r, p3, buf3) | Continue p3 buf3 \<Rightarrow> parse p3 buf3)"
    using Cons.prems by (simp add: parse.simps [of p] data_step)
  also have "\<dots> = (Ok (Some (make (acc @ x # xs))), q\<lparr>current_depth := current_depth q - 1\<rparr>, rest)"
  proof (cases "xs = []")
    case True
    then show ?thesis using Cons.prems(3) by (simp add: element_step close_collection_def)
  next
    case False
    have "state q = WaitingForType" using Cons.prems(2) by auto
    then have "parse (goto q (data_state (length xs) (acc @ [x]))) (concat (map wire xs) @ rest) =
        (Ok (Some (make ((acc @ [x]) @ xs))), q\<lparr>current_depth := current_depth q - 1\<rparr>, rest)"
      using Cons.prems False by (intro Cons.IH) auto
    then show ?thesis using False by (simp add: element_step)
  qed
  finally show ?case .
qed

lemma parse_collection:
  assumes p: "state p = WaitingForType" and n: "length xs \<le> max_array_len p" "max_array_len p \<le> pair_capacity"
    and d: "xs \<noteq> [] \<Longrightarrow> current_depth p < max_depth p"
    and elem: "\<And>x rest. x \<in> set xs \<Longrightarrow>
      parse (p\<lparr>current_depth := Suc (current_depth p)\<rparr>) (wire x @ rest) =
      (Ok (Some x), p\<lparr>current_depth := Suc (current_depth p)\<rparr>, rest)"
  shows "parse p (header type_byte (length xs) @ concat (map wire xs) @ rest) = (Ok (Some (make xs)), p, rest)"
proof (cases "xs = []")
  case True
  then show ?thesis
    using p n by (simp add: parse.simps header_def type_step len_step [of 0, simplified] open_collection_def)
next
  case False
  let ?q = "p\<lparr>current_depth := Suc (current_depth p)\<rparr>"
  have n': "length xs < 2 ^ 63" "\<not> value_capacity < length xs" using n capacity_bounds by simp_all
  have "parse p (header type_byte (length xs) @ concat (map wire xs) @ rest) =
    parse (goto ?q (data_state (length xs) [])) (concat (map wire xs) @ rest)"
    using p n n' d [OF False] False
    by (simp add: parse.simps header_def type_step len_step open_collection_def)
  also have "\<dots> = (Ok (Some (make xs)), p, rest)"
    using parse_elements [of xs ?q "goto ?q (data_state (length xs) [])" "[]" rest] elem p False by simp
  finally show ?thesis .
qed

end

interpretation array: sequence_state 42 ArrayLen ArrayData ArrayFrame "Array \<circ> Some"
  by unfold_locales
    (simp_all add: parse_array_len_def parse_array_data_def read_length_wire of_nat_i64 Let_def)

interpretation rset: sequence_state 126 SetLen SetData SetFrame Set
  by unfold_locales
    (simp_all add: parse_set_len_def parse_set_data_def read_length_wire of_nat_i64 Let_def)

interpretation push: sequence_state 62 PushLen PushData PushFrame Push
  by unfold_locales
    (simp_all add: parse_push_len_def parse_push_data_def read_length_wire of_nat_i64 Let_def)

text \<open>A map is parsed as twice as many elements, every second one completing a pair.\<close>

abbreviation wire_pair :: "RespValue \<times> RespValue \<Rightarrow> bytes" where
  "wire_pair \<equiv> \<lambda>(k, v). wire k @ wire v"

lemma parse_pair:
  assumes "\<And>rest. parse q (wire k @ rest) = (Ok (Some k), q, rest)"
    and "\<And>rest. parse q (wire v @ rest) = (Ok (Some v), q, rest)"
    and "goto p WaitingForType = q" "state p = MapData (Suc n) acc None"
  shows "parse p (wire k @ wire v @ rest) =
    (case map_element (Suc n) acc (Some k) (Some v) q rest of
       Return r p3 buf3 \<Rightarrow> (r, p3, buf3) | Continue p3 buf3 \<Rightarrow> parse p3 buf3)"
proof -
  have q: "goto q WaitingForType = q" using assms(3) by auto
  have "parse p (wire k @ wire v @ rest) = parse (goto q (MapData (Suc n) acc (Some k))) (wire v @ rest)"
    using assms by (simp add: parse.simps [of p] parse_map_data_def)
  also have "\<dots> = (case map_element (Suc n) acc (Some k) (Some v) q rest of
       Return r p3 buf3 \<Rightarrow> (r, p3, buf3) | Continue p3 buf3 \<Rightarrow> parse p3 buf3)"
    using assms(2) q
    by (simp add: parse.simps [of "goto q (MapData (Suc n) acc (Some k))"] parse_map_data_def)
  finally show ?thesis .
qed

lemma parse_pairs:
  assumes "\<And>k v rest. (k, v) \<in> set ps \<Longrightarrow> parse q (wire k @ rest) = (Ok (Some k), q, rest)"
    and "\<And>k v rest. (k, v) \<in> set ps \<Longrightarrow> parse q (wire v @ rest) = (Ok (Some v), q, rest)"
    and "goto p WaitingForType = q" "0 < current_depth q" "ps \<noteq> []"
    and "state p = MapData (length ps) acc None"
  shows "parse p (concat (map wire_pair ps) @ rest) =
     (Ok (Some (Map (acc @ ps))), q\<lparr>current_depth := current_depth q - 1\<rparr>, rest)"
  using assms
proof (induction ps arbitrary: p acc)
  case Nil
  then show ?case by simp
next
  case (Cons kv ps)
  obtain k v where kv: "kv = (k, v)" by fastforce
  have pair: "parse p (concat (map wire_pair (kv # ps)) @ rest) =
    (case map_element (Suc (length ps)) acc (Some k) (Some v) q (concat (map wire_pair ps) @ rest) of
       Return r p3 buf3 \<Rightarrow> (r, p3, buf3) | Continue p3 buf3 \<Rightarrow> parse p3 buf3)"
    using parse_pair [of q k v p "length ps" acc] Cons.prems(1,2) [of k v] Cons.prems(3,6) kv by simp
  show ?case
  proof (cases "ps = []")
    case True
    then show ?thesis using pair Cons.prems(4) kv by (simp add: close_collection_def)
  next
    case False
    have "state q = WaitingForType" using Cons.prems(3) by auto
    moreover have "(k', v') \<in> set ps \<Longrightarrow> parse q (wire k' @ rest) = (Ok (Some k'), q, rest)"
      and "(k', v') \<in> set ps \<Longrightarrow> parse q (wire v' @ rest) = (Ok (Some v'), q, rest)" for k' v' rest
      using Cons.prems(1,2) [of k' v'] by simp_all
    ultimately have "parse (goto q (MapData (length ps) (acc @ [(k, v)]) None))
          (concat (map wire_pair ps) @ rest) =
        (Ok (Some (Map ((acc @ [(k, v)]) @ ps))), q\<lparr>current_depth := current_depth q - 1\<rparr>, rest)"
      using Cons.prems(4) False by (intro Cons.IH) auto
    then show ?thesis using pair False kv by (simp add: Let_def)
  qed
qed

lemma parse_map:
  assumes p: "state p = WaitingForType" and n: "length ps \<le> max_array_len p" "max_array_len p \<le> pair_capacity"
    and d: "ps \<noteq> [] \<Longrightarrow> current_depth p < max_depth p"
    and elem: "\<And>k v rest. (k, v) \<in> set ps \<Longrightarrow>
      parse (p\<lparr>current_depth := Suc (current_depth p)\<rparr>) (wire k @ rest) =
      (Ok (Some k), p\<lparr>current_depth := Suc (current_depth p)\<rparr>, rest)"
      "\<And>k v rest. (k, v) \<in> set ps \<Longrightarrow>
      parse (p\<lparr>current_depth := Suc (current_depth p)\<rparr>) (wire v @ rest) =
      (Ok (Some v), p\<lparr>current_depth := Suc (current_depth p)\<rparr>, rest)"
  shows "parse p (header 37 (length ps) @ concat (map wire_pair ps) @ rest) = (Ok (Some (Map ps)), p, rest)"
proof (cases "ps = []")
  case True
  then show ?thesis
    using p n read_length_wire [of 0 rest] of_nat_i64 [of 0]
    by (simp add: parse.simps header_def parse_map_len_def Let_def open_collection_def)
next
  case False
  let ?q = "p\<lparr>current_depth := Suc (current_depth p)\<rparr>"
  have n': "length ps < 2 ^ 63" "\<not> pair_capacity < length ps" using n capacity_bounds by simp_all
  have "parse p (header 37 (length ps) @ concat (map wire_pair ps) @ rest) =
    parse (goto ?q (MapData (length ps) [] None)) (concat (map wire_pair ps) @ rest)"
    using p n n' d [OF False] False
    by (simp add: parse.simps header_def parse_map_len_def read_length_wire of_nat_i64 Let_def
        open_collection_def)
  also have "\<dots> = (Ok (Some (Map ps)), p, rest)"
    using parse_pairs [of ps ?q "goto ?q (MapData (length ps) [] None)" "[]" rest] elem p False by simp
  finally show ?thesis .
qed

section \<open>The round trip\<close>

text \<open>
  A parser between frames accepts a value that respects its limits: bulk sizes, collection
  sizes, nesting left over from the collections already open, and, for the line-based types,
  a payload without a terminator. The limit for bulk sizes must be representable as \<open>i64\<close>, the type
  the code reads lengths into, and a vector of as many pairs as the limit for collections says must
  be one that can be allocated.
\<close>

definition accepts :: "RespParser \<Rightarrow> RespValue \<Rightarrow> bool" where
  "accepts p v \<longleftrightarrow> within_limits (max_bulk_size p) (max_array_len p) v \<and> line_safe v \<and>
     current_depth p + nesting v \<le> max_depth p"

definition parser_ready :: "RespParser \<Rightarrow> bool" where
  "parser_ready p \<longleftrightarrow> state p = WaitingForType \<and> max_bulk_size p < 2 ^ 63 \<and>
     max_array_len p \<le> pair_capacity"

lemma default_limit_fits [simp]: "1000000 \<le> pair_capacity"
  by (simp add: max_capacity_def size_of_RespValue_def)

lemma parser_ready_new [simp]: "parser_ready new_parser"
  by (simp add: parser_ready_def new_parser_def)

lemma parser_ready_depth [simp]: "parser_ready (p\<lparr>current_depth := d\<rparr>) = parser_ready p"
  by (simp add: parser_ready_def)

lemma accepts_seq_elem:
  assumes "accepts p (f xs)" "x \<in> set xs" "f = Array \<circ> Some \<or> f = Set \<or> f = Push"
  shows "accepts (p\<lparr>current_depth := Suc (current_depth p)\<rparr>) x"
proof -
  have "xs \<noteq> []" using assms(2) by auto
  then show ?thesis
    using assms nesting_elem_le [OF assms(2)] by (auto simp: accepts_def)
qed

lemma accepts_pair:
  assumes "accepts p (Map ps)" "(k, v) \<in> set ps"
  shows "accepts (p\<lparr>current_depth := Suc (current_depth p)\<rparr>) k"
    and "accepts (p\<lparr>current_depth := Suc (current_depth p)\<rparr>) v"
proof -
  have "ps \<noteq> []" using assms(2) by auto
  then show "accepts (p\<lparr>current_depth := Suc (current_depth p)\<rparr>) k"
    and "accepts (p\<lparr>current_depth := Suc (current_depth p)\<rparr>) v"
    using assms nesting_pair_le [OF assms(2)] by (auto simp: accepts_def)
qed

lemma parse_wire:
  "parser_ready p \<Longrightarrow> accepts p v \<Longrightarrow> parse p (wire v @ rest) = (Ok (Some v), p, rest)"
proof (induction v arbitrary: p rest rule: wire.induct)
  case (5 s)
  then show ?case using parse_bulk_values(1) by (simp add: accepts_def parser_ready_def)
next
  case (7 xs)
  let ?q = "p\<lparr>current_depth := Suc (current_depth p)\<rparr>"
  have "parse ?q (wire x @ rest) = (Ok (Some x), ?q, rest)" if "x \<in> set xs" for x rest
    using 7 that by (intro "7.IH") (simp_all add: accepts_seq_elem [where f = "Array \<circ> Some"])
  then show ?case
    using array.parse_collection [of p xs rest] "7.prems"
    by (cases "xs = []") (simp_all add: parser_ready_def accepts_def)
next
  case (12 s)
  then show ?case using parse_bulk_values(2) by (simp add: accepts_def parser_ready_def)
next
  case (13 f0 f1 f2 s)
  then show ?case
    using parse_bulk_values(3) [of p "f0 # f1 # f2 # 58 # s" rest]
    by (simp add: accepts_def parser_ready_def)
next
  case (14 ps)
  let ?q = "p\<lparr>current_depth := Suc (current_depth p)\<rparr>"
  have "parse ?q (wire k @ rest) = (Ok (Some k), ?q, rest)"
    and "parse ?q (wire v @ rest) = (Ok (Some v), ?q, rest)" if "(k, v) \<in> set ps" for k v rest
    using that "14.prems" accepts_pair [of p ps k v]
    by (intro "14.IH" [of "(k, v)"]; simp)+
  then show ?case
    using parse_map [of p ps rest] "14.prems"
    by (cases "ps = []") (auto simp: parser_ready_def accepts_def)
next
  case (15 xs)
  let ?q = "p\<lparr>current_depth := Suc (current_depth p)\<rparr>"
  have "parse ?q (wire x @ rest) = (Ok (Some x), ?q, rest)" if "x \<in> set xs" for x rest
    using 15 that by (intro "15.IH") (simp_all add: accepts_seq_elem [where f = Set])
  then show ?case
    using rset.parse_collection [of p xs rest] "15.prems"
    by (cases "xs = []") (simp_all add: parser_ready_def accepts_def)
next
  case (16 xs)
  let ?q = "p\<lparr>current_depth := Suc (current_depth p)\<rparr>"
  have "parse ?q (wire x @ rest) = (Ok (Some x), ?q, rest)" if "x \<in> set xs" for x rest
    using 16 that by (intro "16.IH") (simp_all add: accepts_seq_elem [where f = Push])
  then show ?case
    using push.parse_collection [of p xs rest] "16.prems"
    by (cases "xs = []") (simp_all add: parser_ready_def accepts_def)
qed (simp_all add: parser_ready_def accepts_def parse_line_values parse_null_values
    parse_null_boolean)

section \<open>Properties\<close>

text \<open>C1: the parser inverts the encoder. For every value within the parser's limits, the encoder's
  bytes followed by anything parse to the same value, leave exactly what followed, and leave the
  parser ready for the next frame.\<close>

theorem encode_parse_round_trip:
  assumes "parser_ready p" "accepts p v" "encode v [] = Inr bs"
  shows "parse p (bs @ rest) = (Ok (Some v), p, rest)"
  using assms parse_wire [of p v rest] by (auto simp: encode_wire)

lemma encode_parse_round_trip_witness:
  "parse new_parser (bstr ''*2'' @ CRLF @ bstr ''$3'' @ CRLF @ bstr ''GET'' @ CRLF @ bstr '':7'' @ CRLF @ [1, 2]) =
     (Ok (Some (Array (Some [BulkString (Some (bstr ''GET'')), Integer 7]))), new_parser, [1, 2])"
proof -
  let ?v = "Array (Some [BulkString (Some (bstr ''GET'')), Integer 7])"
  have "accepts new_parser ?v" by (simp add: accepts_def new_parser_def bstr_def)
  moreover have "encode ?v [] =
      Inr (bstr ''*2'' @ CRLF @ bstr ''$3'' @ CRLF @ bstr ''GET'' @ CRLF @ bstr '':7'' @ CRLF)"
    by (simp add: bstr_def dec_string.simps digit_byte_def i64_to_string_def)
  ultimately show ?thesis
    using encode_parse_round_trip [OF parser_ready_new] by (simp only: append_assoc [symmetric])
qed

text \<open>Frames are self-delimiting. Among the values a parser accepts, no encoding is a proper
  prefix of another, and equal encodings come from equal values.\<close>

theorem encode_prefix_free:
  assumes "parser_ready p" "accepts p v" "accepts p w"
    and "encode v [] = Inr a" "encode w [] = Inr (a @ b)"
  shows "v = w \<and> b = []"
proof -
  have "parse p (a @ b) = (Ok (Some v), p, b)"
    using assms parse_wire [of p v b] by (auto simp: encode_wire)
  moreover have "parse p (a @ b) = (Ok (Some w), p, [])"
    using assms parse_wire [of p w "[]"] by (auto simp: encode_wire)
  ultimately show ?thesis by simp
qed

lemma encode_prefix_free_witness: "Integer 7 = Integer 7 \<and> ([] :: bytes) = []"
  by (rule encode_prefix_free [of new_parser _ _ "[58, 55, 13, 10]"])
    (simp_all add: accepts_def new_parser_def bstr_def dec_string.simps digit_byte_def
      i64_to_string_def parser_ready_def)

end
