(* ===== verification/Resp_Limits.thy ===== *)
theory Resp_Limits
  imports Resp_Round_Trip "HOL-Library.Sublist"
begin

text \<open>
  What the parser guarantees on arbitrary input. \<open>parser_inv b p\<close> is the parser's invariant
  above a base depth \<open>b\<close> (\<open>b = 0\<close> between calls, the depth of the enclosing collections inside a
  nested call). Every call keeps it, whatever the bytes and whatever the result; a value that
  is returned respects the configured limits; a call that starts between frames never panics
  and, when it returns a value, closes every collection it opened.
\<close>

section \<open>The invariant\<close>

definition elem_ok :: "nat \<Rightarrow> RespParser \<Rightarrow> RespValue \<Rightarrow> bool" where
  "elem_ok b p v \<longleftrightarrow> within_limits (max_bulk_size p) (max_array_len p) v \<and> b + nesting v \<le> max_depth p"

fun state_ok :: "nat \<Rightarrow> RespParser \<Rightarrow> ParseState \<Rightarrow> bool" where
  "state_ok b p (BulkStringData len data) \<longleftrightarrow> len \<le> max_bulk_size p"
| "state_ok b p (BulkErrorData len data) \<longleftrightarrow> len \<le> max_bulk_size p"
| "state_ok b p (VerbatimStringData len data) \<longleftrightarrow> 4 \<le> len \<and> len \<le> max_bulk_size p"
| "state_ok b p (ArrayData n xs) \<longleftrightarrow>
     b < current_depth p \<and> n + length xs \<le> max_array_len p \<and> (\<forall>x \<in> set xs. elem_ok (Suc b) p x)"
| "state_ok b p (SetData n xs) \<longleftrightarrow>
     b < current_depth p \<and> n + length xs \<le> max_array_len p \<and> (\<forall>x \<in> set xs. elem_ok (Suc b) p x)"
| "state_ok b p (PushData n xs) \<longleftrightarrow>
     b < current_depth p \<and> n + length xs \<le> max_array_len p \<and> (\<forall>x \<in> set xs. elem_ok (Suc b) p x)"
| "state_ok b p (MapData n ps key) \<longleftrightarrow>
     b < current_depth p \<and> n + length ps \<le> max_array_len p \<and>
     (\<forall>(k, v) \<in> set ps. elem_ok (Suc b) p k \<and> elem_ok (Suc b) p v) \<and>
     (\<forall>k. key = Some k \<longrightarrow> elem_ok (Suc b) p k)"
| "state_ok b p _ \<longleftrightarrow> True"

definition parser_inv :: "nat \<Rightarrow> RespParser \<Rightarrow> bool" where
  "parser_inv b p \<longleftrightarrow> b \<le> current_depth p \<and> current_depth p \<le> max_depth p \<and> state_ok b p (state p)"

definition same_limits :: "RespParser \<Rightarrow> RespParser \<Rightarrow> bool" where
  "same_limits p q \<longleftrightarrow> max_bulk_size p = max_bulk_size q \<and> max_array_len p = max_array_len q \<and>
     max_depth p = max_depth q"

text \<open>More accumulated payload than announced: the one state in which a call panics, unless a collection
  header asks for more elements than a vector holds, which takes a limit that allows it.\<close>

fun overfull :: "ParseState \<Rightarrow> bool" where
  "overfull (BulkStringData len data) \<longleftrightarrow> len < length data"
| "overfull (BulkErrorData len data) \<longleftrightarrow> len < length data"
| "overfull (VerbatimStringData len data) \<longleftrightarrow> len < length data"
| "overfull _ \<longleftrightarrow> False"

text \<open>What holds of a finished call, and of one iteration.\<close>

definition result_ok :: "nat \<Rightarrow> RespParser \<Rightarrow> parse_result \<Rightarrow> RespParser \<Rightarrow> bool" where
  "result_ok b p r p' \<longleftrightarrow>
     same_limits p p' \<and> parser_inv b p' \<and>
     (\<forall>v. r = Ok (Some v) \<longrightarrow> elem_ok b p v \<and> state p' = WaitingForType \<and>
        current_depth p' + collection_rank (state p) = current_depth p) \<and>
     (r = Panic \<longrightarrow> overfull (state p) \<or> pair_capacity < max_array_len p)"

fun iter_ok :: "nat \<Rightarrow> RespParser \<Rightarrow> iter \<Rightarrow> bool" where
  "iter_ok b p (Return r p' buf') \<longleftrightarrow> result_ok b p r p'"
| "iter_ok b p (Continue p' buf') \<longleftrightarrow>
     same_limits p p' \<and> parser_inv b p' \<and> \<not> overfull (state p') \<and>
     current_depth p' + collection_rank (state p) = current_depth p + collection_rank (state p')"

lemmas inv_defs = result_ok_def parser_inv_def same_limits_def elem_ok_def collection_rank_def

lemma same_limits_refl [simp]: "same_limits p p"
  by (simp add: same_limits_def)

lemma same_limits_trans: "same_limits p q \<Longrightarrow> same_limits q r \<Longrightarrow> same_limits p r"
  by (simp add: same_limits_def)

lemma elem_ok_same: "same_limits p q \<Longrightarrow> elem_ok b q = elem_ok b p"
  by (simp add: same_limits_def elem_ok_def fun_eq_iff)

lemma elem_ok_update [simp]:
  "elem_ok b (goto p s) = elem_ok b p" "elem_ok b (p\<lparr>current_depth := d\<rparr>) = elem_ok b p"
  by (simp_all add: elem_ok_def fun_eq_iff)

lemma elem_ok_mono: "elem_ok b p v \<Longrightarrow> c \<le> b \<Longrightarrow> elem_ok c p v"
  by (simp add: elem_ok_def)

lemma parser_inv_mono: "parser_inv b p \<Longrightarrow> c \<le> b \<Longrightarrow> parser_inv c p"
  by (cases "state p") (auto simp: parser_inv_def elem_ok_def)

section \<open>Handlers\<close>

lemma type_ok: "parser_inv b p \<Longrightarrow> state p = WaitingForType \<Longrightarrow> iter_ok b p (parse_type p buf)"
  by (cases buf) (simp_all add: parse_type_def inv_defs)

lemma lines_ok:
  assumes "parser_inv b p" "\<not> in_collection (state p)"
  shows "iter_ok b p (parse_simple_string p data buf)" "iter_ok b p (parse_error p data buf)"
    "iter_ok b p (parse_integer p data buf)" "iter_ok b p (parse_double p data buf)"
    "iter_ok b p (parse_big_number p data buf)"
  using assms by (auto simp: line_defs inv_defs split: option.split)

lemma bulk_len_ok:
  assumes "parser_inv b p" "\<not> in_collection (state p)"
  shows "iter_ok b p (parse_bulk_string_len p l buf)" "iter_ok b p (parse_bulk_error_len p l buf)"
    "iter_ok b p (parse_verbatim_string_len p l buf)"
  using assms by (auto simp: bulk_len_defs inv_defs Let_def split: length_line.split)

lemma read_payload_length: "read_payload len data buf = BulkDone d rest \<Longrightarrow> length d = len"
  by (auto simp: read_payload_def Let_def split: if_splits)

lemma read_payload_panic: "read_payload len data buf = BulkPanic \<Longrightarrow> len < length data"
  by (auto simp: read_payload_def Let_def split: if_splits)

lemma bulk_data_ok:
  assumes "parser_inv b p"
  shows "state p = BulkStringData len data \<Longrightarrow> iter_ok b p (parse_bulk_string_data p len data buf)"
    "state p = BulkErrorData len data \<Longrightarrow> iter_ok b p (parse_bulk_error_data p len data buf)"
    "state p = VerbatimStringData len data \<Longrightarrow> iter_ok b p (parse_verbatim_string_data p len data buf)"
  using assms
  by (auto simp: bulk_data_defs inv_defs dest: read_payload_length read_payload_panic
      split: payload.split)

lemma state_ok_depth: "\<not> in_collection s \<Longrightarrow> state_ok b (p\<lparr>current_depth := d\<rparr>) s = state_ok b p s"
  by (cases s) simp_all

lemma open_collection_ok:
  assumes "parser_inv b q" "parser_inv b p" "\<not> in_collection (state p)" "same_limits p q"
    and "current_depth q = current_depth p" "elem_ok b p v"
    and "in_collection s" "len \<le> max_array_len p \<Longrightarrow>
      state_ok b (q\<lparr>current_depth := Suc (current_depth p), state := s\<rparr>) s"
    and "pair_capacity \<le> capacity" "\<not> in_collection (state q)"
  shows "iter_ok b p (open_collection q capacity len v s buf)"
proof -
  have "\<not> overfull s" using assms(7) by (cases s) simp_all
  then show ?thesis
    using assms by (auto simp: open_collection_def result_ok_def parser_inv_def same_limits_def
        collection_rank_def state_ok_depth)
qed

lemma coll_len_ok:
  assumes "parser_inv b p" "\<not> in_collection (state p)"
  shows "iter_ok b p (parse_array_len p l buf)" "iter_ok b p (parse_map_len p l buf)"
    "iter_ok b p (parse_set_len p l buf)" "iter_ok b p (parse_push_len p l buf)"
  using assms
  by (auto simp: parse_array_len_def parse_map_len_def parse_set_len_def parse_push_len_def Let_def
      inv_defs capacity_bounds(1) intro!: open_collection_ok split: length_line.split)

section \<open>Collections\<close>

lemma elem_ok_seq:
  assumes "\<forall>x \<in> set xs. elem_ok (Suc b) p x" "length xs \<le> max_array_len p" "b < max_depth p"
  shows "elem_ok b p (Array (Some xs))" "elem_ok b p (Set xs)" "elem_ok b p (Push xs)"
proof -
  have "foldr (max \<circ> nesting) xs 0 \<le> max_depth p - Suc b"
    using assms(1) by (intro foldr_nesting_le) (auto simp: elem_ok_def)
  with assms show "elem_ok b p (Array (Some xs))" "elem_ok b p (Set xs)" "elem_ok b p (Push xs)"
    by (auto simp: elem_ok_def)
qed

lemma elem_ok_map:
  assumes "\<forall>(k, v) \<in> set ps. elem_ok (Suc b) p k \<and> elem_ok (Suc b) p v"
    and "length ps \<le> max_array_len p" "b < max_depth p"
  shows "elem_ok b p (Map ps)"
proof -
  have "foldr (\<lambda>(k, v). max (max (nesting k) (nesting v))) ps 0 \<le> max_depth p - Suc b"
    using assms(1) by (intro foldr_nesting_pair_le) (fastforce simp: elem_ok_def)
  with assms show ?thesis by (auto simp: elem_ok_def)
qed

lemma close_collection_ok:
  assumes "elem_ok b p v" "same_limits p q" "state q = WaitingForType" "in_collection (state p)"
    and "current_depth q = current_depth p" "b < current_depth p" "current_depth p \<le> max_depth p"
  shows "iter_ok b p (close_collection q v buf)"
  using assms by (auto simp: close_collection_def result_ok_def parser_inv_def same_limits_def
      collection_rank_def)

lemma collection_Iter_ok:
  assumes "parser_inv b p" "in_collection (state p)" "step_state (state p) p buf = Iter it"
  shows "iter_ok b p it"
  using assms
  by (cases "state p")
    (auto simp: parse_array_data_def parse_set_data_def parse_push_data_def parse_map_data_def
      parser_inv_def same_limits_def intro!: close_collection_ok elem_ok_seq elem_ok_map
      split: if_splits)

lemma step_Iter_ok:
  assumes "parser_inv b p" "step_state (state p) p buf = Iter it"
  shows "iter_ok b p it"
proof (cases "in_collection (state p)")
  case True
  then show ?thesis using assms collection_Iter_ok by blast
next
  case False
  then show ?thesis
    using assms
    by (cases "state p") (auto simp: type_ok lines_ok bulk_len_ok bulk_data_ok coll_len_ok)
qed

text \<open>The outcome of a nested call, handed to the frame that made it.\<close>

definition holds_frame :: "frame \<Rightarrow> ParseState \<Rightarrow> bool" where
  "holds_frame fr s \<longleftrightarrow>
     (case fr of
        ArrayFrame n xs \<Rightarrow> 0 < n \<and> s = ArrayData n xs
      | MapFrame n ps key \<Rightarrow> 0 < n \<and> s = MapData n ps key
      | SetFrame n xs \<Rightarrow> 0 < n \<and> s = SetData n xs
      | PushFrame n xs \<Rightarrow> 0 < n \<and> s = PushData n xs)"

lemma step_Descend_frame: "step_state s p buf = Descend fr p' \<Longrightarrow> holds_frame fr s"
  by (cases s) (auto simp: holds_frame_def parse_array_data_def parse_set_data_def
      parse_push_data_def parse_map_data_def split: if_splits)

lemma holds_frame_collection: "holds_frame fr s \<Longrightarrow> in_collection s"
  by (cases fr) (auto simp: holds_frame_def)

lemma resume_None_ok:
  assumes "parser_inv b p" "holds_frame fr (state p)"
    and "same_limits p q" "parser_inv (current_depth p) q"
  shows "iter_ok b p (resume fr (Ok None) q buf)"
  using assms elem_ok_same [OF assms(3)]
  by (cases fr) (auto simp: holds_frame_def result_ok_def parser_inv_def same_limits_def)

lemma resume_Some_ok:
  assumes "parser_inv b p" "holds_frame fr (state p)"
    and "same_limits p q" "elem_ok (Suc b) p v" "state q = WaitingForType"
    and "current_depth q = current_depth p"
  shows "iter_ok b p (resume fr (Ok (Some v)) q buf)"
proof (cases fr)
  case (MapFrame n ps key)
  with assms elem_ok_same [OF assms(3)] show ?thesis
    by (cases key) (auto simp: holds_frame_def parser_inv_def same_limits_def collection_rank_def
        Let_def intro!: close_collection_ok elem_ok_map)
qed (use assms elem_ok_same [OF assms(3)] in \<open>auto simp: holds_frame_def parser_inv_def
  same_limits_def collection_rank_def Let_def intro!: close_collection_ok elem_ok_seq\<close>)

lemma resume_ok:
  assumes inv: "parser_inv b p" and fr: "holds_frame fr (state p)"
    and sub: "result_ok (current_depth p) (goto p WaitingForType) r q"
  shows "iter_ok b p (resume fr r q buf)"
proof (cases r)
  case (Ok m)
  have q: "same_limits p q" "parser_inv (current_depth p) q"
    using sub by (simp_all add: result_ok_def same_limits_def)
  have "b < current_depth p" using inv fr by (cases fr) (auto simp: holds_frame_def parser_inv_def)
  show ?thesis
  proof (cases m)
    case None
    with Ok inv fr q show ?thesis by (simp add: resume_None_ok)
  next
    case (Some v)
    have "elem_ok (current_depth p) p v" "state q = WaitingForType" "current_depth q = current_depth p"
      using sub Ok Some by (auto simp: result_ok_def collection_rank_def)
    with \<open>b < current_depth p\<close> have "elem_ok (Suc b) p v" by (auto intro: elem_ok_mono)
    then show ?thesis
      using resume_Some_ok [OF inv fr q(1)] Ok Some \<open>state q = _\<close> \<open>current_depth q = _\<close> by blast
  qed
next
  case (Err e)
  have "b \<le> current_depth p" using inv by (simp add: parser_inv_def)
  with sub Err show ?thesis by (auto simp: result_ok_def same_limits_def intro: parser_inv_mono)
next
  case Panic
  have "b \<le> current_depth p" using inv by (simp add: parser_inv_def)
  with sub Panic show ?thesis by (auto simp: result_ok_def same_limits_def intro: parser_inv_mono)
qed

section \<open>Whole calls\<close>

lemma result_ok_continue:
  assumes "iter_ok b p (Continue q buf')" "result_ok b q r p'"
  shows "result_ok b p r p'"
  using assms elem_ok_same [of p q b] by (auto simp: result_ok_def same_limits_def)

lemma parse_ok: "parser_inv b p \<Longrightarrow> parse p buf = (r, p', buf') \<Longrightarrow> result_ok b p r p'"
proof (induction p buf arbitrary: b r p' buf' rule: parse.induct)
  case (1 p buf)
  show ?case
  proof (cases "step_state (state p) p buf")
    case (Iter it)
    then have ok: "iter_ok b p it" using "1.prems" step_Iter_ok by blast
    show ?thesis
    proof (cases it)
      case (Return r1 p1 b1)
      with ok Iter "1.prems"(2) show ?thesis by (simp add: parse.simps [of p])
    next
      case (Continue p1 b1)
      have "parse p1 b1 = (r, p', buf')" using "1.prems"(2) Iter Continue by (simp add: parse.simps [of p])
      then show ?thesis
        using "1.IH"(1) [OF Iter Continue] ok Continue result_ok_continue by auto
    qed
  next
    case (Descend fr p1)
    then have p1: "p1 = goto p WaitingForType" and fr: "holds_frame fr (state p)"
      using step_Descend step_Descend_frame by blast+
    obtain r2 p2 b2 where sub: "parse p1 buf = (r2, p2, b2)" using prod_cases3 by blast
    have "parser_inv (current_depth p) p1" using "1.prems"(1) p1 by (simp add: parser_inv_def)
    then have "result_ok (current_depth p) p1 r2 p2" using "1.IH"(2) [OF Descend _ sub] by blast
    then have ok: "iter_ok b p (resume fr r2 p2 b2)" using resume_ok [OF "1.prems"(1) fr] p1 by blast
    show ?thesis
    proof (cases "resume fr r2 p2 b2")
      case (Return r3 p3 b3)
      with ok Descend sub "1.prems"(2) show ?thesis by (simp add: parse.simps [of p])
    next
      case (Continue p3 b3)
      have "parse p3 b3 = (r, p', buf')"
        using "1.prems"(2) Descend sub Continue by (simp add: parse.simps [of p])
      then show ?thesis
        using "1.IH"(3) [OF Descend sub [symmetric] refl Continue] ok Continue result_ok_continue by auto
    qed
  qed
qed

section \<open>Consumption\<close>

text \<open>The bytes an iteration leaves are the end of the bytes it was given.\<close>

fun leaves_suffix :: "bytes \<Rightarrow> iter \<Rightarrow> bool" where
  "leaves_suffix buf (Return r p' buf') \<longleftrightarrow> suffix buf' buf"
| "leaves_suffix buf (Continue p' buf') \<longleftrightarrow> suffix buf' buf"

lemma take_line_suffix: "take_line data buf = Some (line, rest) \<Longrightarrow> suffix rest buf"
  by (auto simp: take_line_def suffix_drop split: option.splits)

lemma read_length_suffix:
  "read_length l buf = LenGot line n rest \<Longrightarrow> suffix rest buf"
  "read_length l buf = LenBad line rest \<Longrightarrow> suffix rest buf"
  by (auto simp: read_length_def dest: take_line_suffix split: option.splits)

lemma read_payload_suffix: "read_payload len data buf = BulkDone d rest \<Longrightarrow> suffix rest buf"
  by (auto simp: read_payload_def Let_def suffix_drop split: if_splits)

lemma suffix_drop_trans: "suffix xs ys \<Longrightarrow> suffix (drop n xs) ys"
  using suffix_drop suffix_order.trans by blast

lemma suffix_tl: "suffix xs (y # ys) \<longleftrightarrow> xs = y # ys \<or> suffix xs ys"
  by (auto simp: suffix_Cons)

lemma type_suffix: "leaves_suffix buf (parse_type p buf)"
  by (cases buf) (simp_all add: parse_type_def suffix_Cons suffix_drop)

lemma lines_suffix:
  "leaves_suffix buf (parse_simple_string p data buf)" "leaves_suffix buf (parse_error p data buf)"
  "leaves_suffix buf (parse_integer p data buf)" "leaves_suffix buf (parse_double p data buf)"
  "leaves_suffix buf (parse_big_number p data buf)"
  by (auto simp: line_defs dest: take_line_suffix split: option.split)

lemma lens_suffix:
  "leaves_suffix buf (parse_bulk_string_len p l buf)" "leaves_suffix buf (parse_bulk_error_len p l buf)"
  "leaves_suffix buf (parse_verbatim_string_len p l buf)" "leaves_suffix buf (parse_array_len p l buf)"
  "leaves_suffix buf (parse_map_len p l buf)" "leaves_suffix buf (parse_set_len p l buf)"
  "leaves_suffix buf (parse_push_len p l buf)"
  by (auto simp: bulk_len_defs coll_len_defs Let_def dest: read_length_suffix
      intro: suffix_drop_trans split: length_line.split)

lemma bulk_data_suffix:
  "leaves_suffix buf (parse_bulk_string_data p len data buf)"
  "leaves_suffix buf (parse_bulk_error_data p len data buf)"
  "leaves_suffix buf (parse_verbatim_string_data p len data buf)"
  by (auto simp: bulk_data_defs dest: read_payload_suffix split: payload.split)

lemma step_suffix: "step_state s p buf = Iter it \<Longrightarrow> leaves_suffix buf it"
  by (cases s) (auto simp: type_suffix lines_suffix lens_suffix bulk_data_suffix coll_data_defs
      split: if_splits)

lemma parse_suffix: "parse p buf = (r, p', buf') \<Longrightarrow> suffix buf' buf"
proof (induction p buf arbitrary: r p' buf' rule: parse.induct)
  case (1 p buf)
  show ?case
  proof (cases "step_state (state p) p buf")
    case (Iter it)
    show ?thesis
    proof (cases it)
      case (Return r1 p1 b1)
      with step_suffix [OF Iter] Iter "1.prems" show ?thesis by (simp add: parse.simps [of p])
    next
      case (Continue p1 b1)
      then have "suffix buf' b1" using "1.IH"(1) [OF Iter Continue] Iter "1.prems" by (simp add: parse.simps [of p])
      with step_suffix [OF Iter] Continue show ?thesis using suffix_order.trans by auto
    qed
  next
    case (Descend fr p1)
    obtain r2 p2 b2 where sub: "parse p1 buf = (r2, p2, b2)" using prod_cases3 by blast
    have b2: "suffix b2 buf" using "1.IH"(2) [OF Descend sub] .
    show ?thesis
    proof (cases "resume fr r2 p2 b2")
      case (Return r3 p3 b3)
      with b2 sub Descend "1.prems" resume_Return [OF Return] show ?thesis by (simp add: parse.simps [of p])
    next
      case (Continue p3 b3)
      then have "suffix buf' b3"
        using "1.IH"(3) [OF Descend sub [symmetric] refl Continue] Descend sub "1.prems"
        by (simp add: parse.simps [of p])
      with b2 resume_Continue [OF Continue] show ?thesis using suffix_order.trans by blast
    qed
  qed
qed

section \<open>Reachable parsers\<close>

text \<open>
  A parser in use: built by \<open>new\<close> and the \<open>with_\<close> builders, then called any number of times on
  any bytes, errors and incomplete frames included.
\<close>

inductive reachable :: "RespParser \<Rightarrow> bool" where
  built: "reachable (with_max_depth (with_max_array_len (with_max_bulk_size new_parser b) a) d)"
| called: "reachable p \<Longrightarrow> parse p buf = (r, p', buf') \<Longrightarrow> r \<noteq> Panic \<Longrightarrow> reachable p'"

inductive_cases reachable_cases: "reachable p"

lemma reachable_new: "reachable new_parser"
  using built [of "512 * 1024 * 1024" 1000000 32]
  by (simp add: with_max_depth_def with_max_array_len_def with_max_bulk_size_def new_parser_def)

lemma reachable_inv: "reachable p \<Longrightarrow> parser_inv 0 p"
proof (induction rule: reachable.induct)
  case (built b a d)
  then show ?case
    by (simp add: parser_inv_def with_max_depth_def with_max_array_len_def with_max_bulk_size_def
        new_parser_def)
next
  case (called p buf r p' buf')
  then show ?case using parse_ok [of 0 p] by (simp add: result_ok_def)
qed

section \<open>Properties\<close>

text \<open>C4: whatever bytes a parser has been fed in earlier calls, a value it returns respects the
  configured limits: no bulk payload above \<open>max_bulk_size\<close>, no collection above
  \<open>max_array_len\<close>, and nesting at most \<open>max_depth\<close>.\<close>

theorem parse_respects_limits:
  assumes "reachable p" "parse p buf = (Ok (Some v), p', buf')"
  shows "within_limits (max_bulk_size p) (max_array_len p) v \<and> nesting v \<le> max_depth p"
  using parse_ok [OF reachable_inv [OF assms(1)] assms(2)] by (simp add: result_ok_def elem_ok_def)

lemma parse_array_7:
  "parse new_parser (wire (Array (Some [Integer 7])) @ [43]) =
     (Ok (Some (Array (Some [Integer 7]))), new_parser, [43])"
  by (rule parse_wire [OF parser_ready_new]) (simp add: accepts_def new_parser_def)

lemma parse_respects_limits_witness:
  "within_limits (max_bulk_size new_parser) (max_array_len new_parser) (Array (Some [Integer 7])) \<and>
     nesting (Array (Some [Integer 7])) \<le> max_depth new_parser"
  by (rule parse_respects_limits [OF reachable_new parse_array_7])

text \<open>A header whose length the limit allows and no vector can hold makes the parser panic.\<close>

lemma large_header_panics:
  assumes "state p = WaitingForType" "value_capacity < n" "n \<le> max_array_len p" "n < 2 ^ 63"
    and "current_depth p < max_depth p"
  shows "fst (parse p (header 42 n @ rest)) = Panic"
  using assms read_length_wire [OF assms(4)] of_nat_i64 [OF assms(4)]
  by (simp add: parse.simps [of p] parse.simps [of "goto p (ArrayLen [])"] header_def parse_array_len_def Let_def
      open_collection_def)

text \<open>C6: a call that starts between two frames does not panic, as long as a vector of as many pairs as
  \<open>max_array_len\<close> says can be allocated at all (\<open>pair_capacity\<close>, about 1.15e17; the default limit is
  a million, and a larger one lets a header panic: \<open>large_header_panics\<close>); and whatever the limit,
  when the call returns a value it is between two frames again with the nesting depth it started
  from.\<close>

theorem parse_between_frames:
  assumes "reachable p" "state p = WaitingForType" "parse p buf = (r, p', buf')"
  shows "(max_array_len p \<le> pair_capacity \<longrightarrow> r \<noteq> Panic) \<and>
    (\<forall>v. r = Ok (Some v) \<longrightarrow> state p' = WaitingForType \<and> current_depth p' = current_depth p)"
  using parse_ok [OF reachable_inv [OF assms(1)] assms(3)] assms(2)
  by (auto simp: result_ok_def collection_rank_def)

lemma parse_between_frames_witness:
  "\<exists>r p'. parse new_parser (wire (Array (Some [Integer 7])) @ [43]) = (r, p', [43]) \<and>
     max_array_len new_parser \<le> pair_capacity \<and> r \<noteq> Panic \<and>
     state p' = WaitingForType \<and> current_depth p' = current_depth new_parser"
proof -
  have "max_array_len new_parser \<le> pair_capacity" using parser_ready_new unfolding parser_ready_def by blast
  then show ?thesis
    using parse_between_frames [OF reachable_new _ parse_array_7] parse_array_7 by (simp add: new_parser_def)
qed

text \<open>C17: a call consumes a prefix of its buffer (the bytes it leaves are the end of the bytes it was
  given), and a call that returns a value outside a partly parsed collection consumes at least
  one byte, so a loop over a buffer ends.\<close>

theorem parse_consumes_prefix:
  assumes "parse p buf = (r, p', buf')"
  shows "suffix buf' buf \<and>
    (\<not> in_collection (state p) \<and> (\<exists>v. r = Ok (Some v)) \<longrightarrow> length buf' < length buf)"
  using parse_suffix [OF assms] parse_shorter [OF assms] by blast

lemma parse_consumes_prefix_witness:
  "suffix [43] (wire (Array (Some [Integer 7])) @ [43]) \<and>
     length [43 :: u8] < length (wire (Array (Some [Integer 7])) @ [43])"
  using parse_consumes_prefix [OF parse_array_7] by (simp add: new_parser_def)

end
