(* ===== verification/Resp_Streaming.thy ===== *)
theory Resp_Streaming
  imports Resp_Limits
begin

text \<open>
  Frames that arrive in pieces. \<open>feed\<close> is the read loop of a framed connection: every chunk is
  appended to what the parser left, and the parser is called again until it returns something
  other than \<open>Ok(None)\<close>. For every frame that is a line or a bulk payload, the way the bytes are
  cut does not matter as long as no cut separates a carriage return from its line feed; for a
  collection, cuts between its elements do not matter. The last section states what happens at
  the other cuts.
\<close>

section \<open>The read loop\<close>

fun feed :: "RespParser \<Rightarrow> bytes \<Rightarrow> bytes list \<Rightarrow> parse_result \<times> RespParser \<times> bytes" where
  "feed p buf [] = (Ok None, p, buf)"
| "feed p buf (c # cs) =
     (case parse p (buf @ c) of
        (r, p', buf') \<Rightarrow> if r = Ok None then feed p' buf' cs else (r, p', buf' @ concat cs))"

text \<open>No cut between a carriage return and a line feed.\<close>

definition cut_ok :: "bytes \<Rightarrow> bytes \<Rightarrow> bool" where
  "cut_ok a b \<longleftrightarrow> \<not> (a \<noteq> [] \<and> last a = CR \<and> b \<noteq> [] \<and> hd b = LF)"

fun cuts_ok :: "bytes list \<Rightarrow> bool" where
  "cuts_ok [] \<longleftrightarrow> True"
| "cuts_ok (c # cs) \<longleftrightarrow> cut_ok c (concat cs) \<and> cuts_ok cs"

section \<open>Lines and payloads in two pieces\<close>

lemma cut_ok_straddle: "cut_ok a b \<Longrightarrow> \<not> (\<exists>u v. a = u @ [CR] \<and> b = LF # v)"
  by (auto simp: cut_ok_def)

lemma find_crlf_append_first: "find_crlf a = Some n \<Longrightarrow> find_crlf (a @ b) = Some n"
  by (induction a arbitrary: n rule: find_crlf.induct) (auto split: if_splits)

lemma take_line_append_Some:
  "take_line data a = Some (l, rest) \<Longrightarrow> take_line data (a @ b) = Some (l, rest @ b)"
  by (auto simp: take_line_def find_crlf_append_first dest: find_crlf_bound split: option.splits)

lemma take_line_append_None:
  assumes "take_line data a = None" "cut_ok a b"
  shows "take_line (data @ a) b = take_line data (a @ b)"
proof (cases "find_crlf b")
  case None
  then show ?thesis
    using assms find_crlf_append_None [of a b] cut_ok_straddle by (simp add: take_line_def split: option.splits)
next
  case (Some n)
  then show ?thesis
    using assms find_crlf_append_Some [of a b n] cut_ok_straddle by (simp add: take_line_def split: option.splits)
qed

lemma read_length_append:
  "read_length l a = LenGot line n rest \<Longrightarrow> read_length l (a @ b) = LenGot line n (rest @ b)"
  "read_length l a = LenBad line rest \<Longrightarrow> read_length l (a @ b) = LenBad line (rest @ b)"
  "read_length l a = LenMore acc \<Longrightarrow> cut_ok a b \<Longrightarrow> acc = l @ a \<and> read_length acc b = read_length l (a @ b)"
  by (auto simp: read_length_def take_line_append_Some take_line_append_None split: option.splits)

lemma read_payload_append_Done:
  "read_payload len data a = BulkDone d rest \<Longrightarrow> read_payload len data (a @ b) = BulkDone d (rest @ b)"
  by (auto simp: read_payload_def Let_def split: if_splits)

lemma read_payload_append_More:
  assumes "read_payload len data a = BulkMore acc" "length data \<le> len" "cut_ok a b"
    and "read_payload len data (a @ b) = BulkDone d rest"
  shows "acc = data @ a \<and> length acc \<le> len \<and> read_payload len acc b = BulkDone d rest"
proof -
  have acc: "acc = data @ a" and short: "length a < len + 2 - length data"
    using assms(1) by (auto simp: read_payload_def Let_def split: if_splits)
  have crlf: "take 2 (drop (len - length data) (a @ b)) = CRLF"
    using assms(2,4) by (auto simp: read_payload_def Let_def split: if_splits)
  have "length a \<noteq> Suc (len - length data)"
  proof
    assume n: "length a = Suc (len - length data)"
    obtain u c where a: "a = u @ [c]" using n by (cases a rule: rev_cases) auto
    then have "take 2 (c # b) = CRLF" using crlf n by simp
    then have "c = CR" "b \<noteq> []" "hd b = LF" by (cases b; simp)+
    with a assms(3) show False by (simp add: cut_ok_def)
  qed
  with short assms(2) have le: "length acc \<le> len" using acc by simp
  then have "Suc (Suc (len - length data)) - length a = Suc (Suc (len - (length data + length a)))"
    using acc by simp
  then show ?thesis
    using assms(2,4) acc le by (auto simp: read_payload_def Let_def drop_append split: if_splits)
qed

section \<open>A call on part of a frame\<close>

text \<open>The states inside a frame that holds no other frame.\<close>

fun line_state :: "ParseState \<Rightarrow> bool" where
  "line_state (SimpleString_st _) = True"
| "line_state (Error_st _) = True"
| "line_state (Integer_st _) = True"
| "line_state (Double_st _) = True"
| "line_state (BigNumber_st _) = True"
| "line_state _ = False"

fun scalar_state :: "ParseState \<Rightarrow> bool" where
  "scalar_state (BulkStringLen _) \<longleftrightarrow> True"
| "scalar_state (BulkErrorLen _) \<longleftrightarrow> True"
| "scalar_state (VerbatimStringLen _) \<longleftrightarrow> True"
| "scalar_state (BulkStringData len data) \<longleftrightarrow> length data \<le> len"
| "scalar_state (BulkErrorData len data) \<longleftrightarrow> length data \<le> len"
| "scalar_state (VerbatimStringData len data) \<longleftrightarrow> length data \<le> len"
| "scalar_state s \<longleftrightarrow> line_state s"

text \<open>
  Calling the parser on \<open>a\<close> and then, with what it left, on \<open>b\<close>, is calling it on both.
\<close>

definition resumes :: "RespParser \<Rightarrow> bytes \<Rightarrow> bytes \<Rightarrow> bool" where
  "resumes p a b \<longleftrightarrow>
     (case parse p a of
        (r, p', a') \<Rightarrow>
          if r = Ok None then parse p' (a' @ b) = parse p (a @ b) \<and> scalar_state (state p')
          else parse p (a @ b) = (r, p', a' @ b))"

lemma line_resumes:
  assumes "line_state (state p)" "cut_ok a b"
  shows "resumes p a b"
  using assms
  by (cases "state p")
    (auto simp: resumes_def parse.simps line_defs take_line_append_None take_line_append_Some
      split: option.split)

text \<open>Bulk frames: only input that makes a whole frame is cut-independent here.\<close>

lemma data_resumes:
  assumes "state p = BulkStringData len data \<or> state p = BulkErrorData len data \<or>
      state p = VerbatimStringData len data"
    and "length data \<le> len" "cut_ok a b" "parse p (a @ b) = (Ok (Some v), q, rest)"
  shows "resumes p a b"
proof (cases "read_payload len data (a @ b)")
  case (BulkDone d r)
  show ?thesis
  proof (cases "read_payload len data a")
    case BulkPanic
    then show ?thesis using read_payload_panic assms(2) by fastforce
  next
    case (BulkMore acc)
    then show ?thesis
      using read_payload_append_More [OF BulkMore assms(2,3) BulkDone] BulkDone assms(1)
      by (auto simp: resumes_def parse.simps bulk_data_defs)
  next
    case (BulkBad acc)
    then show ?thesis
      using BulkDone assms(2) by (auto simp: read_payload_def Let_def split: if_splits)
  next
    case (BulkDone d' r')
    then show ?thesis
      using read_payload_append_Done [OF BulkDone] assms(1)
      by (auto simp: resumes_def parse.simps bulk_data_defs split: if_splits)
  qed
qed (use assms in \<open>auto simp: parse.simps bulk_data_defs\<close>)

lemma cut_ok_suffix: "suffix a' a \<Longrightarrow> cut_ok a b \<Longrightarrow> cut_ok a' b"
  by (auto simp: cut_ok_def suffix_def)

lemma parse_Continue:
  "step_state (state p) p buf = Iter (Continue q buf') \<Longrightarrow> parse p buf = parse q buf'"
  by (simp add: parse.simps [of p])

lemma parse_Return:
  "step_state (state p) p buf = Iter (Return r q buf') \<Longrightarrow> parse p buf = (r, q, buf')"
  by (simp add: parse.simps [of p])

lemma resumes_Continue:
  assumes "step_state (state p) p a = Iter (Continue q a')"
    and "step_state (state p) p (a @ b) = Iter (Continue q (a' @ b))" "resumes q a' b"
  shows "resumes p a b"
  using assms by (simp add: resumes_def parse_Continue split: prod.splits)

lemma resumes_Return:
  assumes "step_state (state p) p a = Iter (Return r q a')" "r \<noteq> Ok None"
    and "step_state (state p) p (a @ b) = Iter (Return r q (a' @ b))"
  shows "resumes p a b"
  using assms by (simp add: resumes_def parse_Return)

lemma len_resumes_More:
  assumes "read_length l a = LenMore acc" "cut_ok a b"
    and "state p = BulkStringLen l \<or> state p = BulkErrorLen l \<or> state p = VerbatimStringLen l"
  shows "resumes p a b"
  using assms read_length_append(3) [OF assms(1,2)]
  by (auto simp: resumes_def parse.simps bulk_len_defs split: length_line.split)

text \<open>An empty payload, with none or one of the two terminator bytes there.\<close>

lemma empty_payload_resumes:
  assumes "state p = BulkStringLen l \<or> state p = BulkErrorLen l"
    and "read_length l a = LenGot line 0 a'" "parse p (a @ b) = (Ok (Some v), q, rest)"
  shows "resumes p a b"
  using assms read_length_append(1) [OF assms(2), of b]
  by (auto simp: resumes_def parse.simps bulk_len_defs bulk_data_defs Let_def read_payload_def
      numeral_2_eq_2 split: if_splits)

lemma len_resumes_Got:
  assumes st: "state p = BulkStringLen l \<or> state p = BulkErrorLen l \<or> state p = VerbatimStringLen l"
    and len: "read_length l a = LenGot line n a'" and cut: "cut_ok a b"
    and whole: "parse p (a @ b) = (Ok (Some v), q, rest)"
  shows "resumes p a b"
proof (cases "n = 0 \<and> state p \<noteq> VerbatimStringLen l")
  case True
  then show ?thesis using st len whole empty_payload_resumes by auto
next
  case False
  have len': "read_length l (a @ b) = LenGot line n (a' @ b)" using read_length_append(1) [OF len] .
  have cut': "cut_ok a' b" using cut_ok_suffix read_length_suffix(1) [OF len] cut by blast
  let ?d = "\<lambda>s. if s = BulkStringLen l then BulkStringData (unat n) []
    else if s = BulkErrorLen l then BulkErrorData (unat n) [] else VerbatimStringData (unat n) []"
  let ?q = "goto p (?d (state p))"
  have n: "n = 0 \<Longrightarrow> unat n = 0" by simp
  show ?thesis
  proof (cases "n = - 1")
    case True
    then show ?thesis
      using st len len' by (auto intro!: resumes_Return simp: bulk_len_defs Let_def)
  next
    case minus: False
    have steps: "step_state (state p) p (a @ b) = Iter (Continue ?q (a' @ b)) \<and>
        step_state (state p) p a = Iter (Continue ?q a')"
      using st len len' whole False minus
      by (auto simp: parse.simps [of p] bulk_len_defs Let_def unsigned_eq_0_iff split: if_splits)
    then have "parse ?q (a' @ b) = (Ok (Some v), q, rest)"
      using whole by (simp add: parse_Continue [of p])
    then have "resumes ?q a' b"
      using st cut' by (intro data_resumes [of _ "unat n" "[]"]) auto
    with steps show ?thesis by (blast intro: resumes_Continue)
  qed
qed

lemma len_resumes:
  assumes "state p = BulkStringLen l \<or> state p = BulkErrorLen l \<or> state p = VerbatimStringLen l"
    and "cut_ok a b" "parse p (a @ b) = (Ok (Some v), q, rest)"
  shows "resumes p a b"
proof (cases "read_length l a")
  case (LenMore acc)
  then show ?thesis using assms len_resumes_More by blast
next
  case (LenBad line a')
  then show ?thesis
    using assms read_length_append(2) [OF LenBad, of b] by (auto simp: parse.simps [of p] bulk_len_defs)
next
  case (LenGot line n a')
  then show ?thesis using assms len_resumes_Got by blast
qed

lemma scalar_resumes:
  assumes "scalar_state (state p)" "cut_ok a b" "parse p (a @ b) = (Ok (Some v), q, rest)"
  shows "resumes p a b"
  using assms
  by (cases "state p") (auto intro: line_resumes len_resumes data_resumes)

text \<open>The markers of the frames that hold no other frame and are longer than their marker's line.\<close>

definition scalar_marker :: "u8 \<Rightarrow> bool" where
  "scalar_marker c \<longleftrightarrow> c \<in> set (bstr ''+-:$,(!='')"

lemma scalar_marker_step:
  "scalar_marker c \<Longrightarrow> \<exists>s. (\<forall>buf. parse_type p (c # buf) = Continue (goto p s) buf) \<and> scalar_state s"
  by (auto simp: scalar_marker_def bstr_def)

lemma marker_resumes:
  assumes "state p = WaitingForType" "scalar_marker c" "cut_ok a b"
    and "parse p (c # a @ b) = (Ok (Some v), q, rest)"
  shows "resumes p (c # a) b"
proof -
  obtain s where s: "scalar_state s" "\<And>buf. parse_type p (c # buf) = Continue (goto p s) buf"
    using scalar_marker_step [OF assms(2)] by blast
  have steps: "step_state (state p) p (c # buf) = Iter (Continue (goto p s) buf)" for buf
    using assms(1) s(2) by simp
  then have "parse (goto p s) (a @ b) = (Ok (Some v), q, rest)"
    using assms(4) by (simp add: parse_Continue)
  then have "resumes (goto p s) a b"
    using s(1) assms(3) by (intro scalar_resumes) auto
  then show ?thesis
    using steps [of a] steps [of "a @ b"] by (intro resumes_Continue [of p "c # a" "goto p s" a b]) simp_all
qed

section \<open>Any number of chunks\<close>

lemma cut_ok_append: "cut_ok a (c @ b) \<Longrightarrow> cut_ok c b \<Longrightarrow> cut_ok (a @ c) b"
  by (cases "c = []") (auto simp: cut_ok_def)

lemma feed_scalar:
  assumes "scalar_state (state p)" "parse p (buf @ concat cs) = (Ok (Some v), q, rest)"
    and "cs \<noteq> []" "cut_ok buf (concat cs)" "cuts_ok cs"
  shows "feed p buf cs = (Ok (Some v), q, rest)"
  using assms
proof (induction cs arbitrary: p buf)
  case Nil
  then show ?case by simp
next
  case (Cons c cs)
  obtain r p' a' where call: "parse p (buf @ c) = (r, p', a')" using prod_cases3 by blast
  have cut: "cut_ok (buf @ c) (concat cs)" using Cons.prems(4,5) cut_ok_append by simp
  then have res: "resumes p (buf @ c) (concat cs)" using Cons.prems(1,2) scalar_resumes by simp
  show ?case
  proof (cases "r = Ok None")
    case True
    have p': "scalar_state (state p')" "parse p' (a' @ concat cs) = (Ok (Some v), q, rest)"
      using res call True Cons.prems(2) by (simp_all add: resumes_def)
    have cut': "cut_ok a' (concat cs)" using cut_ok_suffix [OF parse_suffix [OF call] cut] .
    have "cs \<noteq> []"
    proof
      assume "cs = []"
      then show False using Cons.prems(2) call True by simp
    qed
    then show ?thesis using Cons.IH [OF p'] cut' Cons.prems(5) call True by simp
  next
    case False
    then show ?thesis using res call Cons.prems(2) by (simp add: resumes_def)
  qed
qed

lemma feed_marker:
  assumes "state p = WaitingForType" "concat cs = m # s" "scalar_marker m"
    and "parse p (concat cs) = (Ok (Some v), q, rest)" "cuts_ok cs"
  shows "feed p [] cs = (Ok (Some v), q, rest)"
  using assms(2,4,5)
proof (induction cs)
  case Nil
  then show ?case by simp
next
  case (Cons c cs)
  show ?case
  proof (cases c)
    case Nil
    then show ?thesis using Cons assms(1) by (simp add: parse.simps [of p] parse_type_def)
  next
    case (Cons m' a)
    then have c: "c = m # a" using Cons.prems(1) by simp
    obtain r p' a' where call: "parse p c = (r, p', a')" using prod_cases3 by blast
    have cut: "cut_ok a (concat cs)" using cut_ok_suffix [of a c] c Cons.prems(3) by (simp add: suffix_ConsI)
    have whole: "parse p (m # a @ concat cs) = (Ok (Some v), q, rest)" using Cons.prems(2) c by simp
    have res: "resumes p c (concat cs)"
      unfolding c by (rule marker_resumes [OF assms(1) assms(3) cut whole])
    show ?thesis
    proof (cases "r = Ok None")
      case True
      have p': "scalar_state (state p')" "parse p' (a' @ concat cs) = (Ok (Some v), q, rest)"
        using res call True Cons.prems(2) by (simp_all add: resumes_def)
      have cut': "cut_ok a' (concat cs)"
        using cut_ok_suffix [OF parse_suffix [OF call]] Cons.prems(3) by simp
      have "cs \<noteq> []" using Cons.prems(2) call True by auto
      then show ?thesis using feed_scalar [OF p'] cut' Cons.prems(3) call True by simp
    next
      case False
      then show ?thesis using res call Cons.prems(2) by (simp add: resumes_def)
    qed
  qed
qed

section \<open>Collections cut between elements\<close>

context sequence_state
begin

lemma parse_some_elements:
  assumes "\<And>x rest. x \<in> set xs \<Longrightarrow> parse q (wire x @ rest) = (Ok (Some x), q, rest)"
    and "goto p WaitingForType = q" "state p = data_state (length xs + k) acc" "0 < k"
  shows "parse p (concat (map wire xs)) = (Ok None, goto q (data_state k (acc @ xs)), [])"
  using assms
proof (induction xs arbitrary: p acc)
  case Nil
  then have "state q = WaitingForType" by auto
  then have "parse q [] = (Ok None, q, [])" by (simp add: parse.simps [of q] parse_type_def)
  then show ?case using Nil by (simp add: parse.simps [of p] data_step incomplete_step)
next
  case (Cons x xs)
  then have q: "state q = WaitingForType" by auto
  have "parse p (concat (map wire (x # xs))) =
      parse (goto q (data_state (length xs + k) (acc @ [x]))) (concat (map wire xs))"
    using Cons.prems by (simp add: parse.simps [of p] data_step element_step)
  also have "\<dots> = (Ok None, goto q (data_state k ((acc @ [x]) @ xs)), [])"
    using Cons.prems q by (intro Cons.IH) auto
  finally show ?case by simp
qed

lemma feed_groups:
  assumes "\<And>x rest. x \<in> set (concat gs) \<Longrightarrow> parse q (wire x @ rest) = (Ok (Some x), q, rest)"
    and "goto p WaitingForType = q" "0 < current_depth q" "concat gs \<noteq> []"
    and "state p = data_state (length (concat gs)) acc"
  shows "feed p [] (map (concat \<circ> map wire) gs) =
     (Ok (Some (make (acc @ concat gs))), q\<lparr>current_depth := current_depth q - 1\<rparr>, [])"
  using assms
proof (induction gs arbitrary: p acc)
  case Nil
  then show ?case by simp
next
  case (Cons g gs)
  show ?case
  proof (cases "concat gs = []")
    case True
    then have "concat (map (concat \<circ> map wire) gs) = []" by auto
    moreover have "parse p (concat (map wire g) @ []) =
        (Ok (Some (make (acc @ g))), q\<lparr>current_depth := current_depth q - 1\<rparr>, [])"
      using Cons.prems True by (intro parse_elements) auto
    ultimately show ?thesis by (simp add: o_def True)
  next
    case False
    have q: "state q = WaitingForType" using Cons.prems(2) by auto
    have "parse p (concat (map wire g)) =
        (Ok None, goto q (data_state (length (concat gs)) (acc @ g)), [])"
      using Cons.prems False by (intro parse_some_elements) auto
    moreover have "feed (goto q (data_state (length (concat gs)) (acc @ g))) [] (map (concat \<circ> map wire) gs) =
        (Ok (Some (make ((acc @ g) @ concat gs))), q\<lparr>current_depth := current_depth q - 1\<rparr>, [])"
      using Cons.prems False q by (intro Cons.IH) auto
    ultimately show ?thesis by (simp add: o_def)
  qed
qed

lemma parse_header:
  assumes p: "parser_ready p" and n: "0 < n" "n \<le> max_array_len p" "current_depth p < max_depth p"
  shows "parse p (header type_byte n) =
    (Ok None, goto (p\<lparr>current_depth := Suc (current_depth p)\<rparr>) (data_state n []), [])"
proof -
  let ?q = "p\<lparr>current_depth := Suc (current_depth p)\<rparr>"
  have n': "n < 2 ^ 63" "\<not> value_capacity < n" using n p capacity_bounds by (simp_all add: parser_ready_def)
  have step1: "step_state (state p) p (header type_byte n) = Iter (Continue (goto p (len_state [])) (dec_string n @ CRLF))"
    using p by (simp add: header_def type_step parser_ready_def)
  have step2: "step_state (len_state []) (goto p (len_state [])) (dec_string n @ CRLF) =
      Iter (Continue (goto ?q (data_state n [])) [])"
    using n n'(2) len_step [OF n'(1), of "goto p (len_state [])" "[]"] by (simp add: open_collection_def)
  have "parse p (header type_byte n) = parse (goto ?q (data_state n [])) []"
    using parse_Continue [OF step1] parse_Continue [of "goto p (len_state [])"] step2 by simp
  also have "\<dots> = (Ok None, goto ?q (data_state n []), [])"
    using parse_some_elements [of "[]" ?q "goto ?q (data_state n [])" n "[]"] n p
    by (simp add: parser_ready_def)
  finally show ?thesis .
qed

lemma feed_collection:
  assumes p: "parser_ready p" and gs: "concat gs \<noteq> []"
    and n: "length (concat gs) \<le> max_array_len p" "current_depth p < max_depth p"
    and elem: "\<And>x. x \<in> set (concat gs) \<Longrightarrow> accepts (p\<lparr>current_depth := Suc (current_depth p)\<rparr>) x"
  shows "feed p [] (header type_byte (length (concat gs)) # map (concat \<circ> map wire) gs) =
    (Ok (Some (make (concat gs))), p, [])"
proof -
  let ?q = "p\<lparr>current_depth := Suc (current_depth p)\<rparr>" and ?n = "length (concat gs)"
  have q: "parser_ready ?q" using p by simp
  have w: "parse ?q (wire x @ rest) = (Ok (Some x), ?q, rest)" if "x \<in> set (concat gs)" for x rest
    using parse_wire [OF q elem [OF that]] .
  have "0 < ?n" using gs by blast
  then have head: "parse p (header type_byte ?n) = (Ok None, goto ?q (data_state ?n []), [])"
    using parse_header [OF p] n by blast
  have "feed (goto ?q (data_state ?n [])) [] (map (concat \<circ> map wire) gs) =
      (Ok (Some (make ([] @ concat gs))), ?q\<lparr>current_depth := current_depth ?q - 1\<rparr>, [])"
    using gs p w by (intro feed_groups) (auto simp: parser_ready_def)
  then show ?thesis using head p by (simp add: parser_ready_def)
qed

end

section \<open>Properties\<close>

text \<open>C5: a frame that is a line or a bulk payload may arrive in any number of chunks, cut anywhere
  but between a carriage return and its line feed: the read loop returns the encoded value, and
  what follows the frame is left. These are the simple strings, errors, integers, doubles, big
  numbers, bulk strings, bulk errors and verbatim strings (\<open>scalar_marker\<close>). A null or a boolean is
  lost when the cut is after its type byte (\<open>cut_after_marker_loses_it\<close>), and a collection loses the part
  of an element (\<open>cut_inside_element_drops_it\<close>).\<close>

theorem streaming_any_cut:
  assumes "parser_ready p" "accepts p v" "scalar_marker (marker v)"
    and "encode v [] = Inr bs" "concat cs = bs @ rest" "cuts_ok cs"
  shows "feed p [] cs = (Ok (Some v), p, rest)"
proof -
  have bs: "bs = wire v" using assms(4) by (simp add: encode_wire)
  then obtain s where s: "concat cs = marker v # s"
    using assms(5) hd_wire [of v] by (cases "wire v") auto
  have "parse p (concat cs) = (Ok (Some v), p, rest)"
    using parse_wire [OF assms(1,2)] assms(5) bs by simp
  then show ?thesis
    using feed_marker [OF _ s assms(3) _ assms(6)] assms(1) by (simp add: parser_ready_def)
qed

lemma streaming_any_cut_witness:
  "feed new_parser [] [[36, 51], [13, 10, 102], [111], [], [111, 13, 10, 43]] =
     (Ok (Some (BulkString (Some (bstr ''foo'')))), new_parser, [43])"
  by (rule streaming_any_cut [of _ _ "bstr ''$3'' @ CRLF @ bstr ''foo'' @ CRLF"])
    (simp_all add: accepts_def parser_ready_def new_parser_def scalar_marker_def bstr_def cut_ok_def
      dec_string.simps digit_byte_def)

text \<open>An array may arrive in any number of chunks cut between its elements, the header first:
  the read loop keeps the elements already parsed and returns the whole array.\<close>

theorem streaming_array_elements:
  assumes "parser_ready p" "accepts p (Array (Some (concat gs)))" "concat gs \<noteq> []"
  shows "feed p [] (header 42 (length (concat gs)) # map (concat \<circ> map wire) gs) =
    (Ok (Some (Array (Some (concat gs)))), p, [])"
proof -
  have "accepts (p\<lparr>current_depth := Suc (current_depth p)\<rparr>) x" if "x \<in> set (concat gs)" for x
    using accepts_seq_elem [of p "Array \<circ> Some" "concat gs" x] assms(2) that by simp
  then show ?thesis
    using array.feed_collection [of p gs] assms by (auto simp: accepts_def split: if_splits)
qed

lemma streaming_array_elements_witness:
  "feed new_parser [] [header 42 (Suc (Suc 0)), wire Null, wire (Integer 7)] =
     (Ok (Some (Array (Some [Null, Integer 7]))), new_parser, [])"
  using streaming_array_elements [of new_parser "[[Null], [Integer 7]]"]
  by (simp add: accepts_def new_parser_def parser_ready_def)

section \<open>Cuts that lose data\<close>



lemma partial_bulk:
  assumes "parser_ready p" "length s < n" "n \<le> max_bulk_size p"
  shows "parse p (header 36 n @ s) = (Ok None, goto p (BulkStringData n s), [])"
proof -
  have "n < 2 ^ 63" using assms by (simp add: parser_ready_def)
  then show ?thesis
    using assms by (simp add: header_def run_simps parser_ready_def read_payload_def)
qed

text \<open>A chunk that ends inside an element of an array drops the part of the element that was
  read: the parser waits for the same element from its start.\<close>

theorem cut_inside_element_drops_it:
  assumes "parser_ready p" "current_depth p < max_depth p" "0 < k" "k \<le> max_array_len p"
    and "length s < n" "n \<le> max_bulk_size p"
  shows "parse p (header 42 k @ header 36 n @ s) =
    (Ok None, p\<lparr>state := ArrayData k [], current_depth := Suc (current_depth p)\<rparr>, [])"
proof -
  let ?q = "p\<lparr>current_depth := Suc (current_depth p)\<rparr>"
  have k: "k < 2 ^ 63" "\<not> value_capacity < k" using assms capacity_bounds by (simp_all add: parser_ready_def)
  have inner: "parse ?q (header 36 n @ s) = (Ok None, goto ?q (BulkStringData n s), [])"
    using assms by (intro partial_bulk) simp_all
  have "parse p (header 42 k @ header 36 n @ s) = parse (goto ?q (ArrayData k [])) (header 36 n @ s)"
    using assms k(2) read_length_wire [OF k(1)] of_nat_i64 [OF k(1)]
    by (simp add: parse.simps [of p] parse.simps [of "goto p (ArrayLen [])"] parser_ready_def
        header_def [of 42] parse_array_len_def Let_def open_collection_def)
  also have "\<dots> = (Ok None, goto ?q (ArrayData k []), [])"
    using inner assms(1,3)
    by (simp add: parse.simps [of "goto ?q (ArrayData k [])"] parse_array_data_def parser_ready_def)
  finally show ?thesis by simp
qed

lemma cut_inside_element_drops_it_witness:
  "parse new_parser (header 42 1 @ header 36 3 @ [102]) =
    (Ok None, new_parser\<lparr>state := ArrayData 1 [], current_depth := 1\<rparr>, [])"
  using cut_inside_element_drops_it [of new_parser 1 "[102]" 3]
  by (simp add: parser_ready_def new_parser_def)

text \<open>A chunk that ends inside a null or a boolean loses its type byte, which is consumed while the parser
  stays in its initial state: when the rest of the frame arrives it is refused as a type byte.\<close>

theorem cut_after_marker_loses_it:
  assumes "parser_ready p"
  shows "length s < 2 \<Longrightarrow> parse p (95 # s) = (Ok None, p, s)" "length s < 3 \<Longrightarrow> parse p (35 # s) = (Ok None, p, s)"
    "parse p (CRLF @ rest) = (Err (InvalidTypeMarker 13), p, LF # rest)"
  using assms by (simp_all add: parse.simps [of p] parser_ready_def parse_type_def)

end
