(* ===== verification/Resp_Codec.thy ===== *)
theory Resp_Codec
  imports Resp_Streaming
begin

text \<open>
  The Tokio codec (\<open>crates/resp/src/codec.rs\<close>): a parser behind the \<open>Decoder\<close> interface and the
  encoder behind the \<open>Encoder\<close> interface. The locale \<open>framed_codec\<close> states what a framed
  connection relies on, whichever codec it has: an encoded frame decodes to its item and leaves
  what follows, and an empty buffer asks for more. In it, a pipeline of frames decodes to its
  items in order. The RESP codec interprets it.
\<close>

section \<open>The codec\<close>

record RespCodec =
  parser :: RespParser

definition codec_new :: RespCodec where
  "codec_new = \<lparr>parser = new_parser\<rparr>"

definition codec_with_max_bulk_size :: "RespCodec \<Rightarrow> usize \<Rightarrow> RespCodec" where
  "codec_with_max_bulk_size c sz = c\<lparr>parser := with_max_bulk_size (parser c) sz\<rparr>"

definition codec_with_max_array_len :: "RespCodec \<Rightarrow> usize \<Rightarrow> RespCodec" where
  "codec_with_max_array_len c len = c\<lparr>parser := with_max_array_len (parser c) len\<rparr>"

definition codec_with_max_depth :: "RespCodec \<Rightarrow> usize \<Rightarrow> RespCodec" where
  "codec_with_max_depth c depth = c\<lparr>parser := with_max_depth (parser c) depth\<rparr>"

definition codec_decode :: "RespCodec \<Rightarrow> bytes \<Rightarrow> parse_result \<times> RespCodec \<times> bytes" where
  "codec_decode c src =
     (case parse (parser c) src of (r, p', src') \<Rightarrow> (r, c\<lparr>parser := p'\<rparr>, src'))"

definition codec_encode :: "RespCodec \<Rightarrow> RespValue \<Rightarrow> bytes \<Rightarrow> ProtocolError + bytes" where
  "codec_encode c item dst = encode item dst"

section \<open>Framed connections\<close>

text \<open>The writing side sends items one after the other into one buffer.\<close>

fun send :: "('v \<Rightarrow> bytes \<Rightarrow> 'e + bytes) \<Rightarrow> 'v list \<Rightarrow> bytes \<Rightarrow> 'e + bytes" where
  "send enc [] buf = Inr buf"
| "send enc (v # vs) buf = res_bind (enc v buf) (send enc vs)"

text \<open>
  The reading side decodes until the decoder asks for more bytes or fails; at most \<open>n\<close> calls.
\<close>

fun drain ::
    "('c \<Rightarrow> bytes \<Rightarrow> parse_result \<times> 'c \<times> bytes) \<Rightarrow> nat \<Rightarrow> 'c \<Rightarrow> bytes \<Rightarrow>
     RespValue list \<times> parse_result \<times> 'c \<times> bytes" where
  "drain dec 0 c buf = ([], Ok None, c, buf)"
| "drain dec (Suc n) c buf =
     (case dec c buf of
        (Ok (Some v), c', buf') \<Rightarrow>
          (case drain dec n c' buf' of (vs, r, c'', buf'') \<Rightarrow> (v # vs, r, c'', buf''))
      | (r, c', buf') \<Rightarrow> ([], r, c', buf'))"

locale framed_codec =
  fixes enc :: "RespValue \<Rightarrow> bytes \<Rightarrow> 'e + bytes"
    and dec :: "'c \<Rightarrow> bytes \<Rightarrow> parse_result \<times> 'c \<times> bytes"
    and ready :: "'c \<Rightarrow> bool"
    and item_ok :: "'c \<Rightarrow> RespValue \<Rightarrow> bool"
    and frame_bytes :: "RespValue \<Rightarrow> bytes"
  assumes enc_appends: "enc v buf = Inr (buf @ frame_bytes v)"
    and dec_frame: "ready c \<Longrightarrow> item_ok c v \<Longrightarrow> dec c (frame_bytes v @ rest) = (Ok (Some v), c, rest)"
    and dec_empty: "ready c \<Longrightarrow> dec c [] = (Ok None, c, [])"
begin

lemma send_appends: "send enc vs buf = Inr (buf @ concat (map frame_bytes vs))"
  by (induction vs arbitrary: buf) (simp_all add: enc_appends)

lemma drain_frames:
  assumes "ready c" "\<And>v. v \<in> set vs \<Longrightarrow> item_ok c v"
  shows "drain dec (length vs + n) c (concat (map frame_bytes vs) @ rest) =
    (case drain dec n c rest of (ws, r, c', rest') \<Rightarrow> (vs @ ws, r, c', rest'))"
  using assms(2)
proof (induction vs)
  case Nil
  then show ?case by (simp split: prod.split)
next
  case (Cons v vs)
  then show ?case using dec_frame [OF assms(1)] by (simp split: prod.split)
qed

lemma pipeline:
  assumes "ready c" "\<And>v. v \<in> set vs \<Longrightarrow> item_ok c v" "send enc vs [] = Inr bs"
  shows "drain dec (Suc (length vs)) c bs = (vs, Ok None, c, [])"
  using drain_frames [OF assms(1,2), of vs 1 "[]"] dec_empty [OF assms(1)] assms(3)
  by (simp add: send_appends)

end

definition codec_ready :: "RespCodec \<Rightarrow> bool" where
  "codec_ready c \<longleftrightarrow> parser_ready (parser c)"

interpretation resp: framed_codec "codec_encode c\<^sub>0" codec_decode codec_ready "\<lambda>c. accepts (parser c)" wire
proof unfold_locales
  show "codec_encode c\<^sub>0 v buf = Inr (buf @ wire v)" for v buf
    by (simp add: codec_encode_def encode_wire)
  show "codec_decode c (wire v @ rest) = (Ok (Some v), c, rest)"
    if "codec_ready c" "accepts (parser c) v" for c v rest
    using that parse_wire by (simp add: codec_decode_def codec_ready_def)
  show "codec_decode c [] = (Ok None, c, [])" if "codec_ready c" for c
    using that by (simp add: codec_decode_def codec_ready_def parser_ready_def parse.simps parse_type_def)
qed

section \<open>Properties\<close>

text \<open>C11: pipelining. Any number of values encoded one after the other into one buffer decode, call
  by call, to the same values in the same order; then the decoder asks for more, with the codec
  unchanged and the buffer empty.\<close>

theorem codec_pipeline:
  assumes "codec_ready c" "\<And>v. v \<in> set vs \<Longrightarrow> accepts (parser c) v"
    and "send (codec_encode c) vs [] = Inr bs"
  shows "drain codec_decode (Suc (length vs)) c bs = (vs, Ok None, c, [])"
  using resp.pipeline assms by blast

lemma codec_pipeline_witness:
  "drain codec_decode (Suc (length [Null, Integer 1])) codec_new (wire Null @ wire (Integer 1)) =
     ([Null, Integer 1], Ok None, codec_new, [])"
proof (rule codec_pipeline)
  show "codec_ready codec_new" by (simp add: codec_ready_def codec_new_def)
  show "accepts (parser codec_new) v" if "v \<in> set [Null, Integer 1]" for v
    using that by (auto simp: accepts_def codec_new_def new_parser_def)
  show "send (codec_encode codec_new) [Null, Integer 1] [] = Inr (wire Null @ wire (Integer 1))"
    by (simp add: codec_encode_def encode_wire)
qed

end
