(* ===== verification/Resp_Command.thy ===== *)
theory Resp_Command
  imports Resp_Codec
begin

text \<open>
  Commands (\<open>crates/resp/src/command.rs\<close>): \<open>from_value\<close> and one parser per command.

  The command name goes through \<open>str::to_uppercase\<close>. Its ASCII part is written out; the Unicode
  table for the other characters is the parameter \<open>upper\<close>, which maps a code point to the code
  points of its uppercase form. No theorem about ASCII names depends on it.
\<close>

section \<open>Commands\<close>

datatype RespCommand =
    Get bytes
  | Set_cmd bytes bytes
  | Del "bytes list"
  | Exists "bytes list"
  | Ping "bytes option"

definition char_to_uppercase :: "(code_point \<Rightarrow> code_point list) \<Rightarrow> code_point \<Rightarrow> code_point list" where
  "char_to_uppercase upper c =
     (if 97 \<le> c \<and> c \<le> 122 then [c - 32] else if c < 128 then [c] else upper c)"

definition to_uppercase :: "(code_point \<Rightarrow> code_point list) \<Rightarrow> code_point list \<Rightarrow> code_point list" where
  "to_uppercase upper s = concat (map (char_to_uppercase upper) s)"

text \<open>The code points of an ASCII string literal.\<close>

definition str :: "string \<Rightarrow> code_point list" where
  "str s = map of_char s"

definition parse_get :: "RespValue list \<Rightarrow> ProtocolError + RespCommand" where
  "parse_get elements =
     (if length elements \<noteq> 2 then Inl (WrongArity ''GET'' 2 (length elements))
      else res_bind (ok_or (as_bytes (elements ! 1)) InvalidKey) (\<lambda>key. Inr (Get key)))"

definition parse_set :: "RespValue list \<Rightarrow> ProtocolError + RespCommand" where
  "parse_set elements =
     (if length elements \<noteq> 3 then Inl (WrongArity ''SET'' 3 (length elements))
      else res_bind (ok_or (as_bytes (elements ! 1)) InvalidKey) (\<lambda>key.
           res_bind (ok_or (as_bytes (elements ! 2)) InvalidValue) (\<lambda>value.
           Inr (Set_cmd key value))))"

definition parse_del :: "RespValue list \<Rightarrow> ProtocolError + RespCommand" where
  "parse_del elements =
     (if length elements < 2 then Inl (WrongArity ''DEL'' 2 (length elements))
      else res_bind (try_map (\<lambda>element. ok_or (as_bytes element) InvalidKey) (drop 1 elements))
             (\<lambda>keys. Inr (Del keys)))"

definition parse_exists :: "RespValue list \<Rightarrow> ProtocolError + RespCommand" where
  "parse_exists elements =
     (if length elements < 2 then Inl (WrongArity ''EXISTS'' 2 (length elements))
      else res_bind (try_map (\<lambda>element. ok_or (as_bytes element) InvalidKey) (drop 1 elements))
             (\<lambda>keys. Inr (Exists keys)))"

definition parse_ping :: "RespValue list \<Rightarrow> ProtocolError + RespCommand" where
  "parse_ping elements =
     (if length elements = 1 then Inr (Ping None)
      else if length elements = 2 then Inr (Ping (as_bytes (elements ! 1)))
      else Inl (WrongArity ''PING'' 2 (length elements)))"

definition from_value ::
    "(code_point \<Rightarrow> code_point list) \<Rightarrow> RespValue \<Rightarrow> ProtocolError + RespCommand" where
  "from_value upper value =
     res_bind (ok_or (into_array value) ExpectedArray) (\<lambda>elements.
     if elements = [] then Inl EmptyCommand
     else res_bind (ok_or (as_bytes (elements ! 0)) InvalidCommandName) (\<lambda>cmd_name.
     res_bind (ok_or (utf8_decode cmd_name) InvalidCommandName) (\<lambda>name.
     let cmd_str = to_uppercase upper name in
     if cmd_str = str ''GET'' then parse_get elements
     else if cmd_str = str ''SET'' then parse_set elements
     else if cmd_str = str ''DEL'' then parse_del elements
     else if cmd_str = str ''EXISTS'' then parse_exists elements
     else if cmd_str = str ''PING'' then parse_ping elements
     else Inl (UnknownCommand cmd_str))))"

section \<open>What a command is on the wire\<close>

fun command_name :: "RespCommand \<Rightarrow> string" where
  "command_name (Get _) = ''GET''"
| "command_name (Set_cmd _ _) = ''SET''"
| "command_name (Del _) = ''DEL''"
| "command_name (Exists _) = ''EXISTS''"
| "command_name (Ping _) = ''PING''"

fun command_args :: "RespCommand \<Rightarrow> bytes list" where
  "command_args (Get key) = [key]"
| "command_args (Set_cmd key val) = [key, val]"
| "command_args (Del keys) = keys"
| "command_args (Exists keys) = keys"
| "command_args (Ping m) = (case m of None \<Rightarrow> [] | Some x \<Rightarrow> [x])"

text \<open>\<open>DEL\<close> and \<open>EXISTS\<close> need a key.\<close>

fun command_ok :: "RespCommand \<Rightarrow> bool" where
  "command_ok (Del keys) \<longleftrightarrow> keys \<noteq> []"
| "command_ok (Exists keys) \<longleftrightarrow> keys \<noteq> []"
| "command_ok _ \<longleftrightarrow> True"

abbreviation bulk :: "bytes \<Rightarrow> RespValue" where
  "bulk b \<equiv> BulkString (Some b)"

text \<open>A request, with the command name spelled as the client likes.\<close>

definition request :: "bytes \<Rightarrow> RespCommand \<Rightarrow> RespValue" where
  "request name cmd = Array (Some (bulk name # map bulk (command_args cmd)))"

definition ascii_upper :: "u8 \<Rightarrow> u8" where
  "ascii_upper c = (if 97 \<le> c \<and> c \<le> 122 then c - 32 else c)"

section \<open>Names\<close>

lemma str_simps [simp]: "str [] = []" "str (c # s) = of_char c # str s"
  by (simp_all add: str_def)

lemma command_name_cases: "command_name cmd \<in> {''GET'', ''SET'', ''DEL'', ''EXISTS'', ''PING''}"
  by (cases cmd) simp_all

lemma ascii_upper_code_point:
  assumes "unat c < 128"
  shows "char_to_uppercase upper (unat c) = [unat (ascii_upper c)]"
proof -
  have "97 \<le> c \<longleftrightarrow> 97 \<le> unat c" "c \<le> 122 \<longleftrightarrow> unat c \<le> 122" by (simp_all add: word_le_nat_alt)
  moreover have "unat (c - 32) = unat c - 32" if "97 \<le> unat c"
    using that by (subst unat_sub) (simp_all add: word_le_nat_alt)
  ultimately show ?thesis using assms by (simp add: char_to_uppercase_def ascii_upper_def)
qed

lemma to_uppercase_ascii:
  "(\<And>c. c \<in> set s \<Longrightarrow> unat c < 128) \<Longrightarrow>
     to_uppercase upper (map unat s) = map (unat \<circ> ascii_upper) s"
  by (induction s) (simp_all add: to_uppercase_def ascii_upper_code_point)

lemma command_name_bytes:
  "str (command_name cmd) = map unat (bstr (command_name cmd))"
  "c \<in> set (bstr (command_name cmd)) \<Longrightarrow> unat c < 128"
  by (cases cmd; auto simp: bstr_def str_def)+

lemma spelled_ascii:
  assumes "map ascii_upper name = bstr (command_name cmd)" "c \<in> set name"
  shows "unat c < 128"
proof -
  have "ascii_upper c \<in> set (bstr (command_name cmd))" using assms by (metis image_eqI list.set_map)
  then have "unat (ascii_upper c) < 128" by (rule command_name_bytes)
  moreover have "c \<le> 122 \<Longrightarrow> unat c \<le> 122" by (simp add: word_le_nat_alt)
  ultimately show ?thesis by (auto simp: ascii_upper_def split: if_splits)
qed

lemma spelled_name:
  assumes "map ascii_upper name = bstr (command_name cmd)"
  shows "utf8_decode name = Some (map unat name)"
    and "to_uppercase upper (map unat name) = str (command_name cmd)"
proof -
  show "utf8_decode name = Some (map unat name)"
    using spelled_ascii [OF assms] by (intro utf8_decode_ascii) simp
  have "map (unat \<circ> ascii_upper) name = map unat (map ascii_upper name)" by simp
  then show "to_uppercase upper (map unat name) = str (command_name cmd)"
    using to_uppercase_ascii [of name upper] spelled_ascii [OF assms]
    by (simp only: assms command_name_bytes)
qed

lemma try_map_bulk: "try_map (\<lambda>e. ok_or (as_bytes e) InvalidKey) (map bulk keys) = Inr keys"
  by (induction keys) simp_all

lemmas command_parsers = parse_get_def parse_set_def parse_del_def parse_exists_def parse_ping_def

text \<open>Dispatch: a known name selects its parser.\<close>

lemma from_value_dispatch:
  assumes "as_bytes e = Some name" "utf8_decode name = Some cs" "to_uppercase upper cs = str n"
  shows "n = ''GET'' \<Longrightarrow> from_value upper (Array (Some (e # es))) = parse_get (e # es)"
    and "n = ''SET'' \<Longrightarrow> from_value upper (Array (Some (e # es))) = parse_set (e # es)"
    and "n = ''DEL'' \<Longrightarrow> from_value upper (Array (Some (e # es))) = parse_del (e # es)"
    and "n = ''EXISTS'' \<Longrightarrow> from_value upper (Array (Some (e # es))) = parse_exists (e # es)"
    and "n = ''PING'' \<Longrightarrow> from_value upper (Array (Some (e # es))) = parse_ping (e # es)"
  using assms by (simp_all add: from_value_def Let_def)

text \<open>The arguments a parsed command came from; \<open>PING\<close> ignores a message that is not a string.\<close>

fun args_match :: "RespCommand \<Rightarrow> RespValue list \<Rightarrow> bool" where
  "args_match (Ping m) es \<longleftrightarrow> es = [] \<and> m = None \<or> (\<exists>e. es = [e] \<and> m = as_bytes e)"
| "args_match cmd es \<longleftrightarrow> es \<noteq> [] \<and> map as_bytes es = map Some (command_args cmd)"

lemma try_map_as_bytes:
  "try_map (\<lambda>e. ok_or (as_bytes e) InvalidKey) es = Inr keys \<longleftrightarrow> map as_bytes es = map Some keys"
proof (induction es arbitrary: keys)
  case Nil
  then show ?case by auto
next
  case (Cons e es)
  then show ?case by (cases keys) (auto simp: res_bind_eq_Inr ok_or_eq_Inr)
qed

lemma parse_command_Inr:
  "parse_get (e # es) = Inr cmd \<longleftrightarrow> command_name cmd = ''GET'' \<and> args_match cmd es"
  "parse_set (e # es) = Inr cmd \<longleftrightarrow> command_name cmd = ''SET'' \<and> args_match cmd es"
  "parse_del (e # es) = Inr cmd \<longleftrightarrow> command_name cmd = ''DEL'' \<and> args_match cmd es"
  "parse_exists (e # es) = Inr cmd \<longleftrightarrow> command_name cmd = ''EXISTS'' \<and> args_match cmd es"
  "parse_ping (e # es) = Inr cmd \<longleftrightarrow> command_name cmd = ''PING'' \<and> args_match cmd es"
  by (cases cmd; auto simp: command_parsers res_bind_eq_Inr ok_or_eq_Inr try_map_as_bytes
      length_Suc_conv numeral_eq_Suc map_eq_Cons_conv)+

text \<open>The table of the protocol: how many elements a request has, and the number its arity error
  names. \<open>bad_key\<close> and \<open>bad_value\<close> say which of the arguments \<open>es\<close> have to be strings and are not.\<close>

definition command_names :: "string set" where
  "command_names = {''GET'', ''SET'', ''DEL'', ''EXISTS'', ''PING''}"

definition takes :: "string \<Rightarrow> nat \<Rightarrow> bool" where
  "takes n k \<longleftrightarrow> (n, k) \<in> {(''GET'', 2), (''SET'', 3), (''PING'', 1), (''PING'', 2)} \<or>
     n \<in> {''DEL'', ''EXISTS''} \<and> 2 \<le> k"

definition wanted :: "string \<Rightarrow> nat" where
  "wanted n = (if n = ''SET'' then 3 else 2)"

definition bad_key :: "string \<Rightarrow> RespValue list \<Rightarrow> bool" where
  "bad_key n es \<longleftrightarrow> n \<in> {''GET'', ''SET''} \<and> as_bytes (hd es) = None \<or>
     n \<in> {''DEL'', ''EXISTS''} \<and> None \<in> as_bytes ` set es"

definition bad_value :: "string \<Rightarrow> RespValue list \<Rightarrow> bool" where
  "bad_value n es \<longleftrightarrow> n = ''SET'' \<and> as_bytes (hd es) \<noteq> None \<and> as_bytes (hd (tl es)) = None"

definition name_of :: "RespValue \<Rightarrow> code_point list option" where
  "name_of e = Option.bind (as_bytes e) utf8_decode"

text \<open>The parser a known name selects.\<close>

definition parse_named :: "string \<Rightarrow> RespValue list \<Rightarrow> ProtocolError + RespCommand" where
  "parse_named n =
     (if n = ''GET'' then parse_get else if n = ''SET'' then parse_set else if n = ''DEL'' then parse_del
      else if n = ''EXISTS'' then parse_exists else parse_ping)"

lemma str_inj: "m \<in> command_names \<Longrightarrow> n \<in> command_names \<Longrightarrow> str m = str n \<longleftrightarrow> m = n"
  by (auto simp: command_names_def)

lemma from_value_unnamed:
  "name_of e = None \<Longrightarrow> from_value upper (Array (Some (e # es))) = Inl InvalidCommandName"
  by (cases "as_bytes e") (simp_all add: from_value_def name_of_def)

lemma from_value_unknown:
  "name_of e = Some cs \<Longrightarrow> to_uppercase upper cs \<notin> str ` command_names \<Longrightarrow>
     from_value upper (Array (Some (e # es))) = Inl (UnknownCommand (to_uppercase upper cs))"
  by (cases "as_bytes e") (simp_all add: from_value_def name_of_def command_names_def Let_def)

lemma from_value_named:
  assumes "name_of e = Some cs" "to_uppercase upper cs = str n" "n \<in> command_names"
  shows "from_value upper (Array (Some (e # es))) = parse_named n (e # es)"
proof -
  from assms(1) obtain name where "as_bytes e = Some name" "utf8_decode name = Some cs"
    by (cases "as_bytes e") (auto simp: name_of_def)
  note dispatch = from_value_dispatch [OF this assms(2), of es]
  from assms(3) consider "n = ''GET''" | "n = ''SET''" | "n = ''DEL''" | "n = ''EXISTS''" | "n = ''PING''"
    unfolding command_names_def by blast
  then show ?thesis by cases (simp_all only: parse_named_def dispatch, simp_all)
qed

text \<open>What each parser refuses.\<close>

lemma try_map_bad_key:
  "try_map (\<lambda>e. ok_or (as_bytes e) InvalidKey) es = Inl err \<longleftrightarrow> None \<in> as_bytes ` set es \<and> err = InvalidKey"
proof (induction es)
  case (Cons e es)
  then show ?case by (cases "as_bytes e") (auto simp: res_bind_eq_Inl)
qed simp

lemma parse_named_error:
  assumes "n \<in> command_names"
  shows "parse_named n (e # es) = Inl err \<longleftrightarrow>
    \<not> takes n (length es + 1) \<and> err = WrongArity n (wanted n) (length es + 1) \<or>
    takes n (length es + 1) \<and> bad_key n es \<and> err = InvalidKey \<or>
    takes n (length es + 1) \<and> bad_value n es \<and> err = InvalidValue"
  using assms unfolding command_names_def
  by (elim insertE emptyE)
    (auto simp: parse_named_def command_parsers takes_def wanted_def bad_key_def bad_value_def
      res_bind_eq_Inl ok_or_eq_Inl ok_or_eq_Inr try_map_bad_key length_Suc_conv numeral_eq_Suc Suc_le_eq)

section \<open>Properties\<close>

text \<open>Every command survives the trip through its request, whatever the casing of its name:
  an array of bulk strings with the name spelled in any mix of cases and the arguments in order
  parses to the command.\<close>

theorem request_round_trip:
  assumes "command_ok cmd" "map ascii_upper name = bstr (command_name cmd)"
  shows "from_value upper (request name cmd) = Inr cmd"
proof -
  note name = spelled_name [OF assms(2)]
  show ?thesis
  proof (cases cmd)
    case (Ping m)
    then show ?thesis
      using from_value_dispatch(5) [OF _ name] by (cases m) (simp_all add: request_def parse_ping_def)
  qed (use assms(1) from_value_dispatch [OF _ name] in
      \<open>simp_all add: request_def command_parsers try_map_bulk length_Suc_conv Suc_le_eq\<close>)
qed

lemma request_round_trip_witness:
  "from_value (\<lambda>c. [c]) (request (bstr ''sEt'') (Set_cmd [107] [118])) = Inr (Set_cmd [107] [118])"
  by (rule request_round_trip) (simp_all add: bstr_def ascii_upper_def)

text \<open>C10: exactly which values are commands. A value parses to a command if and only if it is an array
  whose first element is a string that uppercases to the command's name and whose other elements
  are its arguments: strings, as many as the command takes. A string is here whatever \<open>as_bytes\<close>
  reads: simple and bulk strings, as the error type and the protocol document have it, and also
  errors, big numbers, bulk errors and verbatim strings, which they do not allow
  (\<open>error_names_a_command\<close>).\<close>

theorem from_value_iff:
  "from_value upper v = Inr cmd \<longleftrightarrow>
     (\<exists>e es name cs. v = Array (Some (e # es)) \<and> as_bytes e = Some name \<and> utf8_decode name = Some cs \<and>
        to_uppercase upper cs = str (command_name cmd) \<and> args_match cmd es)"
proof
  assume "from_value upper v = Inr cmd"
  then obtain es' where v: "into_array v = Some es'" "es' \<noteq> []"
    by (auto simp: from_value_def res_bind_eq_Inr ok_or_eq_Inr split: if_splits)
  then obtain e es where es: "v = Array (Some (e # es))"
    by (cases v rule: into_array.cases; cases es') auto
  with \<open>from_value upper v = Inr cmd\<close> show "\<exists>e es name cs. v = Array (Some (e # es)) \<and>
      as_bytes e = Some name \<and> utf8_decode name = Some cs \<and>
      to_uppercase upper cs = str (command_name cmd) \<and> args_match cmd es"
    by (auto simp: from_value_def res_bind_eq_Inr ok_or_eq_Inr Let_def parse_command_Inr
        split: if_splits)
next
  assume "\<exists>e es name cs. v = Array (Some (e # es)) \<and> as_bytes e = Some name \<and>
      utf8_decode name = Some cs \<and> to_uppercase upper cs = str (command_name cmd) \<and> args_match cmd es"
  then show "from_value upper v = Inr cmd"
    using command_name_cases [of cmd]
    by (auto simp: from_value_def Let_def parse_command_Inr)
qed

text \<open>An array that starts with an error is a command, against the documentation of
  \<open>InvalidCommandName\<close>; so is one that starts with a big number or a verbatim string.\<close>

lemma error_names_a_command:
  "from_value upper (Array (Some [Error (bstr ''ping'')])) = Inr (Ping None)"
  "from_value upper (Array (Some [VerbatimString fmt (bstr ''ping'')])) = Inr (Ping None)"
  by (simp_all add: from_value_def bstr_def to_uppercase_def char_to_uppercase_def parse_ping_def)

text \<open>C16: exactly which requests are refused, and with which error. The table of the protocol says how
  many elements a request of each command has, its name included: two for \<open>GET\<close>, three for \<open>SET\<close>, at
  least two for \<open>DEL\<close> and \<open>EXISTS\<close>, one or two for \<open>PING\<close>. A value that is no array, an empty array, a
  name that is not a UTF-8 string and an unknown name each get their own error; a known name with a
  count the table does not allow gets \<open>WrongArity\<close> with the name, the table's count and the count of the
  request; with an allowed count, \<open>InvalidKey\<close> is the error exactly when a key is no string (the first
  argument of \<open>GET\<close> and \<open>SET\<close>, any argument of \<open>DEL\<close> and \<open>EXISTS\<close>) and \<open>InvalidValue\<close> exactly when the key
  of a \<open>SET\<close> is a string and its value is not. Nothing else is refused.\<close>

theorem from_value_error:
  "from_value upper v = Inl err \<longleftrightarrow>
     (\<nexists>es. v = Array (Some es)) \<and> err = ExpectedArray \<or>
     v = Array (Some []) \<and> err = EmptyCommand \<or>
     (\<exists>e es. v = Array (Some (e # es)) \<and>
       (name_of e = None \<and> err = InvalidCommandName \<or>
        (\<exists>cs. name_of e = Some cs \<and> to_uppercase upper cs \<notin> str ` command_names \<and>
           err = UnknownCommand (to_uppercase upper cs)) \<or>
        (\<exists>cs n. name_of e = Some cs \<and> to_uppercase upper cs = str n \<and> n \<in> command_names \<and>
          (\<not> takes n (length es + 1) \<and> err = WrongArity n (wanted n) (length es + 1) \<or>
           takes n (length es + 1) \<and> bad_key n es \<and> err = InvalidKey \<or>
           takes n (length es + 1) \<and> bad_value n es \<and> err = InvalidValue))))"
proof (cases "\<exists>e es. v = Array (Some (e # es))")
  case True
  then obtain e es where v: "v = Array (Some (e # es))" by blast
  show ?thesis
  proof (cases "name_of e")
    case None
    then show ?thesis by (auto simp: v from_value_unnamed)
  next
    case (Some cs)
    show ?thesis
    proof (cases "to_uppercase upper cs \<in> str ` command_names")
      case False
      with Some show ?thesis by (auto simp: v from_value_unknown)
    next
      case True
      then obtain n where n: "to_uppercase upper cs = str n" "n \<in> command_names" by auto
      note named = from_value_named [OF Some n, of es] parse_named_error [OF n(2), of e es]
      have "(\<exists>m. str n = str m \<and> m \<in> command_names \<and> P m) \<longleftrightarrow> P n" for P
        using str_inj [OF n(2)] n(2) by blast
      with Some True show ?thesis by (simp add: named v n(1))
    qed
  qed
next
  case False
  then show ?thesis by (cases v rule: into_array.cases) (auto simp: from_value_def neq_Nil_conv)
qed

lemma from_value_error_witness:
  "from_value (\<lambda>c. [c]) (Array (Some [bulk (bstr ''del''), bulk [107], Integer 1])) = Inl InvalidKey"
proof -
  have "name_of (bulk (bstr ''del'')) = Some [100, 101, 108]" by (simp add: bstr_def name_of_def)
  moreover have "to_uppercase (\<lambda>c. [c]) [100, 101, 108] = str ''DEL''"
    by (simp add: to_uppercase_def char_to_uppercase_def)
  moreover have "''DEL'' \<in> command_names" "takes ''DEL'' (length [bulk [107], Integer 1] + 1)"
    "bad_key ''DEL'' [bulk [107], Integer 1]"
    by (simp_all add: command_names_def takes_def bad_key_def)
  ultimately show ?thesis
    by (intro from_value_error [THEN iffD2, OF disjI2, OF disjI2] exI conjI)
      (rule refl, rule disjI2, rule disjI2, rule exI [of _ "[100, 101, 108]"], rule exI [of _ "''DEL''"], simp)
qed

text \<open>C9: a command sent over a connection arrives. The request is encoded, parsed and interpreted;
  the result is the command, and the bytes of the next request are untouched.\<close>

theorem command_over_the_wire:
  assumes "parser_ready p" "accepts p (request name cmd)" "command_ok cmd"
    and "map ascii_upper name = bstr (command_name cmd)" "encode (request name cmd) [] = Inr bs"
  shows "\<exists>v. parse p (bs @ rest) = (Ok (Some v), p, rest) \<and> from_value upper v = Inr cmd"
  using parse_wire [OF assms(1,2)] request_round_trip [OF assms(3,4)] assms(5) by (auto simp: encode_wire)

lemma command_over_the_wire_witness:
  "\<exists>v. parse new_parser (wire (request (bstr ''get'') (Get [107])) @ [9]) = (Ok (Some v), new_parser, [9]) \<and>
     from_value (\<lambda>c. [c]) v = Inr (Get [107])"
  by (rule command_over_the_wire [of _ "bstr ''get''"])
    (simp_all add: encode_wire accepts_def request_def new_parser_def bstr_def ascii_upper_def
      parser_ready_def)

text \<open>Command names are matched after full Unicode uppercasing, not only ASCII: where the Unicode
  table maps the long s (\<open>U+017F\<close>) to \<open>S\<close>, a name spelled with it is \<open>SET\<close>.\<close>

theorem long_s_is_set:
  assumes "upper 383 = [83]"
  shows "from_value upper (Array (Some [bulk (utf8_encode [383, 101, 116]), bulk k, bulk v])) =
    Inr (Set_cmd k v)"
proof -
  have "utf8_decode (utf8_encode [383, 101, 116]) = Some [383, 101, 116]"
    by (rule utf8_decode_encode) (auto simp: is_scalar_def)
  moreover have "to_uppercase upper [383, 101, 116] = str ''SET''"
    using assms by (simp add: to_uppercase_def char_to_uppercase_def)
  ultimately show ?thesis by (simp add: from_value_def Let_def parse_set_def)
qed

lemma long_s_is_set_witness:
  "from_value (\<lambda>c. if c = 383 then [83] else [c])
     (Array (Some [bulk (utf8_encode [383, 101, 116]), bulk [107], bulk [118]])) = Inr (Set_cmd [107] [118])"
  by (rule long_s_is_set) simp

end
