(* ===== verification/Resp_Inline.thy ===== *)
theory Resp_Inline
  imports Resp_Command
begin

text \<open>
  Inline (telnet-style) commands (\<open>crates/resp/src/inline.rs\<close>): the tokenizer's loop over the
  characters of the line, with its tokens, current token and quote state, and the parser that
  turns a line into an array of bulk strings. A \<open>String\<close> is its list of code points;
  \<open>Bytes::from(token)\<close> is its UTF-8 encoding.
\<close>

section \<open>The tokenizer\<close>

abbreviation (input) ch_space :: code_point where "ch_space \<equiv> 32"
abbreviation (input) ch_tab :: code_point where "ch_tab \<equiv> 9"
abbreviation (input) ch_dquote :: code_point where "ch_dquote \<equiv> 34"
abbreviation (input) ch_squote :: code_point where "ch_squote \<equiv> 39"
abbreviation (input) ch_backslash :: code_point where "ch_backslash \<equiv> 92"

text \<open>The characters an escape sequence stands for.\<close>

definition unescape :: "code_point \<Rightarrow> code_point list" where
  "unescape next_ch =
     (if next_ch = 110 then [10]
      else if next_ch = 116 then [9]
      else if next_ch = 114 then [13]
      else if next_ch = ch_backslash then [ch_backslash]
      else if next_ch = ch_dquote then [ch_dquote]
      else if next_ch = ch_squote then [ch_squote]
      else [ch_backslash, next_ch])"

record tokenizer =
  tokens :: "code_point list list"
  current_token :: "code_point list"
  in_quotes :: bool
  quote_char :: code_point

definition tokenizer_start :: tokenizer where
  "tokenizer_start = \<lparr>tokens = [], current_token = [], in_quotes = False, quote_char = 0\<rparr>"

definition push_token :: "tokenizer \<Rightarrow> tokenizer" where
  "push_token t = t\<lparr>tokens := tokens t @ [current_token t], current_token := []\<rparr>"

definition push_chars :: "code_point list \<Rightarrow> tokenizer \<Rightarrow> tokenizer" where
  "push_chars cs t = t\<lparr>current_token := current_token t @ cs\<rparr>"

fun split_loop :: "code_point list \<Rightarrow> tokenizer \<Rightarrow> tokenizer" where
  "split_loop [] t = t"
| "split_loop (ch # chars) t =
     (if (ch = ch_space \<or> ch = ch_tab) \<and> \<not> in_quotes t then
        split_loop chars (if current_token t = [] then t else push_token t)
      else if (ch = ch_dquote \<or> ch = ch_squote) \<and> \<not> in_quotes t then
        split_loop chars (t\<lparr>in_quotes := True, quote_char := ch\<rparr>)
      else if (ch = ch_dquote \<or> ch = ch_squote) \<and> in_quotes t \<and> ch = quote_char t then
        split_loop chars (push_token (t\<lparr>in_quotes := False, quote_char := 0\<rparr>))
      else if ch = ch_backslash \<and> in_quotes t then
        (case chars of
           next_ch # chars' \<Rightarrow> split_loop chars' (push_chars (unescape next_ch) t)
         | [] \<Rightarrow> push_chars [ch_backslash] t)
      else split_loop chars (push_chars [ch] t))"

definition split_inline_command :: "code_point list \<Rightarrow> ProtocolError + code_point list list" where
  "split_inline_command line =
     (let t = split_loop line tokenizer_start in
      if in_quotes t then Inl InvalidLength
      else let tokens = (if current_token t = [] then tokens t else tokens t @ [current_token t]) in
      if tokens = [] then Inl EmptyCommand else Inr tokens)"

section \<open>The parser\<close>

definition has_crlf_terminator :: "bytes \<Rightarrow> bool" where
  "has_crlf_terminator line \<longleftrightarrow>
     (let len = length line in 2 \<le> len \<and> line ! (len - 2) = CR \<and> line ! (len - 1) = LF)"

definition inline_parse :: "bytes \<Rightarrow> ProtocolError + RespValue" where
  "inline_parse line =
     (if length line < 2 then Inl InvalidLength
      else if \<not> has_crlf_terminator line then Inl InvalidLength
      else res_bind (ok_or (utf8_decode (take (length line - 2) line)) Utf8) (\<lambda>command_str.
           res_bind (split_inline_command command_str) (\<lambda>tokens.
           Inr (Array (Some (map (bulk \<circ> utf8_encode) tokens))))))"

section \<open>Reference definitions\<close>

text \<open>Splitting at spaces and tabs, without empty words.\<close>

definition is_blank :: "code_point \<Rightarrow> bool" where
  "is_blank c \<longleftrightarrow> c = ch_space \<or> c = ch_tab"

fun words_acc :: "code_point list \<Rightarrow> code_point list \<Rightarrow> code_point list list" where
  "words_acc w [] = (if w = [] then [] else [w])"
| "words_acc w (c # cs) =
     (if is_blank c then (if w = [] then words_acc [] cs else w # words_acc [] cs)
      else words_acc (w @ [c]) cs)"

definition words :: "code_point list \<Rightarrow> code_point list list" where
  "words = words_acc []"

definition is_quote :: "code_point \<Rightarrow> bool" where
  "is_quote c \<longleftrightarrow> c = ch_dquote \<or> c = ch_squote"

text \<open>A token written in double quotes, with the six escapes the tokenizer knows.\<close>

definition escape :: "code_point \<Rightarrow> code_point list" where
  "escape c =
     (if c = 10 then [ch_backslash, 110] else if c = 9 then [ch_backslash, 116]
      else if c = 13 then [ch_backslash, 114]
      else if c = ch_backslash \<or> c = ch_dquote \<or> c = ch_squote then [ch_backslash, c]
      else [c])"

definition quoted :: "code_point list \<Rightarrow> code_point list" where
  "quoted s = ch_dquote # concat (map escape s) @ [ch_dquote]"

fun quoted_line :: "code_point list list \<Rightarrow> code_point list" where
  "quoted_line [] = []"
| "quoted_line [s] = quoted s"
| "quoted_line (s # ss) = quoted s @ ch_space # quoted_line ss"

text \<open>The quoting of a line, as a grammar: outside quotes any character but a quote, and sections
  \<open>q body q\<close> between two equal quotes whose body has no \<open>q\<close> except after a backslash, and in which a
  backslash takes the next character with it.\<close>

inductive quoted_body :: "code_point \<Rightarrow> code_point list \<Rightarrow> bool" for q where
  body_end: "quoted_body q []"
| body_char: "c \<noteq> q \<Longrightarrow> c \<noteq> ch_backslash \<Longrightarrow> quoted_body q cs \<Longrightarrow> quoted_body q (c # cs)"
| body_escape: "quoted_body q cs \<Longrightarrow> quoted_body q (ch_backslash # c # cs)"

inductive well_quoted :: "code_point list \<Rightarrow> bool" where
  line_end: "well_quoted []"
| line_char: "\<not> is_quote c \<Longrightarrow> well_quoted cs \<Longrightarrow> well_quoted (c # cs)"
| line_section: "is_quote q \<Longrightarrow> quoted_body q body \<Longrightarrow> well_quoted cs \<Longrightarrow> well_quoted (q # body @ q # cs)"

inductive_simps well_quoted_simps: "well_quoted []" "well_quoted (c # cs)"
inductive_cases quoted_body_Cons: "quoted_body q (c # cs)"

section \<open>Lemmas\<close>

lemmas tokenizer_defs = push_token_def push_chars_def tokenizer_start_def

text \<open>The finished tokens and the one being read.\<close>

definition all_tokens :: "tokenizer \<Rightarrow> code_point list list" where
  "all_tokens t = tokens t @ (if current_token t = [] then [] else [current_token t])"

lemma split_loop_plain:
  assumes "\<not> in_quotes t" "\<not> is_quote c"
  shows "split_loop (c # cs) t = split_loop cs
    (if is_blank c then (if current_token t = [] then t else push_token t) else push_chars [c] t)"
  using assms by (cases "is_blank c") (simp_all add: is_blank_def is_quote_def)

lemma split_loop_no_quotes:
  assumes "\<And>c. c \<in> set cs \<Longrightarrow> \<not> is_quote c" "\<not> in_quotes t"
  shows "\<not> in_quotes (split_loop cs t) \<and>
    all_tokens (split_loop cs t) = tokens t @ words_acc (current_token t) cs"
  using assms
proof (induction cs arbitrary: t)
  case Nil
  then show ?case by (simp add: all_tokens_def)
next
  case (Cons c cs)
  define u where "u = (if is_blank c then (if current_token t = [] then t else push_token t)
    else push_chars [c] t)"
  have "split_loop (c # cs) t = split_loop cs u"
    unfolding u_def using Cons.prems by (intro split_loop_plain) simp_all
  moreover have "\<not> in_quotes u" using Cons.prems(2) by (simp add: u_def tokenizer_defs)
  moreover have "tokens u @ words_acc (current_token u) cs = tokens t @ words_acc (current_token t) (c # cs)"
    by (simp add: u_def tokenizer_defs)
  ultimately show ?case using Cons.IH [of u] Cons.prems(1) by simp
qed

lemma split_loop_escape:
  assumes "in_quotes t" "quote_char t = ch_dquote"
  shows "split_loop (concat (map escape s) @ cs) t = split_loop cs (push_chars s t)"
  using assms
proof (induction s arbitrary: t)
  case Nil
  then show ?case by (simp add: tokenizer_defs)
next
  case (Cons c s)
  have "split_loop (escape c @ cs') t = split_loop cs' (push_chars [c] t)" for cs'
    using Cons.prems by (auto simp: escape_def unescape_def)
  then show ?case
    using Cons.IH [of "push_chars [c] t"] Cons.prems by (simp add: tokenizer_defs)
qed

lemma split_loop_quoted:
  assumes "\<not> in_quotes t" "current_token t = []"
  shows "split_loop (quoted s @ cs) t =
    split_loop cs (t\<lparr>tokens := tokens t @ [s], quote_char := 0\<rparr>)"
  using assms by (cases t) (simp add: quoted_def split_loop_escape tokenizer_defs)

lemma split_loop_quoted_line:
  assumes "\<not> in_quotes t" "current_token t = []" "ss \<noteq> []"
  shows "split_loop (quoted_line ss) t = t\<lparr>tokens := tokens t @ ss, quote_char := 0\<rparr>"
  using assms
proof (induction ss arbitrary: t rule: quoted_line.induct)
  case (2 s)
  then show ?case using split_loop_quoted [of t s "[]"] by simp
next
  case (3 s s' ss)
  let ?u = "t\<lparr>tokens := tokens t @ [s], quote_char := 0\<rparr>"
  have "split_loop (quoted_line (s # s' # ss)) t = split_loop (quoted_line (s' # ss)) ?u"
    using 3 by (simp add: split_loop_quoted)
  then show ?case using "3.IH" [of ?u] "3.prems" by simp
qed simp

text \<open>Tokens are made of characters.\<close>

definition chars_ok :: "tokenizer \<Rightarrow> bool" where
  "chars_ok t \<longleftrightarrow> (\<forall>s \<in> set (tokens t). \<forall>c \<in> set s. is_scalar c) \<and> (\<forall>c \<in> set (current_token t). is_scalar c)"

lemma unescape_scalar: "is_scalar c \<Longrightarrow> x \<in> set (unescape c) \<Longrightarrow> is_scalar x"
  by (auto simp: unescape_def is_scalar_def split: if_splits)

lemma split_loop_scalar:
  "(\<And>c. c \<in> set cs \<Longrightarrow> is_scalar c) \<Longrightarrow> chars_ok t \<Longrightarrow> chars_ok (split_loop cs t)"
proof (induction cs t rule: split_loop.induct)
  case (1 t)
  then show ?case by simp
next
  case (2 ch chars t)
  have c: "is_scalar ch" "\<And>c. c \<in> set chars \<Longrightarrow> is_scalar c" "is_scalar ch_backslash"
    using "2.prems"(1) by (auto simp: is_scalar_def)
  have push: "chars_ok (push_token t)" "chars_ok (push_token (t\<lparr>in_quotes := False, quote_char := 0\<rparr>))"
    "chars_ok (t\<lparr>in_quotes := True, quote_char := ch\<rparr>)" "chars_ok (push_chars [ch] t)"
    "chars_ok (push_chars [ch_backslash] t)"
    "\<And>n. is_scalar n \<Longrightarrow> chars_ok (push_chars (unescape n) t)"
    using "2.prems"(2) c unescape_scalar by (auto simp: chars_ok_def tokenizer_defs)
  consider (blank) "(ch = ch_space \<or> ch = ch_tab) \<and> \<not> in_quotes t"
    | (qopen) "(ch = ch_dquote \<or> ch = ch_squote) \<and> \<not> in_quotes t"
    | (qclose) "(ch = ch_dquote \<or> ch = ch_squote) \<and> in_quotes t \<and> ch = quote_char t"
    | (escape) "ch = ch_backslash \<and> in_quotes t"
    | (other) "\<not> ((ch = ch_space \<or> ch = ch_tab) \<and> \<not> in_quotes t)"
        "\<not> ((ch = ch_dquote \<or> ch = ch_squote) \<and> \<not> in_quotes t)"
        "\<not> ((ch = ch_dquote \<or> ch = ch_squote) \<and> in_quotes t \<and> ch = quote_char t)"
        "\<not> (ch = ch_backslash \<and> in_quotes t)"
    by blast
  then show ?case
  proof cases
    case blank
    then show ?thesis using "2.IH"(1) [OF blank c(2)] "2.prems"(2) push by auto
  next
    case qopen
    then show ?thesis using "2.IH"(2) [OF _ qopen c(2)] push by auto
  next
    case qclose
    then show ?thesis using "2.IH"(3) [OF _ _ qclose c(2)] push by auto
  next
    case escape
    then show ?thesis
      using "2.IH"(4) push c(2) by (cases chars) auto
  next
    case other
    have "chars_ok (split_loop chars (push_chars [ch] t))"
      using "2.IH"(5) [OF other] c(2) push(4) by blast
    then show ?thesis using other by (simp only: split_loop.simps if_False)
  qed
qed

lemma split_inline_scalar:
  assumes "split_inline_command line = Inr toks" "\<And>c. c \<in> set line \<Longrightarrow> is_scalar c"
  shows "toks \<noteq> [] \<and> (\<forall>s \<in> set toks. \<forall>c \<in> set s. is_scalar c)"
proof -
  have "chars_ok (split_loop line tokenizer_start)"
    using assms(2) by (intro split_loop_scalar) (simp_all add: chars_ok_def tokenizer_start_def)
  then show ?thesis
    using assms(1) by (auto simp: split_inline_command_def Let_def chars_ok_def split: if_splits)
qed

lemma has_crlf_append [simp]: "has_crlf_terminator (s @ CRLF)"
  by (simp add: has_crlf_terminator_def nth_append)

lemma has_crlf_iff: "has_crlf_terminator line \<longleftrightarrow> (\<exists>s. line = s @ CRLF)"
proof
  assume crlf: "has_crlf_terminator line"
  then have n: "2 \<le> length line" by (simp add: has_crlf_terminator_def Let_def)
  have "drop (length line - 2) line = [line ! (length line - 2), line ! (length line - 1)]"
    using n by (simp add: Cons_nth_drop_Suc [symmetric] Suc_diff_Suc numeral_2_eq_2 Suc_le_eq)
  then have "line = take (length line - 2) line @ CRLF"
    using crlf append_take_drop_id [of "length line - 2" line]
    by (simp add: has_crlf_terminator_def Let_def)
  then show "\<exists>s. line = s @ CRLF" by blast
qed auto

lemma inline_parse_crlf:
  "inline_parse (s @ CRLF) =
     res_bind (ok_or (utf8_decode s) Utf8) (\<lambda>str. res_bind (split_inline_command str)
       (\<lambda>toks. Inr (Array (Some (map (bulk \<circ> utf8_encode) toks)))))"
  using has_crlf_append [of s] by (simp add: inline_parse_def)

lemma split_inline_no_quotes:
  assumes "\<And>c. c \<in> set line \<Longrightarrow> \<not> is_quote c"
  shows "split_inline_command line = (if words line = [] then Inl EmptyCommand else Inr (words line))"
proof -
  let ?t = "split_loop line tokenizer_start"
  have "\<not> in_quotes ?t" "all_tokens ?t = words line"
    using split_loop_no_quotes [of line tokenizer_start] assms
    by (simp_all add: tokenizer_start_def words_def)
  then show ?thesis
    by (auto simp: split_inline_command_def Let_def all_tokens_def split: if_splits)
qed

lemma split_inline_quoted: "ss \<noteq> [] \<Longrightarrow> split_inline_command (quoted_line ss) = Inr ss"
  using split_loop_quoted_line [of tokenizer_start ss]
  by (simp add: split_inline_command_def tokenizer_start_def)

lemma escape_scalar: "is_scalar c \<Longrightarrow> x \<in> set (escape c) \<Longrightarrow> is_scalar x"
  by (auto simp: escape_def is_scalar_def split: if_splits)

lemma quoted_scalar: "(\<And>c. c \<in> set s \<Longrightarrow> is_scalar c) \<Longrightarrow> x \<in> set (quoted s) \<Longrightarrow> is_scalar x"
proof -
  assume "\<And>c. c \<in> set s \<Longrightarrow> is_scalar c" "x \<in> set (quoted s)"
  moreover have "is_scalar ch_dquote" by (simp add: is_scalar_def)
  ultimately show ?thesis using escape_scalar by (auto simp: quoted_def)
qed

lemma quoted_line_scalar:
  "(\<And>s c. s \<in> set ss \<Longrightarrow> c \<in> set s \<Longrightarrow> is_scalar c) \<Longrightarrow> x \<in> set (quoted_line ss) \<Longrightarrow> is_scalar x"
proof (induction ss rule: quoted_line.induct)
  case (2 s)
  then show ?case using quoted_scalar [of s x] by simp
next
  case (3 s s' ss)
  have sp: "is_scalar ch_space" by (simp add: is_scalar_def)
  consider "x \<in> set (quoted s)" | "x = ch_space" | "x \<in> set (quoted_line (s' # ss))"
    using "3.prems"(2) by auto
  then show ?case
  proof cases
    case 1
    then show ?thesis using quoted_scalar [of s x] "3.prems"(1) [of s] by simp
  next
    case 2
    then show ?thesis using sp by simp
  next
    case 3
    then show ?thesis using "3.IH" "3.prems"(1) by (metis list.set_intros(2))
  qed
qed simp

lemma inline_parse_quoted:
  assumes "ss \<noteq> []" "\<And>s c. s \<in> set ss \<Longrightarrow> c \<in> set s \<Longrightarrow> is_scalar c"
  shows "inline_parse (utf8_encode (quoted_line ss) @ CRLF) =
    Inr (Array (Some (map (bulk \<circ> utf8_encode) ss)))"
proof -
  have "utf8_decode (utf8_encode (quoted_line ss)) = Some (quoted_line ss)"
    using quoted_line_scalar assms(2) by (intro utf8_decode_encode) blast
  then show ?thesis using split_inline_quoted [OF assms(1)] by (simp add: inline_parse_crlf)
qed

section \<open>Properties\<close>

text \<open>C13: a line without quotes is split into its words: the tokens are the maximal runs of characters
  other than space and tab, and a line of blanks only is \<open>EmptyCommand\<close>.\<close>

theorem inline_words:
  assumes "\<And>c. c \<in> set line \<Longrightarrow> is_scalar c \<and> \<not> is_quote c"
  shows "inline_parse (utf8_encode line @ CRLF) =
    (if words line = [] then Inl EmptyCommand
     else Inr (Array (Some (map (bulk \<circ> utf8_encode) (words line)))))"
  using assms utf8_decode_encode [of line] split_inline_no_quotes [of line]
  by (simp add: inline_parse_crlf)

lemma inline_words_witness:
  "inline_parse (utf8_encode [32, 97, 98, 9, 32, 99] @ CRLF) =
     (if words [32, 97, 98, 9, 32, 99] = [] then Inl EmptyCommand
      else Inr (Array (Some (map (bulk \<circ> utf8_encode) (words [32, 97, 98, 9, 32, 99])))))"
  by (rule inline_words) (auto simp: is_scalar_def is_quote_def)

text \<open>C12: quoting is faithful. Any non-empty list of strings, empty strings and strings with blanks,
  quotes, backslashes and control characters included, written as double-quoted tokens with
  escapes, parses back to exactly those strings.\<close>

theorem inline_quoted_round_trip:
  assumes "ss \<noteq> []" "\<And>s c. s \<in> set ss \<Longrightarrow> c \<in> set s \<Longrightarrow> is_scalar c"
  shows "inline_parse (utf8_encode (quoted_line ss) @ CRLF) =
    Inr (Array (Some (map (bulk \<circ> utf8_encode) ss)))"
  using inline_parse_quoted [OF assms] .

lemma inline_quoted_round_trip_witness:
  "inline_parse (utf8_encode (quoted_line [[34, 32, 92], [], [233]]) @ CRLF) =
     Inr (Array (Some (map (bulk \<circ> utf8_encode) [[34, 32, 92], [], [233]])))"
  by (rule inline_quoted_round_trip) (auto simp: is_scalar_def)

text \<open>C14: an accepted line is a well-formed request: a non-empty array of bulk strings whose command
  name is valid UTF-8, so interpreting it as a command can only fail on an unknown name or a wrong
  number of arguments.\<close>

theorem inline_accepted_is_request:
  assumes "inline_parse line = Inr v"
  shows "(\<exists>toks. toks \<noteq> [] \<and> v = Array (Some (map bulk toks))) \<and>
    (\<forall>upper err. from_value upper v = Inl err \<longrightarrow>
       (\<exists>n. err = UnknownCommand n) \<or> (\<exists>n want got. err = WrongArity n want got))"
proof -
  obtain s cs toks where "line = s @ CRLF" and cs: "utf8_decode s = Some cs"
    and toks: "split_inline_command cs = Inr toks" and v: "v = Array (Some (map (bulk \<circ> utf8_encode) toks))"
    using assms has_crlf_iff [of line]
    by (auto simp: inline_parse_def res_bind_eq_Inr ok_or_eq_Inr split: if_splits)
  have ok: "toks \<noteq> []" "\<And>s c. s \<in> set toks \<Longrightarrow> c \<in> set s \<Longrightarrow> is_scalar c"
    using split_inline_scalar [OF toks] utf8_encode_decode [OF cs] by auto
  then obtain t ts where t: "toks = t # ts" by (cases toks) auto
  have name: "utf8_decode (utf8_encode t) = Some t"
    using ok(2) [of t] t by (intro utf8_decode_encode) simp
  have keys: "try_map (\<lambda>e. ok_or (as_bytes e) InvalidKey) (map (bulk \<circ> f) xs) = Inr (map f xs)"
    for f and xs :: "code_point list list"
    using try_map_bulk [of "map f xs"] by simp
  have "(\<exists>n. err = UnknownCommand n) \<or> (\<exists>n want got. err = WrongArity n want got)"
    if "from_value upper v = Inl err" for upper err
    using that v t name keys
    by (auto simp: from_value_def Let_def command_parsers length_Suc_conv numeral_eq_Suc
        split: if_splits)
  moreover have "v = Array (Some (map bulk (map utf8_encode toks)))" using v by simp
  ultimately show ?thesis using ok(1) by blast
qed

lemma inline_accepted_is_request_witness:
  "\<exists>v. inline_parse (utf8_encode (quoted_line [[71]]) @ CRLF) = Inr v \<and>
     (\<exists>toks. toks \<noteq> [] \<and> v = Array (Some (map bulk toks)))"
proof -
  have "inline_parse (utf8_encode (quoted_line [[71]]) @ CRLF) =
      Inr (Array (Some (map (bulk \<circ> utf8_encode) [[71]])))"
    by (rule inline_parse_quoted) (auto simp: is_scalar_def)
  with inline_accepted_is_request [OF this] show ?thesis by blast
qed

text \<open>The loop and the grammar. A section that is open needs a body and its closing quote.\<close>

definition closes :: "code_point \<Rightarrow> code_point list \<Rightarrow> bool" where
  "closes q cs \<longleftrightarrow> (\<exists>body rest. cs = body @ q # rest \<and> quoted_body q body \<and> well_quoted rest)"

lemma closes_simps:
  assumes "is_quote q"
  shows "\<not> closes q []" "closes q (q # cs) \<longleftrightarrow> well_quoted cs"
    "\<not> closes q [ch_backslash]" "closes q (ch_backslash # c # cs) \<longleftrightarrow> closes q cs"
    "c \<noteq> q \<Longrightarrow> c \<noteq> ch_backslash \<Longrightarrow> closes q (c # cs) \<longleftrightarrow> closes q cs"
proof -
  have q: "q \<noteq> ch_backslash" using assms by (auto simp: is_quote_def)
  show "\<not> closes q []" "closes q (q # cs) \<longleftrightarrow> well_quoted cs" "\<not> closes q [ch_backslash]"
    "closes q (ch_backslash # c # cs) \<longleftrightarrow> closes q cs"
    "c \<noteq> q \<Longrightarrow> c \<noteq> ch_backslash \<Longrightarrow> closes q (c # cs) \<longleftrightarrow> closes q cs"
    using q
    by (auto simp: closes_def Cons_eq_append_conv intro: quoted_body.intros elim!: quoted_body_Cons)
qed

lemma well_quoted_Cons:
  "well_quoted (c # cs) \<longleftrightarrow> (if is_quote c then closes c cs else well_quoted cs)"
  by (auto simp: well_quoted_simps closes_def)

text \<open>One step of the loop for each kind of character, and induction along the steps.\<close>

definition quote_ok :: "tokenizer \<Rightarrow> bool" where
  "quote_ok t \<longleftrightarrow> (in_quotes t \<longrightarrow> is_quote (quote_char t))"

lemma split_loop_steps:
  "\<not> in_quotes t \<Longrightarrow> is_blank c \<Longrightarrow>
     split_loop (c # cs) t = split_loop cs (if current_token t = [] then t else push_token t)"
  "\<not> in_quotes t \<Longrightarrow> is_quote c \<Longrightarrow>
     split_loop (c # cs) t = split_loop cs (t\<lparr>in_quotes := True, quote_char := c\<rparr>)"
  "\<not> in_quotes t \<Longrightarrow> \<not> is_blank c \<Longrightarrow> \<not> is_quote c \<Longrightarrow> split_loop (c # cs) t = split_loop cs (push_chars [c] t)"
  "in_quotes t \<Longrightarrow> quote_ok t \<Longrightarrow> c = quote_char t \<Longrightarrow>
     split_loop (c # cs) t = split_loop cs (push_token (t\<lparr>in_quotes := False, quote_char := 0\<rparr>))"
  "in_quotes t \<Longrightarrow> quote_ok t \<Longrightarrow> split_loop [ch_backslash] t = push_chars [ch_backslash] t"
  "in_quotes t \<Longrightarrow> quote_ok t \<Longrightarrow>
     split_loop (ch_backslash # c # cs) t = split_loop cs (push_chars (unescape c) t)"
  "in_quotes t \<Longrightarrow> c \<noteq> quote_char t \<Longrightarrow> c \<noteq> ch_backslash \<Longrightarrow>
     split_loop (c # cs) t = split_loop cs (push_chars [c] t)"
  by (auto simp: is_blank_def is_quote_def quote_ok_def)

declare split_loop.simps(2) [simp del]

lemma quote_ok_quote: "quote_ok t \<Longrightarrow> in_quotes t \<Longrightarrow> is_quote (quote_char t)"
  by (simp add: quote_ok_def)

lemma push_simps [simp]:
  "in_quotes (push_token t) = in_quotes t" "quote_char (push_token t) = quote_char t"
  "in_quotes (push_chars cs t) = in_quotes t" "quote_char (push_chars cs t) = quote_char t"
  "all_tokens (push_token t) \<noteq> []"
  "all_tokens (push_chars cs t) = [] \<longleftrightarrow> all_tokens t = [] \<and> cs = []"
  "all_tokens (t\<lparr>in_quotes := b, quote_char := q\<rparr>) = all_tokens t"
  by (simp_all add: tokenizer_defs all_tokens_def)

lemma quote_ok_steps:
  "quote_ok t \<Longrightarrow> quote_ok (push_token t)" "quote_ok t \<Longrightarrow> quote_ok (push_chars cs t)"
  "is_quote c \<Longrightarrow> quote_ok (t\<lparr>in_quotes := True, quote_char := c\<rparr>)"
  "quote_ok (push_token (t\<lparr>in_quotes := False, quote_char := 0\<rparr>))"
  by (simp_all add: quote_ok_def tokenizer_defs)

lemma split_loop_step_induct [consumes 1, case_names finish blank start plain closing lone escaped inner]:
  assumes "quote_ok t"
    and "\<And>t. quote_ok t \<Longrightarrow> P [] t"
    and "\<And>c cs t. \<lbrakk>quote_ok t; \<not> in_quotes t; is_blank c; P cs (if current_token t = [] then t else push_token t)\<rbrakk>
      \<Longrightarrow> P (c # cs) t"
    and "\<And>c cs t. \<lbrakk>quote_ok t; \<not> in_quotes t; is_quote c; P cs (t\<lparr>in_quotes := True, quote_char := c\<rparr>)\<rbrakk>
      \<Longrightarrow> P (c # cs) t"
    and "\<And>c cs t. \<lbrakk>quote_ok t; \<not> in_quotes t; \<not> is_blank c; \<not> is_quote c; P cs (push_chars [c] t)\<rbrakk>
      \<Longrightarrow> P (c # cs) t"
    and "\<And>c cs t. \<lbrakk>quote_ok t; in_quotes t; c = quote_char t;
        P cs (push_token (t\<lparr>in_quotes := False, quote_char := 0\<rparr>))\<rbrakk> \<Longrightarrow> P (c # cs) t"
    and "\<And>t. \<lbrakk>quote_ok t; in_quotes t\<rbrakk> \<Longrightarrow> P [ch_backslash] t"
    and "\<And>c cs t. \<lbrakk>quote_ok t; in_quotes t; P cs (push_chars (unescape c) t)\<rbrakk> \<Longrightarrow> P (ch_backslash # c # cs) t"
    and "\<And>c cs t. \<lbrakk>quote_ok t; in_quotes t; c \<noteq> quote_char t; c \<noteq> ch_backslash; P cs (push_chars [c] t)\<rbrakk>
      \<Longrightarrow> P (c # cs) t"
  shows "P cs t"
  using assms(1)
proof (induction cs arbitrary: t rule: length_induct)
  case (1 cs)
  have IH: "P ds u" if "length ds < length cs" "quote_ok u" for ds u using 1 that by blast
  show ?case
  proof (cases cs)
    case Nil
    with 1 assms(2) show ?thesis by simp
  next
    case (Cons c ds)
    then have following: "P ds u" if "quote_ok u" for u using IH [of ds u] that by simp
    have after: "P (tl ds) u" if "quote_ok u" for u using IH [of "tl ds" u] that Cons by simp
    have t: "quote_ok t" using 1 by blast
    show ?thesis
    proof (cases "in_quotes t")
      case False
      with t show ?thesis unfolding Cons
        by (cases "is_quote c"; cases "is_blank c"; cases "current_token t = []")
          (simp_all add: assms following quote_ok_steps)
    next
      case True
      with t show ?thesis unfolding Cons
        using assms(6) [OF t True _ following] assms(7) [OF t True] assms(8) [OF t True after]
          assms(9) [OF t True _ _ following]
        by (cases "c = quote_char t"; cases "c = ch_backslash"; cases ds) (auto simp: quote_ok_steps)
    qed
  qed
qed

lemma split_loop_closed:
  assumes "quote_ok t"
  shows "\<not> in_quotes (split_loop cs t) \<longleftrightarrow>
    (if in_quotes t then closes (quote_char t) cs else well_quoted cs)"
  using assms
proof (induction cs t rule: split_loop_step_induct)
  case (blank c cs t)
  then have "\<not> is_quote c" by (auto simp: is_blank_def is_quote_def)
  with blank show ?case by (cases "current_token t = []") (simp_all add: split_loop_steps well_quoted_Cons)
qed (simp_all add: split_loop_steps well_quoted_Cons closes_simps quote_ok_quote line_end)

lemma split_loop_token_kept:
  assumes "quote_ok t" "all_tokens t \<noteq> [] \<or> in_quotes t \<and> \<not> in_quotes (split_loop cs t)"
  shows "all_tokens (split_loop cs t) \<noteq> []"
  using assms
proof (induction cs t rule: split_loop_step_induct)
  case (blank c cs t)
  then show ?case by (cases "current_token t = []") (simp_all add: split_loop_steps)
next
  case (escaped c cs t)
  have "unescape c \<noteq> []" by (simp add: unescape_def)
  with escaped show ?case by (simp add: split_loop_steps)
qed (auto simp: split_loop_steps)

lemma split_loop_blank:
  assumes "quote_ok t" "\<not> in_quotes t" "\<not> in_quotes (split_loop cs t)" "all_tokens t = []"
  shows "all_tokens (split_loop cs t) = [] \<longleftrightarrow> set cs \<subseteq> {ch_space, ch_tab}"
  using assms
proof (induction cs t rule: split_loop_step_induct)
  case (blank c cs t)
  then show ?case by (auto simp: split_loop_steps all_tokens_def is_blank_def split: if_splits)
next
  case (start c cs t)
  then show ?case
    using split_loop_token_kept [of "t\<lparr>in_quotes := True, quote_char := c\<rparr>" cs]
    by (auto simp: split_loop_steps is_quote_def quote_ok_steps)
next
  case (plain c cs t)
  then show ?case
    using split_loop_token_kept [of "push_chars [c] t" cs]
    by (auto simp: split_loop_steps is_blank_def quote_ok_steps)
qed auto

lemma blank_well_quoted: "set cs \<subseteq> {ch_space, ch_tab} \<Longrightarrow> well_quoted cs"
  by (induction cs) (auto simp: line_end line_char is_quote_def)

lemma split_inline_error:
  "split_inline_command cs = Inl e \<longleftrightarrow>
     \<not> well_quoted cs \<and> e = InvalidLength \<or> set cs \<subseteq> {ch_space, ch_tab} \<and> e = EmptyCommand"
proof -
  let ?t = "split_loop cs tokenizer_start"
  have quotes: "in_quotes ?t \<longleftrightarrow> \<not> well_quoted cs"
    using split_loop_closed [of tokenizer_start cs] by (auto simp: tokenizer_start_def quote_ok_def)
  have blank: "all_tokens ?t = [] \<longleftrightarrow> set cs \<subseteq> {ch_space, ch_tab}" if "well_quoted cs"
    using split_loop_blank [of tokenizer_start cs] quotes that
    by (simp add: tokenizer_start_def all_tokens_def quote_ok_def)
  have "split_inline_command cs = Inl e \<longleftrightarrow>
      in_quotes ?t \<and> e = InvalidLength \<or> \<not> in_quotes ?t \<and> all_tokens ?t = [] \<and> e = EmptyCommand"
    by (auto simp: split_inline_command_def Let_def all_tokens_def)
  then show ?thesis using quotes blank blank_well_quoted by blast
qed

text \<open>C15: exactly which lines are refused, and with which error. A line that does not end in CRLF is
  \<open>InvalidLength\<close>; one that is not UTF-8 is \<open>Utf8\<close>; one whose quotes do not match, so that it is not
  built of plain characters and closed quoted sections, is \<open>InvalidLength\<close>; one that holds nothing but
  spaces and tabs is \<open>EmptyCommand\<close>; every other line is accepted.\<close>

theorem inline_error_cause:
  "inline_parse line = Inl err \<longleftrightarrow>
     (\<nexists>s. line = s @ CRLF) \<and> err = InvalidLength \<or>
     (\<exists>s. line = s @ CRLF \<and>
        (utf8_decode s = None \<and> err = Utf8 \<or>
         (\<exists>cs. utf8_decode s = Some cs \<and>
            (\<not> well_quoted cs \<and> err = InvalidLength \<or>
             set cs \<subseteq> {ch_space, ch_tab} \<and> err = EmptyCommand))))"
proof (cases "\<exists>s. line = s @ CRLF")
  case True
  then obtain s where line: "line = s @ CRLF" by blast
  show ?thesis
    unfolding line inline_parse_crlf
    by (cases "utf8_decode s") (auto simp: res_bind_eq_Inl split_inline_error)
next
  case False
  then show ?thesis using has_crlf_iff [of line] by (auto simp: inline_parse_def)
qed

end
