(* ===== verification/Buffer_Pool.thy ===== *)
theory Buffer_Pool
  imports Prelude
begin

text \<open>
  The pool of reusable output buffers (\<open>crates/resp/src/buffer_pool.rs\<close>). A \<open>BytesMut\<close> is its
  contents and its capacity. How much \<open>BytesMut::with_capacity\<close> really allocates belongs to the
  \<open>bytes\<close> crate and is the parameter \<open>alloc\<close>; the crate documents that it is at least what was
  asked for (\<open>alloc_ok\<close>). \<open>clear\<close> empties a buffer and keeps its capacity.
\<close>

section \<open>The pool\<close>

record BytesMut =
  contents :: bytes
  capacity :: usize

record BufferPool =
  buffers :: "BytesMut list"
  default_capacity :: usize
  max_pool_size :: usize

definition DEFAULT_BUFFER_CAPACITY :: usize where
  "DEFAULT_BUFFER_CAPACITY = 4096"

definition DEFAULT_MAX_POOL_SIZE :: usize where
  "DEFAULT_MAX_POOL_SIZE = 100"

definition pool_new :: "usize \<Rightarrow> BufferPool" where
  "pool_new cap = \<lparr>buffers = [], default_capacity = cap, max_pool_size = DEFAULT_MAX_POOL_SIZE\<rparr>"

definition pool_with_capacity :: "usize \<Rightarrow> usize \<Rightarrow> BufferPool" where
  "pool_with_capacity cap max_size =
     \<lparr>buffers = [], default_capacity = cap, max_pool_size = max_size\<rparr>"

definition pool_default :: BufferPool where
  "pool_default = pool_new DEFAULT_BUFFER_CAPACITY"

definition bytesmut_clear :: "BytesMut \<Rightarrow> BytesMut" where
  "bytesmut_clear buf = buf\<lparr>contents := []\<rparr>"

text \<open>\<open>Vec::pop\<close> takes the last buffer.\<close>

definition acquire :: "(usize \<Rightarrow> usize) \<Rightarrow> BufferPool \<Rightarrow> BytesMut \<times> BufferPool" where
  "acquire alloc pool =
     (if buffers pool = [] then (\<lparr>contents = [], capacity = alloc (default_capacity pool)\<rparr>, pool)
      else (last (buffers pool), pool\<lparr>buffers := butlast (buffers pool)\<rparr>))"

definition release :: "BufferPool \<Rightarrow> BytesMut \<Rightarrow> BufferPool" where
  "release pool buf =
     (if capacity buf < default_capacity pool then pool
      else if max_pool_size pool \<le> length (buffers pool) then pool
      else pool\<lparr>buffers := buffers pool @ [bytesmut_clear buf]\<rparr>)"

section \<open>Use of the pool\<close>

definition alloc_ok :: "(usize \<Rightarrow> usize) \<Rightarrow> bool" where
  "alloc_ok alloc \<longleftrightarrow> (\<forall>n. n \<le> alloc n)"

definition pool_inv :: "BufferPool \<Rightarrow> bool" where
  "pool_inv pool \<longleftrightarrow> length (buffers pool) \<le> max_pool_size pool \<and>
     (\<forall>buf \<in> set (buffers pool). contents buf = [] \<and> default_capacity pool \<le> capacity buf)"

text \<open>A pool in use: any sequence of calls, with any buffers handed back.\<close>

inductive pool_used :: "(usize \<Rightarrow> usize) \<Rightarrow> BufferPool \<Rightarrow> bool" for alloc where
  created: "pool_used alloc (pool_with_capacity cap max_size)"
| acquired: "pool_used alloc pool \<Longrightarrow> acquire alloc pool = (buf, pool') \<Longrightarrow> pool_used alloc pool'"
| released: "pool_used alloc pool \<Longrightarrow> pool_used alloc (release pool buf)"

lemma acquire_inv: "pool_inv pool \<Longrightarrow> acquire alloc pool = (buf, pool') \<Longrightarrow> pool_inv pool'"
  by (auto simp: acquire_def pool_inv_def dest!: in_set_butlastD split: if_splits)

lemma release_inv: "pool_inv pool \<Longrightarrow> pool_inv (release pool buf)"
  by (auto simp: release_def pool_inv_def bytesmut_clear_def)

lemma pool_used_inv: "pool_used alloc pool \<Longrightarrow> pool_inv pool"
proof (induction rule: pool_used.induct)
  case (created cap max_size)
  then show ?case by (simp add: pool_inv_def pool_with_capacity_def)
qed (auto intro: acquire_inv release_inv)

lemma pool_used_new: "pool_used alloc (pool_new cap)"
  using created [of alloc cap DEFAULT_MAX_POOL_SIZE] by (simp add: pool_new_def pool_with_capacity_def)

section \<open>Properties\<close>

text \<open>C39: whatever was written into the buffers that were handed back, an acquired buffer is empty and
  has at least the default capacity, and the pool never holds more than its maximum.\<close>

theorem acquired_buffer_is_clean:
  assumes "alloc_ok alloc" "pool_used alloc pool" "acquire alloc pool = (buf, pool')"
  shows "contents buf = [] \<and> default_capacity pool \<le> capacity buf \<and>
    length (buffers pool') \<le> max_pool_size pool'"
proof -
  have inv: "pool_inv pool" using pool_used_inv [OF assms(2)] .
  have "pool_inv pool'" using acquire_inv [OF inv assms(3)] .
  moreover have "contents buf = [] \<and> default_capacity pool \<le> capacity buf"
  proof (cases "buffers pool = []")
    case True
    then show ?thesis using assms(1,3) by (auto simp: acquire_def alloc_ok_def)
  next
    case False
    then have "buf \<in> set (buffers pool)" using assms(3) by (auto simp: acquire_def)
    then show ?thesis using inv by (simp add: pool_inv_def)
  qed
  ultimately show ?thesis by (simp add: pool_inv_def)
qed

lemma acquired_buffer_is_clean_witness:
  "\<exists>buf pool'. acquire (\<lambda>n. n) (release (pool_new 8) \<lparr>contents = [1, 2], capacity = 16\<rparr>) = (buf, pool') \<and>
     contents buf = [] \<and> capacity buf = 16"
proof -
  let ?pool = "release (pool_new 8) \<lparr>contents = [1, 2], capacity = 16\<rparr>"
  obtain buf pool' where a: "acquire (\<lambda>n. n) ?pool = (buf, pool')" by fastforce
  have "pool_used (\<lambda>n. n) ?pool" using pool_used_new released by blast
  then have "contents buf = []"
    using acquired_buffer_is_clean [OF _ _ a] by (simp add: alloc_ok_def)
  moreover have "capacity buf = 16"
    using a by (auto simp: acquire_def release_def pool_new_def DEFAULT_MAX_POOL_SIZE_def bytesmut_clear_def)
  ultimately show ?thesis using a by blast
qed

text \<open>a buffer that is large enough is reused: after a release into a pool that is not full, the
  next acquire hands back the same allocation, cleared, and the pool is as it was before.\<close>

theorem release_then_acquire:
  assumes "default_capacity pool \<le> capacity buf" "length (buffers pool) < max_pool_size pool"
  shows "acquire alloc (release pool buf) = (\<lparr>contents = [], capacity = capacity buf\<rparr>, pool)"
  using assms by (simp add: acquire_def release_def bytesmut_clear_def)

lemma release_then_acquire_witness:
  "acquire (\<lambda>n. n) (release (pool_new 8) \<lparr>contents = [1, 2], capacity = 16\<rparr>) =
     (\<lparr>contents = [], capacity = 16\<rparr>, pool_new 8)"
  using release_then_acquire [of "pool_new 8" "\<lparr>contents = [1, 2], capacity = 16\<rparr>"]
  by (simp add: pool_new_def DEFAULT_MAX_POOL_SIZE_def)

end
