(* ===== verification/Rust_Collections.thy ===== *)
theory Rust_Collections
  imports Prelude
begin

text \<open>
  The standard library containers the storage layer uses. A \<open>BTreeMap<u64, V>\<close> is the list of its
  entries in key order (\<open>btree_wf\<close>), which is also the order of its iterator; every operation is
  characterised by what it does to the map it denotes. An \<open>RwLock\<close> is its value and whether it
  has been poisoned.
\<close>

section \<open>Ordered maps\<close>

type_synonym 'v btree = "(u64 \<times> 'v) list"

definition btree_wf :: "'v btree \<Rightarrow> bool" where
  "btree_wf m \<longleftrightarrow> sorted_wrt (<) (map fst m)"

fun btree_insert :: "u64 \<Rightarrow> 'v \<Rightarrow> 'v btree \<Rightarrow> 'v btree" where
  "btree_insert k v [] = [(k, v)]"
| "btree_insert k v ((k', v') # m) =
     (if k < k' then (k, v) # (k', v') # m
      else if k = k' then (k, v) # m
      else (k', v') # btree_insert k v m)"

definition btree_retain :: "(u64 \<Rightarrow> bool) \<Rightarrow> 'v btree \<Rightarrow> 'v btree" where
  "btree_retain P m = filter (\<lambda>(k, _). P k) m"

definition btree_last :: "'v btree \<Rightarrow> (u64 \<times> 'v) option" where
  "btree_last m = (if m = [] then None else Some (last m))"

datatype bound = Included u64 | Excluded u64 | Unbounded

fun above :: "bound \<Rightarrow> u64 \<Rightarrow> bool" where
  "above (Included a) k \<longleftrightarrow> a \<le> k"
| "above (Excluded a) k \<longleftrightarrow> a < k"
| "above Unbounded k \<longleftrightarrow> True"

fun below :: "bound \<Rightarrow> u64 \<Rightarrow> bool" where
  "below (Included b) k \<longleftrightarrow> k \<le> b"
| "below (Excluded b) k \<longleftrightarrow> k < b"
| "below Unbounded k \<longleftrightarrow> True"

text \<open>\<open>BTreeMap::range\<close> panics on a range that starts after its end.\<close>

fun range_panics :: "bound \<Rightarrow> bound \<Rightarrow> bool" where
  "range_panics (Included a) (Included b) \<longleftrightarrow> b < a"
| "range_panics (Included a) (Excluded b) \<longleftrightarrow> b < a"
| "range_panics (Excluded a) (Included b) \<longleftrightarrow> b < a"
| "range_panics (Excluded a) (Excluded b) \<longleftrightarrow> b \<le> a"
| "range_panics _ _ \<longleftrightarrow> False"

definition btree_range :: "bound \<Rightarrow> bound \<Rightarrow> 'v btree \<Rightarrow> 'v btree option" where
  "btree_range lo hi m =
     (if range_panics lo hi then None else Some (filter (\<lambda>(k, _). above lo k \<and> below hi k) m))"

lemma set_btree_insert: "fst ` set (btree_insert k v m) = insert k (fst ` set m)"
  by (induction k v m rule: btree_insert.induct) auto

lemma btree_wf_Nil [simp]: "btree_wf []"
  by (simp add: btree_wf_def)

lemma btree_wf_Cons: "btree_wf ((k, v) # m) \<longleftrightarrow> (\<forall>x \<in> fst ` set m. k < x) \<and> btree_wf m"
  by (auto simp: btree_wf_def)

lemma btree_wf_insert [simp]: "btree_wf m \<Longrightarrow> btree_wf (btree_insert k v m)"
proof (induction k v m rule: btree_insert.induct)
  case (2 k v k' v' m)
  then show ?case
    by (auto simp: btree_wf_Cons set_btree_insert)
qed (simp add: btree_wf_Cons)

lemma map_of_btree_insert: "btree_wf m \<Longrightarrow> map_of (btree_insert k v m) = (map_of m)(k \<mapsto> v)"
proof (induction k v m rule: btree_insert.induct)
  case (2 k v k' v' m)
  then show ?case by (auto simp: btree_wf_Cons fun_eq_iff)
qed (simp add: fun_eq_iff)

lemma btree_wf_filter [simp]: "btree_wf m \<Longrightarrow> btree_wf (filter P m)"
proof (induction m)
  case (Cons e m)
  then show ?case by (cases e) (auto simp: btree_wf_Cons)
qed simp

lemma btree_wf_retain [simp]: "btree_wf m \<Longrightarrow> btree_wf (btree_retain P m)"
  by (simp add: btree_retain_def)

lemma map_of_btree_retain: "map_of (btree_retain P m) = (map_of m) |` {k. P k}"
  by (induction m) (auto simp: btree_retain_def restrict_map_def fun_eq_iff)

lemma btree_mem: "btree_wf m \<Longrightarrow> (k, v) \<in> set m \<longleftrightarrow> map_of m k = Some v"
proof -
  assume "btree_wf m"
  then have "distinct (map fst m)" by (auto simp: btree_wf_def strict_sorted_iff)
  then show ?thesis by simp
qed

lemma btree_last_max:
  "btree_wf m \<Longrightarrow> btree_last m = Some (k, v) \<Longrightarrow>
     map_of m k = Some v \<and> (\<forall>k' \<in> dom (map_of m). k' \<le> k)"
proof (induction m rule: rev_induct)
  case Nil
  then show ?case by (simp add: btree_last_def)
next
  case (snoc e m)
  have e: "e = (k, v)" using snoc.prems(2) by (simp add: btree_last_def)
  have "\<forall>x \<in> set m. fst x < k" using snoc.prems(1) e by (auto simp: btree_wf_def sorted_wrt_append)
  moreover have "map_of (m @ [e]) k = Some v" using snoc.prems(1) e btree_mem [of "m @ [e]" k v] by simp
  ultimately show ?case using e by (auto simp: dom_map_of_conv_image_fst)
qed

lemma btree_last_None: "btree_last m = None \<longleftrightarrow> map_of m = Map.empty"
  by (cases m) (auto simp: btree_last_def fun_eq_iff)

section \<open>Locks\<close>

record 'a RwLock =
  lock_value :: 'a
  poisoned :: bool

definition RwLock_new :: "'a \<Rightarrow> 'a RwLock" where
  "RwLock_new x = \<lparr>lock_value = x, poisoned = False\<rparr>"

text \<open>\<open>read()\<close> and \<open>write()\<close> with \<open>map_err\<close>: the value, or the error for a poisoned lock.\<close>

definition lock_or :: "'a RwLock \<Rightarrow> 'e \<Rightarrow> 'e + 'a" where
  "lock_or l e = (if poisoned l then Inl e else Inr (lock_value l))"

definition lock_set :: "'a RwLock \<Rightarrow> 'a \<Rightarrow> 'a RwLock" where
  "lock_set l x = l\<lparr>lock_value := x\<rparr>"

lemma lock_simps [simp]:
  "lock_value (lock_set l x) = x" "poisoned (lock_set l x) = poisoned l"
  "lock_value (RwLock_new x) = x" "\<not> poisoned (RwLock_new x)"
  by (simp_all add: lock_set_def RwLock_new_def)

lemma lock_or_ok [simp]: "\<not> poisoned l \<Longrightarrow> lock_or l e = Inr (lock_value l)"
  by (simp add: lock_or_def)

end
