(* ===== verification/Openraft_Types.thy ===== *)
theory Openraft_Types
  imports Rust_Collections
begin

text \<open>
  The types the storage layer shares with the two Raft libraries
  (\<open>crates/storage/src/types.rs\<close>): log identities, entries, requests, responses, and the
  conversions from raft-rs. The structures of \<open>openraft\<close> and \<open>eraftpb\<close> hold the fields the code
  reads; \<open>openraft\<close>'s vote and membership are opaque, and their constructors are parameters.
\<close>

section \<open>Types\<close>

record LogId =
  id_term :: u64
  node_id :: u64
  index :: u64

abbreviation log_id_new :: "u64 \<Rightarrow> u64 \<Rightarrow> u64 \<Rightarrow> LogId" where
  "log_id_new t n i \<equiv> \<lparr>id_term = t, node_id = n, index = i\<rparr>"

record Request =
  operation_bytes :: bytes

record Response =
  result :: bytes

record BasicNode =
  addr :: string

datatype 'm EntryPayload = Blank | Normal Request | Membership 'm

record 'm Entry =
  log_id :: LogId
  payload :: "'m EntryPayload"

record 'm StoredMembership =
  membership_log_id :: "LogId option"
  membership :: 'm

text \<open>\<open>StoredMembership::default()\<close>, with openraft's default membership as the argument.\<close>

definition default_membership :: "'m \<Rightarrow> 'm StoredMembership" where
  "default_membership m0 = \<lparr>membership_log_id = None, membership = m0\<rparr>"

record 'm SnapshotMeta =
  snap_last_log_id :: "LogId option"
  snap_last_membership :: "'m StoredMembership"
  snapshot_id :: bytes

record 'm Snapshot =
  meta :: "'m SnapshotMeta"
  snapshot_data :: bytes

section \<open>Conversions from raft-rs\<close>

record EraftEntry =
  e_term :: u64
  e_index :: u64
  e_data :: bytes

record HardState =
  hs_term :: u64
  hs_vote :: u64
  hs_commit :: u64

record ConfState =
  voters :: "u64 list"
  learners :: "u64 list"

definition entry_from_eraftpb :: "EraftEntry \<Rightarrow> 'm Entry" where
  "entry_from_eraftpb entry =
     \<lparr>log_id = log_id_new (e_term entry) 0 (e_index entry),
      payload = Normal \<lparr>operation_bytes = e_data entry\<rparr>\<rparr>"

definition vote_from_hardstate :: "(u64 \<Rightarrow> u64 \<Rightarrow> 'vote) \<Rightarrow> HardState \<Rightarrow> 'vote" where
  "vote_from_hardstate vote_new hs = vote_new (hs_term hs) (hs_vote hs)"

definition hardstate_to_log_id :: "HardState \<Rightarrow> LogId option" where
  "hardstate_to_log_id hs =
     (if hs_commit hs = 0 then None else Some (log_id_new (hs_term hs) 0 (hs_commit hs)))"

definition membership_from_confstate ::
    "(u64 set list \<Rightarrow> u64 set option \<Rightarrow> 'm) \<Rightarrow> ConfState \<Rightarrow> 'm" where
  "membership_from_confstate membership_new cs =
     membership_new [set (voters cs)] (Some (set (learners cs)))"

text \<open>
  A converted entry keeps its position and payload: the conversion is injective, and a log with
  increasing indices stays one.
\<close>

lemma entry_from_eraftpb_inj: "(entry_from_eraftpb e :: 'm Entry) = entry_from_eraftpb e' \<longleftrightarrow> e = e'"
  by (cases e; cases e') (auto simp: entry_from_eraftpb_def)

lemma entry_from_eraftpb_index: "index (log_id (entry_from_eraftpb e)) = e_index e"
  by (simp add: entry_from_eraftpb_def)

section \<open>Storage errors of openraft\<close>

datatype ErrorSubject =
    Subject_Store | Subject_Vote | Subject_Logs | Subject_Log LogId | Subject_StateMachine | Subject_Snapshot
datatype ErrorVerb = Verb_Read | Verb_Write

datatype 'e StorageError = StorageIO ErrorSubject ErrorVerb "string + 'e"

abbreviation lock_error :: "ErrorSubject \<Rightarrow> ErrorVerb \<Rightarrow> string \<Rightarrow> 'e StorageError" where
  "lock_error s v what \<equiv> StorageIO s v (Inl what)"

end
