(* ===== verification/Mem_Storage.thy ===== *)
theory Mem_Storage
  imports Openraft_Types
begin

text \<open>
  The in-memory raft-rs storage (\<open>MemStorage\<close> in \<open>crates/storage/src/lib.rs\<close>). The locks are
  left out: the code panics on a poisoned lock, and no write section of the code can panic, so no
  lock is ever poisoned. Arithmetic that overflows and slices out of range are \<open>RPanic\<close>.

  The protobuf codec (\<open>prost\<close>) is a parameter, and so is the encoded length of an entry.
\<close>

section \<open>State\<close>

record RaftSnapshot =
  snap_index :: u64
  snap_data :: bytes

record MemStorage =
  hard_state :: HardState
  conf_state :: ConfState
  entries :: "EraftEntry list"
  mem_snapshot :: RaftSnapshot

datatype raft_error = Compacted | Unavailable

datatype 'a raft_result = ROk 'a | RErr raft_error | RPanic

definition hard_state_default :: HardState where
  "hard_state_default = \<lparr>hs_term = 0, hs_vote = 0, hs_commit = 0\<rparr>"

definition conf_state_default :: ConfState where
  "conf_state_default = \<lparr>voters = [], learners = []\<rparr>"

definition mem_storage_new :: MemStorage where
  "mem_storage_new = \<lparr>hard_state = hard_state_default, conf_state = conf_state_default, entries = [],
     mem_snapshot = \<lparr>snap_index = 0, snap_data = []\<rparr>\<rparr>"

section \<open>Accessors\<close>

record 'a prost =
  encode_to_vec :: "'a \<Rightarrow> bytes"
  decode_message :: "bytes \<Rightarrow> string + 'a"

definition hard_state_bytes :: "HardState prost \<Rightarrow> MemStorage \<Rightarrow> bytes option" where
  "hard_state_bytes pr s =
     (if hard_state s = hard_state_default then None else Some (encode_to_vec pr (hard_state s)))"

definition set_hard_state :: "MemStorage \<Rightarrow> HardState \<Rightarrow> MemStorage" where
  "set_hard_state s hs = s\<lparr>hard_state := hs\<rparr>"

definition set_hard_state_from_bytes :: "HardState prost \<Rightarrow> MemStorage \<Rightarrow> bytes \<Rightarrow> (string + unit) \<times> MemStorage" where
  "set_hard_state_from_bytes pr s bs =
     (case decode_message pr bs of Inl e \<Rightarrow> (Inl e, s) | Inr hs \<Rightarrow> (Inr (), set_hard_state s hs))"

definition conf_state_bytes :: "ConfState prost \<Rightarrow> MemStorage \<Rightarrow> bytes option" where
  "conf_state_bytes pr s =
     (if conf_state s = conf_state_default then None else Some (encode_to_vec pr (conf_state s)))"

definition set_conf_state :: "MemStorage \<Rightarrow> ConfState \<Rightarrow> MemStorage" where
  "set_conf_state s cs = s\<lparr>conf_state := cs\<rparr>"

definition set_conf_state_from_bytes :: "ConfState prost \<Rightarrow> MemStorage \<Rightarrow> bytes \<Rightarrow> (string + unit) \<times> MemStorage" where
  "set_conf_state_from_bytes pr s bs =
     (case decode_message pr bs of Inl e \<Rightarrow> (Inl e, s) | Inr cs \<Rightarrow> (Inr (), set_conf_state s cs))"

definition append_entries :: "MemStorage \<Rightarrow> EraftEntry list \<Rightarrow> MemStorage" where
  "append_entries s ents = s\<lparr>entries := entries s @ ents\<rparr>"

definition set_snapshot :: "MemStorage \<Rightarrow> RaftSnapshot \<Rightarrow> MemStorage" where
  "set_snapshot s snap = s\<lparr>mem_snapshot := snap\<rparr>"

section \<open>The storage interface of raft-rs\<close>

definition initial_state :: "MemStorage \<Rightarrow> (HardState \<times> ConfState) raft_result" where
  "initial_state s = ROk (hard_state s, conf_state s)"

text \<open>\<open>retain\<close> with a running total: every entry is counted, also one that is dropped.\<close>

fun retain_size :: "(EraftEntry \<Rightarrow> nat) \<Rightarrow> nat \<Rightarrow> nat \<Rightarrow> EraftEntry list \<Rightarrow> EraftEntry list" where
  "retain_size encoded_len mx sz [] = []"
| "retain_size encoded_len mx sz (e # es) =
     (let sz = sz + encoded_len e in
      if sz \<le> mx then e # retain_size encoded_len mx sz es else retain_size encoded_len mx sz es)"

definition u64_MAX :: u64 where
  "u64_MAX = - 1"

definition storage_entries ::
    "(EraftEntry \<Rightarrow> nat) \<Rightarrow> MemStorage \<Rightarrow> u64 \<Rightarrow> u64 \<Rightarrow> u64 option \<Rightarrow> EraftEntry list raft_result" where
  "storage_entries encoded_len s low high max_size =
     (let es = entries s in
      if es = [] then RErr Unavailable
      else let offset = e_index (hd es) in
      if low < offset then RErr Compacted
      else if e_index (last es) = u64_MAX then RPanic
      else if e_index (last es) + 1 < high then RErr Unavailable
      else if high < offset then RPanic
      else let lo = unat (low - offset); hi = unat (high - offset) in
      if hi < lo \<or> length es < hi then RPanic
      else let result = take (hi - lo) (drop lo es) in
      ROk (case max_size of None \<Rightarrow> result | Some mx \<Rightarrow> retain_size encoded_len (unat mx) 0 result))"

definition storage_term :: "MemStorage \<Rightarrow> u64 \<Rightarrow> u64 raft_result" where
  "storage_term s idx =
     (let es = entries s in
      if es = [] then ROk 0
      else let offset = e_index (hd es) in
      if idx < offset then RErr Compacted
      else if e_index (last es) < idx then RErr Unavailable
      else let pos = unat (idx - offset) in
      if pos < length es then ROk (e_term (es ! pos)) else RPanic)"

definition first_index :: "MemStorage \<Rightarrow> u64 raft_result" where
  "first_index s =
     (if entries s \<noteq> [] then ROk (e_index (hd (entries s)))
      else if snap_index (mem_snapshot s) = u64_MAX then RPanic
      else ROk (snap_index (mem_snapshot s) + 1))"

definition last_index :: "MemStorage \<Rightarrow> u64 raft_result" where
  "last_index s =
     (if entries s \<noteq> [] then ROk (e_index (last (entries s))) else ROk (snap_index (mem_snapshot s)))"

definition storage_snapshot :: "MemStorage \<Rightarrow> u64 \<Rightarrow> u64 \<Rightarrow> RaftSnapshot raft_result" where
  "storage_snapshot s request_index to = ROk (mem_snapshot s)"

section \<open>Contiguous logs\<close>

text \<open>The index of entry number \<open>i\<close> is the first index plus \<open>i\<close>, below the largest \<open>u64\<close>.\<close>

definition contiguous :: "EraftEntry list \<Rightarrow> bool" where
  "contiguous es \<longleftrightarrow> (\<forall>i < length es. unat (e_index (es ! i)) = unat (e_index (es ! 0)) + i) \<and>
     (es \<noteq> [] \<longrightarrow> unat (e_index (es ! 0)) + length es < 2 ^ 64)"

lemma contiguous_nth: "contiguous es \<Longrightarrow> i < length es \<Longrightarrow> unat (e_index (es ! i)) = unat (e_index (hd es)) + i"
  by (cases es) (auto simp: contiguous_def)

lemma contiguous_last:
  assumes "contiguous es" "es \<noteq> []"
  shows "unat (e_index (last es)) + 1 = unat (e_index (hd es)) + length es" "e_index (last es) \<noteq> u64_MAX"
    "unat (e_index (last es) + 1) = unat (e_index (hd es)) + length es"
proof -
  show l: "unat (e_index (last es)) + 1 = unat (e_index (hd es)) + length es"
    using contiguous_nth [OF assms(1), of "length es - 1"] assms(2) by (simp add: last_conv_nth Suc_le_eq)
  have b: "unat (e_index (hd es)) + length es < 2 ^ 64"
    using assms hd_conv_nth [OF assms(2)] unfolding contiguous_def by metis
  show "e_index (last es) \<noteq> u64_MAX"
  proof
    assume "e_index (last es) = u64_MAX"
    moreover have "unat u64_MAX = 2 ^ 64 - 1"
      by (simp add: u64_MAX_def unsigned_minus_1_eq_mask mask_eq_exp_minus_1)
    ultimately show False using l b by simp
  qed
  show "unat (e_index (last es) + 1) = unat (e_index (hd es)) + length es"
    using l b by (simp add: unat_plus_if')
qed

lemma unat_sub_le: "(a :: u64) \<le> b \<Longrightarrow> unat (b - a) = unat b - unat a"
  by (simp add: unat_sub)

lemma retain_size_prefix:
  "\<exists>n. retain_size len mx sz es = take n es \<and> n \<le> length es \<and>
     (sz \<le> mx \<longrightarrow> sz + sum_list (map len (take n es)) \<le> mx) \<and>
     (n < length es \<longrightarrow> mx < sz + sum_list (map len (take (Suc n) es)))"
proof (induction es arbitrary: sz)
  case Nil
  then show ?case by (auto intro!: exI [of _ 0])
next
  case (Cons e es)
  have stop: "retain_size len mx s xs = []" if "mx < s" for s xs
    using that by (induction xs arbitrary: s) auto
  show ?case
  proof (cases "sz + len e \<le> mx")
    case True
    obtain n where n: "retain_size len mx (sz + len e) es = take n es" "n \<le> length es"
      "sz + len e + sum_list (map len (take n es)) \<le> mx"
      "n < length es \<longrightarrow> mx < sz + len e + sum_list (map len (take (Suc n) es))"
      using Cons.IH [of "sz + len e"] True by blast
    with True show ?thesis by (intro exI [of _ "Suc n"]) (auto simp: add.assoc)
  next
    case False
    then show ?thesis using stop by (intro exI [of _ 0]) auto
  qed
qed

lemma storage_entries_contiguous:
  assumes "contiguous (entries s)" "entries s \<noteq> []"
    and "e_index (hd (entries s)) \<le> low" "low \<le> high" "high \<le> e_index (last (entries s)) + 1"
  shows "storage_entries len s low high max_size =
    (let result = take (unat high - unat low) (drop (unat low - unat (e_index (hd (entries s)))) (entries s)) in
     ROk (case max_size of None \<Rightarrow> result | Some mx \<Rightarrow> retain_size len (unat mx) 0 result))"
proof -
  let ?es = "entries s" and ?o = "e_index (hd (entries s))"
  note last = contiguous_last [OF assms(1,2)]
  have h: "?o \<le> high" using assms(3,4) by simp
  have le: "unat ?o \<le> unat low" "unat low \<le> unat high" "unat high \<le> unat ?o + length ?es"
    using assms(3,4,5) last(3) by (simp_all add: word_le_nat_alt)
  have lo: "unat (low - ?o) = unat low - unat ?o" and hi: "unat (high - ?o) = unat high - unat ?o"
    using unat_sub_le [OF assms(3)] unat_sub_le [OF h] by simp_all
  have "unat high - unat ?o - (unat low - unat ?o) = unat high - unat low"
    "unat low - unat ?o \<le> unat high - unat ?o" "unat high - unat ?o \<le> length ?es" using le by simp_all
  then show ?thesis
    using assms(2,3,5) h le last(2) by (simp add: storage_entries_def Let_def lo hi not_less)
qed

section \<open>Properties\<close>

text \<open>Reading a range of a contiguous log. For a range inside the log the call succeeds, and entry
  number \<open>i\<close> of the result is the entry of the log whose index is \<open>low + i\<close>; there are
  \<open>high - low\<close> of them.\<close>

theorem entries_in_range:
  assumes "contiguous (entries s)" "entries s \<noteq> []"
    and "e_index (hd (entries s)) \<le> low" "low \<le> high" "high \<le> e_index (last (entries s)) + 1"
  shows "\<exists>es. storage_entries len s low high None = ROk es \<and> length es = unat high - unat low \<and>
    (\<forall>i < length es. es ! i \<in> set (entries s) \<and> unat (e_index (es ! i)) = unat low + i)"
proof -
  let ?o = "e_index (hd (entries s))"
  let ?es = "take (unat high - unat low) (drop (unat low - unat ?o) (entries s))"
  have le: "unat ?o \<le> unat low" "unat low \<le> unat high" "unat high \<le> unat ?o + length (entries s)"
    using assms(3-5) contiguous_last(3) [OF assms(1,2)] by (simp_all add: word_le_nat_alt)
  have n: "length ?es = unat high - unat low" using le by simp
  have "?es ! i \<in> set (entries s) \<and> unat (e_index (?es ! i)) = unat low + i" if "i < length ?es" for i
    using that le contiguous_nth [OF assms(1), of "unat low - unat ?o + i"] by simp
  then show ?thesis
    using storage_entries_contiguous [OF assms, of len None] n by (auto simp: Let_def)
qed

definition three_entries :: "EraftEntry list" where
  "three_entries = map (\<lambda>i. \<lparr>e_term = 2, e_index = i, e_data = []\<rparr>) [5, 6, 7]"

definition three_storage :: MemStorage where
  "three_storage = append_entries mem_storage_new three_entries"

lemma three_storage_facts:
  "contiguous (entries three_storage)" "entries three_storage \<noteq> []"
  "e_index (hd (entries three_storage)) = 5" "e_index (last (entries three_storage)) = 7"
proof -
  have "unat (e_index (three_entries ! i)) = 5 + i" if "i < 3" for i
    using that by (auto simp: three_entries_def less_Suc_eq numeral_3_eq_3)
  then show "contiguous (entries three_storage)"
    by (auto simp: contiguous_def three_storage_def append_entries_def mem_storage_new_def)
      (auto simp: three_entries_def)
qed (simp_all add: three_storage_def append_entries_def mem_storage_new_def three_entries_def)

lemma entries_in_range_witness:
  "\<exists>es. storage_entries (\<lambda>_. 1) three_storage 6 8 None = ROk es \<and> length es = 2"
  using entries_in_range [OF three_storage_facts(1,2), of 6 8 "\<lambda>_. 1"] three_storage_facts(3,4) by auto

text \<open>C40: the size limit. With a limit the result is the longest prefix of the range whose encoded
  entries fit it in total.\<close>

theorem entries_size_limit:
  assumes "contiguous (entries s)" "entries s \<noteq> []"
    and "e_index (hd (entries s)) \<le> low" "low \<le> high" "high \<le> e_index (last (entries s)) + 1"
  shows "\<exists>es n. storage_entries len s low high None = ROk es \<and>
    storage_entries len s low high (Some mx) = ROk (take n es) \<and>
    sum_list (map len (take n es)) \<le> unat mx \<and>
    (n < length es \<longrightarrow> unat mx < sum_list (map len (take (Suc n) es)))"
  using storage_entries_contiguous [OF assms, of len None] storage_entries_contiguous [OF assms, of len "Some mx"]
    retain_size_prefix [of len "unat mx" 0
      "take (unat high - unat low) (drop (unat low - unat (e_index (hd (entries s)))) (entries s))"]
  by (auto simp: Let_def)

lemma entries_size_limit_witness:
  "\<exists>es n. storage_entries (\<lambda>_. 10) three_storage 5 8 None = ROk es \<and>
     storage_entries (\<lambda>_. 10) three_storage 5 8 (Some 25) = ROk (take n es) \<and> sum_list (map (\<lambda>_. 10) (take n es)) \<le> (25 :: nat)"
  using entries_size_limit [OF three_storage_facts(1,2), of 5 8 "\<lambda>_. 10" 25] three_storage_facts(3,4) by auto

lemma contiguous_find:
  assumes "contiguous es" "es \<noteq> []"
  shows "find (\<lambda>e. e_index e = idx) es =
    (if e_index (hd es) \<le> idx \<and> idx \<le> e_index (last es) then Some (es ! (unat idx - unat (e_index (hd es)))) else None)"
proof -
  let ?o = "e_index (hd es)"
  have range: "?o \<le> e_index e \<and> e_index e \<le> e_index (last es)" if "e \<in> set es" for e
  proof -
    obtain i where "i < length es" "e = es ! i" using \<open>e \<in> set es\<close> by (metis in_set_conv_nth)
    then show ?thesis
      using contiguous_nth [OF assms(1), of i] contiguous_last(1) [OF assms] by (simp add: word_le_nat_alt)
  qed
  show ?thesis
  proof (cases "?o \<le> idx \<and> idx \<le> e_index (last es)")
    case True
    let ?i = "unat idx - unat ?o"
    have i: "?i < length es" using True contiguous_last(1) [OF assms] assms(2) by (auto simp: word_le_nat_alt)
    then have "e_index (es ! ?i) = idx"
      using contiguous_nth [OF assms(1) i] True by (simp add: word_unat_eq_iff word_le_nat_alt)
    moreover have "e_index (es ! j) \<noteq> idx" if "j < ?i" for j
      using contiguous_nth [OF assms(1), of j] that i by (auto simp: word_unat_eq_iff)
    ultimately have "find (\<lambda>e. e_index e = idx) es = Some (es ! ?i)"
      using i by (auto simp: find_Some_iff)
    with True show ?thesis by simp
  next
    case False
    then show ?thesis using range by (auto simp: find_None_iff)
  qed
qed

text \<open>Reading a term of a contiguous log is a lookup by index: the term of the entry with that
  index, \<open>Compacted\<close> before the log, \<open>Unavailable\<close> after it, and never a panic.\<close>

theorem term_of_contiguous:
  assumes "contiguous (entries s)" "entries s \<noteq> []"
  shows "storage_term s idx =
    (case find (\<lambda>e. e_index e = idx) (entries s) of
       Some e \<Rightarrow> ROk (e_term e)
     | None \<Rightarrow> RErr (if idx < e_index (hd (entries s)) then Compacted else Unavailable))"
proof -
  let ?o = "e_index (hd (entries s))"
  have "unat idx - unat ?o < length (entries s)" if "?o \<le> idx" "idx \<le> e_index (last (entries s))"
    using that contiguous_last(1) [OF assms] assms(2) by (auto simp: word_le_nat_alt)
  then show ?thesis
    using assms(2) by (auto simp: contiguous_find [OF assms] storage_term_def Let_def not_less unat_sub_le)
qed

lemma term_of_contiguous_witness: "storage_term three_storage 6 = ROk 2"
  using term_of_contiguous [OF three_storage_facts(1,2), of 6]
  by (simp add: three_storage_def append_entries_def mem_storage_new_def three_entries_def)

text \<open>a range that ends before it starts is not an error but a panic: for a non-empty log, a read
  from \<open>low\<close> to a smaller \<open>high\<close>, with \<open>low\<close> not below the log, panics.\<close>

theorem reversed_range_panics:
  assumes "contiguous (entries s)" "entries s \<noteq> []"
    and "e_index (hd (entries s)) \<le> low" "high < low" "high \<le> e_index (last (entries s)) + 1"
  shows "storage_entries len s low high mx = RPanic"
proof (cases "high < e_index (hd (entries s))")
  case True
  then show ?thesis
    using assms(2,3,5) contiguous_last(2) [OF assms(1,2)] by (simp add: storage_entries_def Let_def not_less)
next
  case False
  then have "unat (high - e_index (hd (entries s))) < unat (low - e_index (hd (entries s)))"
    using assms(3,4) by (simp add: unat_sub_le not_less word_le_nat_alt word_less_nat_alt diff_less_mono)
  then show ?thesis
    using assms(2,3,5) False contiguous_last(2) [OF assms(1,2)] by (simp add: storage_entries_def Let_def not_less)
qed

lemma reversed_range_panics_witness: "storage_entries (\<lambda>_. 1) three_storage 7 6 None = RPanic"
  using reversed_range_panics [OF three_storage_facts(1,2), of 7 6 "\<lambda>_. 1" None] three_storage_facts(3,4) by simp

end
