(* ===== verification/Storage_Base.thy ===== *)
theory Storage_Base
  imports Rust_Std
begin

text \<open>
  The vocabulary of the RocksDB layer: column families
  (\<open>crates/storage/src/column_family.rs\<close>), errors (\<open>error.rs\<close>), write batches (\<open>batch.rs\<close>) and
  options (\<open>options.rs\<close>). Wrapped errors of RocksDB, the file system and protobuf are their
  messages. A \<open>SliceTransform\<close> is only ever a fixed prefix in this code.
\<close>

section \<open>Column families\<close>

datatype ColumnFamily =
    SystemRaftLog
  | SystemRaftState
  | SystemData
  | DataRaftLog
  | DataRaftState
  | DataKv

fun as_str :: "ColumnFamily \<Rightarrow> string" where
  "as_str SystemRaftLog = ''system_raft_log''"
| "as_str SystemRaftState = ''system_raft_state''"
| "as_str SystemData = ''system_data''"
| "as_str DataRaftLog = ''data_raft_log''"
| "as_str DataRaftState = ''data_raft_state''"
| "as_str DataKv = ''data_kv''"

definition all_cfs :: "ColumnFamily list" where
  "all_cfs = [SystemRaftLog, SystemRaftState, SystemData, DataRaftLog, DataRaftState, DataKv]"

fun cf_requires_fsync :: "ColumnFamily \<Rightarrow> bool" where
  "cf_requires_fsync SystemRaftState = True"
| "cf_requires_fsync DataRaftState = True"
| "cf_requires_fsync _ = False"

fun is_log_cf :: "ColumnFamily \<Rightarrow> bool" where
  "is_log_cf SystemRaftLog = True"
| "is_log_cf DataRaftLog = True"
| "is_log_cf _ = False"

section \<open>Errors\<close>

datatype StoreError =
    RocksDb string
  | IoError string
  | ProtobufDecode string
  | ColumnFamilyNotFound string
  | InvalidLogIndex string u64 u64 bytes
  | SnapshotFailed string string
  | CorruptedData string bytes bytes
  | VersionMismatch "32 word" "32 word"
  | InvalidConfig string bytes
  | InvalidColumnFamily string string
  | LockPoisoned string
  | RangeTooLarge u64 u64 u64
  | BatchTooLarge usize usize

section \<open>Write batches\<close>

datatype BatchOperation = Put ColumnFamily bytes bytes | Delete ColumnFamily bytes

record WriteBatch =
  operations :: "BatchOperation list"

fun op_cf :: "BatchOperation \<Rightarrow> ColumnFamily" where
  "op_cf (Put cf _ _) = cf"
| "op_cf (Delete cf _) = cf"

fun op_key :: "BatchOperation \<Rightarrow> bytes" where
  "op_key (Put _ key _) = key"
| "op_key (Delete _ key) = key"

fun op_value :: "BatchOperation \<Rightarrow> bytes option" where
  "op_value (Put _ _ val) = Some val"
| "op_value (Delete _ _) = None"

fun is_put :: "BatchOperation \<Rightarrow> bool" where
  "is_put (Put _ _ _) = True"
| "is_put (Delete _ _) = False"

definition batch_new :: WriteBatch where
  "batch_new = \<lparr>operations = []\<rparr>"

definition batch_put :: "WriteBatch \<Rightarrow> ColumnFamily \<Rightarrow> bytes \<Rightarrow> bytes \<Rightarrow> WriteBatch" where
  "batch_put b cf key val = b\<lparr>operations := operations b @ [Put cf key val]\<rparr>"

definition batch_delete :: "WriteBatch \<Rightarrow> ColumnFamily \<Rightarrow> bytes \<Rightarrow> WriteBatch" where
  "batch_delete b cf key = b\<lparr>operations := operations b @ [Delete cf key]\<rparr>"

definition batch_clear :: "WriteBatch \<Rightarrow> WriteBatch" where
  "batch_clear b = b\<lparr>operations := []\<rparr>"

definition batch_is_empty :: "WriteBatch \<Rightarrow> bool" where
  "batch_is_empty b \<longleftrightarrow> operations b = []"

definition batch_requires_fsync :: "WriteBatch \<Rightarrow> bool" where
  "batch_requires_fsync b \<longleftrightarrow> list_ex (\<lambda>op. cf_requires_fsync (op_cf op)) (operations b)"

section \<open>Options\<close>

datatype DBCompactionStyle = Level | Universal | Fifo
datatype DBCompressionType = Lz4 | OtherCompression string
datatype SliceTransform = FixedPrefix usize

record CFOptions =
  compaction_style :: DBCompactionStyle
  disable_auto_compactions :: bool
  level0_file_num_compaction_trigger :: "32 word"
  write_buffer_size :: "usize option"
  prefix_extractor :: "SliceTransform option"
  prefix_length :: usize

definition cf_options_clone :: "CFOptions \<Rightarrow> CFOptions" where
  "cf_options_clone c =
     \<lparr>compaction_style = compaction_style c,
      disable_auto_compactions = disable_auto_compactions c,
      level0_file_num_compaction_trigger = level0_file_num_compaction_trigger c,
      write_buffer_size = write_buffer_size c,
      prefix_extractor = map_option (\<lambda>_. FixedPrefix (prefix_length c)) (prefix_extractor c),
      prefix_length = prefix_length c\<rparr>"

record StorageOptions =
  data_dir :: string
  create_if_missing :: bool
  compression :: DBCompressionType
  write_buffer_size_mb :: usize
  max_write_buffer_number :: usize
  target_file_size_mb :: usize
  max_open_files :: "32 word"
  enable_statistics :: bool
  cf_options :: "ColumnFamily \<rightharpoonup> CFOptions"

definition default_cf_options :: "ColumnFamily \<rightharpoonup> CFOptions" where
  "default_cf_options =
     (let raft_log_opts =
            \<lparr>compaction_style = Level, disable_auto_compactions = False,
             level0_file_num_compaction_trigger = 2, write_buffer_size = None,
             prefix_extractor = None, prefix_length = 0\<rparr>;
          raft_state_opts =
            \<lparr>compaction_style = Level, disable_auto_compactions = True,
             level0_file_num_compaction_trigger = 10, write_buffer_size = Some (4 * 1024 * 1024),
             prefix_extractor = None, prefix_length = 0\<rparr> in
      Map.empty(SystemRaftLog \<mapsto> cf_options_clone raft_log_opts, DataRaftLog \<mapsto> raft_log_opts,
        SystemRaftState \<mapsto> cf_options_clone raft_state_opts, DataRaftState \<mapsto> raft_state_opts,
        SystemData \<mapsto>
          \<lparr>compaction_style = Level, disable_auto_compactions = True,
           level0_file_num_compaction_trigger = 10, write_buffer_size = Some (8 * 1024 * 1024),
           prefix_extractor = None, prefix_length = 0\<rparr>,
        DataKv \<mapsto>
          \<lparr>compaction_style = Level, disable_auto_compactions = False,
           level0_file_num_compaction_trigger = 4, write_buffer_size = None,
           prefix_extractor = Some (FixedPrefix 4), prefix_length = 4\<rparr>))"

definition options_default :: StorageOptions where
  "options_default =
     \<lparr>data_dir = ''./data/rocksdb'', create_if_missing = True, compression = Lz4,
      write_buffer_size_mb = 64, max_write_buffer_number = 3, target_file_size_mb = 64,
      max_open_files = 1024, enable_statistics = False, cf_options = default_cf_options\<rparr>"

definition with_data_dir :: "string \<Rightarrow> StorageOptions" where
  "with_data_dir path = options_default\<lparr>data_dir := path\<rparr>"

definition validate :: "StorageOptions \<Rightarrow> StoreError + unit" where
  "validate opts =
     (if write_buffer_size_mb opts < 1 \<or> 1024 < write_buffer_size_mb opts then
        Inl (InvalidConfig ''write_buffer_size_mb''
          (bstr ''must be between 1-1024 MB, got '' @ dec_string (write_buffer_size_mb opts)))
      else if max_write_buffer_number opts < 2 \<or> 10 < max_write_buffer_number opts then
        Inl (InvalidConfig ''max_write_buffer_number''
          (bstr ''must be between 2-10, got '' @ dec_string (max_write_buffer_number opts)))
      else if target_file_size_mb opts < 1 \<or> 1024 < target_file_size_mb opts then
        Inl (InvalidConfig ''target_file_size_mb''
          (bstr ''must be between 1-1024 MB, got '' @ dec_string (target_file_size_mb opts)))
      else Inr ())"

section \<open>Lemmas\<close>

lemma as_str_inj: "as_str a = as_str b \<longleftrightarrow> a = b"
  by (cases a; cases b) simp_all

lemma all_cfs_complete: "set all_cfs = UNIV" "distinct all_cfs"
proof -
  have "cf \<in> set all_cfs" for cf by (cases cf) (simp_all add: all_cfs_def)
  then show "set all_cfs = UNIV" by blast
qed (simp add: all_cfs_def)

text \<open>A log family is never synced, so appending entries never waits for the disk.\<close>

lemma log_cf_not_synced: "is_log_cf cf \<Longrightarrow> \<not> cf_requires_fsync cf"
  by (cases cf) simp_all

lemma batch_requires_fsync_iff:
  "batch_requires_fsync b \<longleftrightarrow> (\<exists>op \<in> set (operations b). cf_requires_fsync (op_cf op))"
  by (simp add: batch_requires_fsync_def list_ex_iff)

lemma default_cf_options_total: "\<exists>c. default_cf_options cf = Some c \<and> cf_options_clone c = c"
  by (cases cf) (simp_all add: default_cf_options_def cf_options_clone_def Let_def)

section \<open>Properties\<close>

text \<open>Validation accepts exactly the documented ranges.\<close>

theorem validate_ranges:
  "validate opts = Inr () \<longleftrightarrow> write_buffer_size_mb opts \<in> {1..1024} \<and> max_write_buffer_number opts \<in> {2..10} \<and>
     target_file_size_mb opts \<in> {1..1024}"
  by (auto simp: validate_def)

text \<open>The defaults are usable: they validate with any data directory, and configure every column
  family with options that survive cloning.\<close>

theorem default_options_valid:
  "validate (with_data_dir path) = Inr () \<and>
     (\<forall>cf. \<exists>c. cf_options (with_data_dir path) cf = Some c \<and> cf_options_clone c = c)"
  using default_cf_options_total by (simp add: validate_def with_data_dir_def options_default_def)

end
