(* ===== verification/Rocks_Db.thy ===== *)
theory Rocks_Db
  imports Storage_Base
begin

text \<open>
  RocksDB as the storage layer sees it. The database and its raw iterators are code outside the
  repository: a record of functions, an argument of every definition that uses them. What the
  code relies on is documented behaviour, stated as a predicate (\<open>rocks_ok\<close>): a column family is
  a map from keys to values, a write changes exactly the keys it names, and a raw iterator walks
  the entries in the order of their keys, compared byte by byte. \<open>log_db\<close> is a database that
  behaves so. For \<open>DataKv\<close> the last is more than RocksDB promises: that family is opened with a prefix
  extractor of four bytes and the iterators never ask for a total-order seek, so the order is
  guaranteed only among keys of one prefix. The other families have no extractor.
\<close>

section \<open>Keys in byte order\<close>

fun blt :: "bytes \<Rightarrow> bytes \<Rightarrow> bool" where
  "blt _ [] \<longleftrightarrow> False"
| "blt [] (y # ys) \<longleftrightarrow> True"
| "blt (x # xs) (y # ys) \<longleftrightarrow> x < y \<or> x = y \<and> blt xs ys"

lemma blt_irrefl [simp]: "\<not> blt xs xs"
  by (induction xs) auto

lemma blt_trans: "blt xs ys \<Longrightarrow> blt ys zs \<Longrightarrow> blt xs zs"
proof (induction xs ys arbitrary: zs rule: blt.induct)
  case (2 y ys)
  then show ?case by (cases zs) auto
next
  case (3 x xs y ys)
  then show ?case by (cases zs) auto
qed simp

lemma blt_linear: "blt xs ys \<or> xs = ys \<or> blt ys xs"
proof (induction xs ys rule: blt.induct)
  case (1 xs)
  then show ?case by (cases xs) auto
qed auto

lemma blt_append: "blt (p @ xs) (p @ ys) = blt xs ys"
  by (induction p) auto

section \<open>The parameter\<close>

datatype rocks_op = RocksPut string bytes bytes | RocksDelete string bytes

record ('d, 'i) rocksdb =
  cf_handle :: "'d \<Rightarrow> string \<Rightarrow> bool"
  get_cf :: "'d \<Rightarrow> string \<Rightarrow> bytes \<Rightarrow> string + bytes option"
  get_pinned_cf :: "'d \<Rightarrow> string \<Rightarrow> bytes \<Rightarrow> string + bytes option"
  put_cf_opt :: "'d \<Rightarrow> string \<Rightarrow> bytes \<Rightarrow> bytes \<Rightarrow> bool \<Rightarrow> (string + unit) \<times> 'd"
  delete_cf_opt :: "'d \<Rightarrow> string \<Rightarrow> bytes \<Rightarrow> bool \<Rightarrow> (string + unit) \<times> 'd"
  write_opt :: "'d \<Rightarrow> rocks_op list \<Rightarrow> bool \<Rightarrow> (string + unit) \<times> 'd"
  flush_cf :: "'d \<Rightarrow> string \<Rightarrow> (string + unit) \<times> 'd"
  raw_iterator_cf :: "'d \<Rightarrow> string \<Rightarrow> 'i"
  iter_seek :: "'i \<Rightarrow> bytes \<Rightarrow> 'i"
  iter_seek_for_prev :: "'i \<Rightarrow> bytes \<Rightarrow> 'i"
  iter_seek_to_first :: "'i \<Rightarrow> 'i"
  iter_seek_to_last :: "'i \<Rightarrow> 'i"
  iter_next :: "'i \<Rightarrow> 'i"
  iter_prev :: "'i \<Rightarrow> 'i"
  iter_valid :: "'i \<Rightarrow> bool"
  iter_key :: "'i \<Rightarrow> bytes option"
  iter_value :: "'i \<Rightarrow> bytes option"
  iter_status :: "'i \<Rightarrow> string + unit"

section \<open>What the code relies on\<close>

type_synonym store_map = "string \<Rightarrow> bytes \<rightharpoonup> bytes"

fun op_effect :: "rocks_op \<Rightarrow> store_map \<Rightarrow> store_map" where
  "op_effect (RocksPut cf k v) m = m(cf := (m cf)(k \<mapsto> v))"
| "op_effect (RocksDelete cf k) m = m(cf := (m cf)(k := None))"

definition key_sorted :: "(bytes \<times> bytes) list \<Rightarrow> bool" where
  "key_sorted ps \<longleftrightarrow> sorted_wrt blt (map fst ps)"

text \<open>
  A healthy database: \<open>store d\<close> is what the database holds, and \<open>cursor i\<close> the entries an iterator
  walks over with its position. No access fails.
\<close>

definition rocks_reads :: "('d, 'i) rocksdb \<Rightarrow> ('d \<Rightarrow> store_map) \<Rightarrow> bool" where
  "rocks_reads R store \<longleftrightarrow>
     (\<forall>d cf k. get_cf R d cf k = Inr (store d cf k) \<and> get_pinned_cf R d cf k = Inr (store d cf k))"

definition rocks_writes :: "('d, 'i) rocksdb \<Rightarrow> ('d \<Rightarrow> store_map) \<Rightarrow> bool" where
  "rocks_writes R store \<longleftrightarrow>
     (\<forall>d cf k v sync. \<exists>d'. put_cf_opt R d cf k v sync = (Inr (), d') \<and>
        store d' = op_effect (RocksPut cf k v) (store d) \<and> cf_handle R d' = cf_handle R d) \<and>
     (\<forall>d cf k sync. \<exists>d'. delete_cf_opt R d cf k sync = (Inr (), d') \<and>
        store d' = op_effect (RocksDelete cf k) (store d) \<and> cf_handle R d' = cf_handle R d) \<and>
     (\<forall>d ops sync. \<exists>d'. write_opt R d ops sync = (Inr (), d') \<and>
        store d' = fold op_effect ops (store d) \<and> cf_handle R d' = cf_handle R d)"

definition rocks_iterators ::
    "('d, 'i) rocksdb \<Rightarrow> ('d \<Rightarrow> store_map) \<Rightarrow> ('i \<Rightarrow> (bytes \<times> bytes) list \<times> nat) \<Rightarrow> bool" where
  "rocks_iterators R store cursor \<longleftrightarrow>
     (\<forall>d cf. key_sorted (fst (cursor (raw_iterator_cf R d cf))) \<and>
        map_of (fst (cursor (raw_iterator_cf R d cf))) = store d cf) \<and>
     (\<forall>i k. cursor (iter_seek R i k) =
        (fst (cursor i), length (takeWhile (\<lambda>p. blt (fst p) k) (fst (cursor i))))) \<and>
     (\<forall>i. cursor (iter_seek_to_last R i) = (fst (cursor i), length (fst (cursor i)) - 1)) \<and>
     (\<forall>i. iter_valid R i \<longrightarrow> cursor (iter_next R i) = (fst (cursor i), Suc (snd (cursor i)))) \<and>
     (\<forall>i. iter_valid R i \<longleftrightarrow> snd (cursor i) < length (fst (cursor i))) \<and>
     (\<forall>i. iter_valid R i \<longrightarrow> iter_key R i = Some (fst (fst (cursor i) ! snd (cursor i))) \<and>
        iter_value R i = Some (snd (fst (cursor i) ! snd (cursor i)))) \<and>
     (\<forall>i. iter_status R i = Inr ())"

definition rocks_ok ::
    "('d, 'i) rocksdb \<Rightarrow> ('d \<Rightarrow> store_map) \<Rightarrow> ('i \<Rightarrow> (bytes \<times> bytes) list \<times> nat) \<Rightarrow> bool" where
  "rocks_ok R store cursor \<longleftrightarrow>
     rocks_reads R store \<and> rocks_writes R store \<and> rocks_iterators R store cursor"

section \<open>The entries of an iterator\<close>

interpretation byte_order: linorder "\<lambda>x y. x = y \<or> blt x y" blt
proof
  fix x y z :: bytes
  show "blt x y \<longleftrightarrow> (x = y \<or> blt x y) \<and> \<not> (y = x \<or> blt y x)"
    using blt_trans [of x y x] by auto
  show "x = y \<or> blt x y \<Longrightarrow> y = z \<or> blt y z \<Longrightarrow> x = z \<or> blt x z"
    using blt_trans [of x y z] by auto
  show "x = y \<or> blt x y \<Longrightarrow> y = x \<or> blt y x \<Longrightarrow> x = y"
    using blt_trans [of x y x] by auto
  show "(x = y \<or> blt x y) \<or> (y = x \<or> blt y x)"
    using blt_linear [of x y] by auto
qed simp

lemma key_sorted_distinct: "key_sorted ps \<Longrightarrow> distinct (map fst ps)"
  unfolding key_sorted_def by (rule byte_order.strict_sorted_iff [THEN iffD1, THEN conjunct2])

lemma pairs_of_keys: "distinct (map fst ps) \<Longrightarrow> ps = map (\<lambda>k. (k, the (map_of ps k))) (map fst ps)"
proof (rule nth_equalityI)
  fix n
  assume *: "distinct (map fst ps)" "n < length ps"
  then have "map_of ps (fst (ps ! n)) = Some (snd (ps ! n))"
    by (intro map_of_is_SomeI) simp_all
  then have "the (map_of ps (fst (ps ! n))) = snd (ps ! n)" by (simp only: option.sel)
  with * show "ps ! n = map (\<lambda>k. (k, the (map_of ps k))) (map fst ps) ! n"
    by (simp add: prod_eq_iff)
qed simp

lemma key_sorted_Cons: "key_sorted ((k, v) # ps) \<longleftrightarrow> (\<forall>x \<in> fst ` set ps. blt k x) \<and> key_sorted ps"
  by (auto simp: key_sorted_def)

lemma key_sorted_from:
  "key_sorted ps \<Longrightarrow> dropWhile (\<lambda>p. blt (fst p) k) ps = filter (\<lambda>p. \<not> blt (fst p) k) ps"
proof (induction ps)
  case (Cons p ps)
  have "filter (\<lambda>p. \<not> blt (fst p) k) ps = ps" if "\<not> blt (fst p) k"
    using Cons.prems that blt_trans [of "fst p" _ k] by (cases p) (auto simp: key_sorted_Cons filter_id_conv)
  with Cons show ?case by (cases p) (auto simp: key_sorted_Cons)
qed simp

lemma key_sorted_upto:
  "key_sorted ps \<Longrightarrow> takeWhile (\<lambda>p. \<not> blt k (fst p)) ps = filter (\<lambda>p. \<not> blt k (fst p)) ps"
proof (induction ps)
  case (Cons p ps)
  have "filter (\<lambda>p. \<not> blt k (fst p)) ps = []" if "blt k (fst p)"
    using Cons.prems that blt_trans [of k "fst p"] by (cases p) (auto simp: key_sorted_Cons filter_empty_conv)
  with Cons show ?case by (cases p) (auto simp: key_sorted_Cons)
qed simp

text \<open>The contents of a column family determine what an iterator walks over.\<close>

lemma key_sorted_unique:
  assumes "key_sorted ps" "key_sorted qs" "map_of ps = map_of qs"
  shows "ps = qs"
proof -
  have "set (map fst ps) = set (map fst qs)"
    using assms(3) dom_map_of_conv_image_fst by (metis list.set_map)
  then have "map fst ps = map fst qs"
    using assms(1,2) byte_order.strict_sorted_equal unfolding key_sorted_def by blast
  then show ?thesis
    using pairs_of_keys [OF key_sorted_distinct [OF assms(1)]]
      pairs_of_keys [OF key_sorted_distinct [OF assms(2)]] assms(3) by simp
qed

lemma iterators_entries:
  assumes "rocks_iterators R store cursor" "key_sorted ps" "store d cf = map_of ps"
  shows "fst (cursor (raw_iterator_cf R d cf)) = ps"
  using assms by (intro key_sorted_unique) (auto simp: rocks_iterators_def)

lemma iterators_simps:
  assumes "rocks_iterators R store cursor"
  shows "cursor (iter_seek R i k) =
      (fst (cursor i), length (takeWhile (\<lambda>p. blt (fst p) k) (fst (cursor i))))"
    and "cursor (iter_seek_to_last R i) = (fst (cursor i), length (fst (cursor i)) - 1)"
    and "iter_valid R i \<longleftrightarrow> snd (cursor i) < length (fst (cursor i))"
    and "iter_status R i = Inr ()"
  using assms by (auto simp: rocks_iterators_def)

lemma iterators_at:
  assumes "rocks_iterators R store cursor" "cursor i = (ps, n)" "n < length ps"
  shows "iter_valid R i" "iter_key R i = Some (fst (ps ! n))" "iter_value R i = Some (snd (ps ! n))"
    "cursor (iter_next R i) = (ps, Suc n)"
  using assms by (auto simp: rocks_iterators_def)

lemma rocks_ok_iterators: "rocks_ok R store cursor \<Longrightarrow> rocks_iterators R store cursor"
  by (simp add: rocks_ok_def)

lemmas iterator_entries = iterators_entries [OF rocks_ok_iterators]
  and rocks_iter_simps = iterators_simps [OF rocks_ok_iterators]
  and rocks_iter_at = iterators_at [OF rocks_ok_iterators]

section \<open>A database that behaves so\<close>

text \<open>
  The database is the log of its writes; the entries of a column family are the sorted list the
  log adds up to.
\<close>

fun pairs_put :: "bytes \<Rightarrow> bytes \<Rightarrow> (bytes \<times> bytes) list \<Rightarrow> (bytes \<times> bytes) list" where
  "pairs_put k v [] = [(k, v)]"
| "pairs_put k v ((k', v') # ps) =
     (if blt k k' then (k, v) # (k', v') # ps
      else if k = k' then (k, v) # ps
      else (k', v') # pairs_put k v ps)"

definition pairs_delete :: "bytes \<Rightarrow> (bytes \<times> bytes) list \<Rightarrow> (bytes \<times> bytes) list" where
  "pairs_delete k ps = filter (\<lambda>p. fst p \<noteq> k) ps"

fun pairs_op :: "string \<Rightarrow> rocks_op \<Rightarrow> (bytes \<times> bytes) list \<Rightarrow> (bytes \<times> bytes) list" where
  "pairs_op cf (RocksPut cf' k v) ps = (if cf' = cf then pairs_put k v ps else ps)"
| "pairs_op cf (RocksDelete cf' k) ps = (if cf' = cf then pairs_delete k ps else ps)"

definition log_db_pairs :: "rocks_op list \<Rightarrow> string \<Rightarrow> (bytes \<times> bytes) list" where
  "log_db_pairs d cf = fold (pairs_op cf) d []"

definition log_db_store :: "rocks_op list \<Rightarrow> store_map" where
  "log_db_store d cf = map_of (log_db_pairs d cf)"

definition log_db :: "(rocks_op list, (bytes \<times> bytes) list \<times> nat) rocksdb" where
  "log_db =
     \<lparr>cf_handle = (\<lambda>_ cf. cf \<in> set (map as_str all_cfs)),
      get_cf = (\<lambda>d cf k. Inr (log_db_store d cf k)),
      get_pinned_cf = (\<lambda>d cf k. Inr (log_db_store d cf k)),
      put_cf_opt = (\<lambda>d cf k v _. (Inr (), d @ [RocksPut cf k v])),
      delete_cf_opt = (\<lambda>d cf k _. (Inr (), d @ [RocksDelete cf k])),
      write_opt = (\<lambda>d ops _. (Inr (), d @ ops)),
      flush_cf = (\<lambda>d _. (Inr (), d)),
      raw_iterator_cf = (\<lambda>d cf. (log_db_pairs d cf, length (log_db_pairs d cf))),
      iter_seek = (\<lambda>(ps, n) k. (ps, length (takeWhile (\<lambda>p. blt (fst p) k) ps))),
      iter_seek_for_prev = (\<lambda>(ps, n) k.
        (ps, case length (takeWhile (\<lambda>p. \<not> blt k (fst p)) ps) of 0 \<Rightarrow> length ps | Suc m \<Rightarrow> m)),
      iter_seek_to_first = (\<lambda>(ps, n). (ps, 0)),
      iter_seek_to_last = (\<lambda>(ps, n). (ps, length ps - 1)),
      iter_next = (\<lambda>(ps, n). (ps, Suc n)),
      iter_prev = (\<lambda>(ps, n). (ps, case n of 0 \<Rightarrow> length ps | Suc m \<Rightarrow> m)),
      iter_valid = (\<lambda>(ps, n). n < length ps),
      iter_key = (\<lambda>(ps, n). if n < length ps then Some (fst (ps ! n)) else None),
      iter_value = (\<lambda>(ps, n). if n < length ps then Some (snd (ps ! n)) else None),
      iter_status = (\<lambda>_. Inr ())\<rparr>"

lemma pairs_put_keys: "fst ` set (pairs_put k v ps) = insert k (fst ` set ps)"
  by (induction k v ps rule: pairs_put.induct) auto

lemma key_sorted_put: "key_sorted ps \<Longrightarrow> key_sorted (pairs_put k v ps)"
proof (induction k v ps rule: pairs_put.induct)
  case (2 k v k' v' ps)
  then show ?case
    using blt_linear [of k k'] blt_trans [of k k'] by (auto simp: key_sorted_Cons pairs_put_keys simp del: set_map)
qed (simp add: key_sorted_def)

lemma key_sorted_delete: "key_sorted ps \<Longrightarrow> key_sorted (pairs_delete k ps)"
proof (induction ps)
  case (Cons p ps)
  then show ?case by (cases p) (auto simp: pairs_delete_def key_sorted_Cons)
qed (simp add: pairs_delete_def key_sorted_def)

lemma map_of_pairs_put: "key_sorted ps \<Longrightarrow> map_of (pairs_put k v ps) = (map_of ps)(k \<mapsto> v)"
proof (induction k v ps rule: pairs_put.induct)
  case (2 k v k' v' ps)
  then show ?case by (auto simp: key_sorted_Cons fun_eq_iff)
qed simp

lemma map_of_pairs_delete: "map_of (pairs_delete k ps) = (map_of ps)(k := None)"
  by (induction ps) (auto simp: pairs_delete_def fun_eq_iff)

lemma pairs_op_sorted: "key_sorted ps \<Longrightarrow> key_sorted (pairs_op cf w ps)"
  by (cases w) (simp_all add: key_sorted_put key_sorted_delete)

lemma log_db_sorted: "key_sorted (log_db_pairs d cf)"
  unfolding log_db_pairs_def
  by (induction d rule: rev_induct) (simp_all add: pairs_op_sorted, simp add: key_sorted_def)

lemma log_db_store_snoc: "log_db_store (d @ [w]) = op_effect w (log_db_store d)"
proof (rule ext)
  show "log_db_store (d @ [w]) cf = op_effect w (log_db_store d) cf" for cf
    using log_db_sorted [of d cf]
    by (cases w) (auto simp: log_db_store_def log_db_pairs_def map_of_pairs_put map_of_pairs_delete)
qed

lemma log_db_store_append: "log_db_store (d @ ws) = fold op_effect ws (log_db_store d)"
proof (induction ws rule: rev_induct)
  case (snoc w ws)
  then show ?case using log_db_store_snoc [of "d @ ws" w] by simp
qed simp

lemma log_db_ok: "rocks_ok log_db log_db_store id"
proof -
  have "rocks_reads log_db log_db_store" by (simp add: rocks_reads_def log_db_def)
  moreover have "rocks_writes log_db log_db_store"
    by (simp add: rocks_writes_def log_db_def log_db_store_snoc log_db_store_append)
  moreover have "rocks_iterators log_db log_db_store id"
    by (auto simp: rocks_iterators_def log_db_def log_db_sorted log_db_store_def)
  ultimately show ?thesis by (simp add: rocks_ok_def)
qed

end
