(* ===== verification/Rocks_Storage.thy ===== *)
theory Rocks_Storage
  imports Rocks_Db
begin

text \<open>
  The RocksDB storage layer, \<open>crates/storage/src/storage.rs\<close> and \<open>iterator.rs\<close>: opening a
  database, single-key operations, write batches, iterators, and the Raft logs with the cache of
  their last indices. The database is the parameter \<open>R\<close>. An operation takes the storage and
  returns its result with the storage after it; \<open>SPanic\<close> is an \<open>unwrap\<close> of \<open>None\<close> or an addition
  that overflows. The lock of the cache does not poison (\<open>parking_lot\<close>). The loop of
  \<open>get_log_range\<close> ends when the iterator does, so its result is an option, \<open>None\<close> for a loop that
  does not end. Lines written to standard error are left out.
\<close>

section \<open>Results\<close>

datatype ('e, 'a) outcome = SOk 'a | SErr 'e | SPanic

type_synonym 'a sres = "(StoreError, 'a) outcome"

definition sbind ::
    "('e, 'a) outcome \<times> 's \<Rightarrow> ('a \<Rightarrow> 's \<Rightarrow> ('e, 'b) outcome \<times> 's) \<Rightarrow> ('e, 'b) outcome \<times> 's" where
  "sbind r f = (case r of (SOk x, s) \<Rightarrow> f x s | (SErr e, s) \<Rightarrow> (SErr e, s) | (SPanic, s) \<Rightarrow> (SPanic, s))"

lemma sbind_simps [simp]:
  "sbind (SOk x, s) f = f x s" "sbind (SErr e, s) f = (SErr e, s)" "sbind (SPanic, s) f = (SPanic, s)"
  by (simp_all add: sbind_def)

text \<open>\<open>?\<close> on a RocksDB result.\<close>

fun rocks_res :: "string + 'a \<Rightarrow> 'a sres" where
  "rocks_res (Inl e) = SErr (RocksDb e)"
| "rocks_res (Inr x) = SOk x"

section \<open>Log keys\<close>

definition format_log_key :: "u64 \<Rightarrow> bytes" where
  "format_log_key index = bstr ''log:'' @ zero_pad 20 (unat index)"

section \<open>Iterators\<close>

datatype Direction = Forward | Reverse
datatype IteratorMode = Start | End | From bytes Direction

record 'i StorageIterator =
  inner :: 'i
  iter_cf :: ColumnFamily

definition sit_seek :: "('d, 'i) rocksdb \<Rightarrow> 'i StorageIterator \<Rightarrow> bytes \<Rightarrow> 'i StorageIterator" where
  "sit_seek R it key = it\<lparr>inner := iter_seek R (inner it) key\<rparr>"

definition sit_seek_to_first :: "('d, 'i) rocksdb \<Rightarrow> 'i StorageIterator \<Rightarrow> 'i StorageIterator" where
  "sit_seek_to_first R it = it\<lparr>inner := iter_seek_to_first R (inner it)\<rparr>"

definition sit_seek_to_last :: "('d, 'i) rocksdb \<Rightarrow> 'i StorageIterator \<Rightarrow> 'i StorageIterator" where
  "sit_seek_to_last R it = it\<lparr>inner := iter_seek_to_last R (inner it)\<rparr>"

text \<open>\<open>status()?; Ok(None)\<close>: the end of the data, or the error that stopped the iterator.\<close>

definition end_or_error :: "('d, 'i) rocksdb \<Rightarrow> 'i StorageIterator \<Rightarrow> 'a option sres" where
  "end_or_error R it =
     (case iter_status R (inner it) of Inl e \<Rightarrow> SErr (RocksDb e) | Inr _ \<Rightarrow> SOk None)"

definition step_forward ::
    "('d, 'i) rocksdb \<Rightarrow> 'i StorageIterator \<Rightarrow> (bytes \<times> bytes) option sres \<times> 'i StorageIterator" where
  "step_forward R it =
     (if \<not> iter_valid R (inner it) then (end_or_error R it, it)
      else case iter_key R (inner it) of
          None \<Rightarrow> (end_or_error R it, it)
        | Some key \<Rightarrow>
            (case iter_value R (inner it) of
               None \<Rightarrow> (end_or_error R it, it)
             | Some val \<Rightarrow> (SOk (Some (key, val)), it\<lparr>inner := iter_next R (inner it)\<rparr>)))"

definition step_backward ::
    "('d, 'i) rocksdb \<Rightarrow> 'i StorageIterator \<Rightarrow> (bytes \<times> bytes) option sres \<times> 'i StorageIterator" where
  "step_backward R it =
     (if \<not> iter_valid R (inner it) then (end_or_error R it, it)
      else case iter_key R (inner it) of
          None \<Rightarrow> (end_or_error R it, it)
        | Some key \<Rightarrow>
            (case iter_value R (inner it) of
               None \<Rightarrow> (end_or_error R it, it)
             | Some val \<Rightarrow> (SOk (Some (key, val)), it\<lparr>inner := iter_prev R (inner it)\<rparr>)))"

section \<open>The storage\<close>

record 'd Storage =
  db :: 'd
  last_log_index_cache :: "ColumnFamily \<rightharpoonup> u64"
  path :: string

definition get_cf_handle :: "('d, 'i) rocksdb \<Rightarrow> 'd Storage \<Rightarrow> ColumnFamily \<Rightarrow> string sres" where
  "get_cf_handle R s cf =
     (if cf_handle R (db s) (as_str cf) then SOk (as_str cf) else SErr (ColumnFamilyNotFound (as_str cf)))"

definition storage_iterator ::
    "('d, 'i) rocksdb \<Rightarrow> 'd Storage \<Rightarrow> ColumnFamily \<Rightarrow> IteratorMode \<Rightarrow> 'i StorageIterator sres" where
  "storage_iterator R s cf mode =
     fst (sbind (get_cf_handle R s cf, ()) (\<lambda>h _.
       let it = raw_iterator_cf R (db s) h;
           it' = (case mode of
                    Start \<Rightarrow> iter_seek_to_first R it
                  | End \<Rightarrow> iter_seek_to_last R it
                  | From key Forward \<Rightarrow> iter_seek R it key
                  | From key Reverse \<Rightarrow> iter_seek_for_prev R it key)
       in (SOk \<lparr>inner = it', iter_cf = cf\<rparr>, ())))"

subsection \<open>Single keys\<close>

definition get :: "('d, 'i) rocksdb \<Rightarrow> 'd Storage \<Rightarrow> ColumnFamily \<Rightarrow> bytes \<Rightarrow> bytes option sres \<times> 'd Storage" where
  "get R s cf key =
     sbind (get_cf_handle R s cf, s) (\<lambda>h s. (rocks_res (get_cf R (db s) h key), s))"

definition put :: "('d, 'i) rocksdb \<Rightarrow> 'd Storage \<Rightarrow> ColumnFamily \<Rightarrow> bytes \<Rightarrow> bytes \<Rightarrow> unit sres \<times> 'd Storage" where
  "put R s cf key val =
     sbind (get_cf_handle R s cf, s) (\<lambda>h s.
       let (r, d) = put_cf_opt R (db s) h key val (cf_requires_fsync cf) in (rocks_res r, s\<lparr>db := d\<rparr>))"

definition delete :: "('d, 'i) rocksdb \<Rightarrow> 'd Storage \<Rightarrow> ColumnFamily \<Rightarrow> bytes \<Rightarrow> unit sres \<times> 'd Storage" where
  "delete R s cf key =
     sbind (get_cf_handle R s cf, s) (\<lambda>h s.
       let (r, d) = delete_cf_opt R (db s) h key (cf_requires_fsync cf) in (rocks_res r, s\<lparr>db := d\<rparr>))"

definition exists :: "('d, 'i) rocksdb \<Rightarrow> 'd Storage \<Rightarrow> ColumnFamily \<Rightarrow> bytes \<Rightarrow> bool sres \<times> 'd Storage" where
  "exists R s cf key =
     sbind (get_cf_handle R s cf, s) (\<lambda>h s.
       sbind (rocks_res (get_pinned_cf R (db s) h key), s) (\<lambda>v s. (SOk (v \<noteq> None), s)))"

subsection \<open>The last index of a log\<close>

definition get_last_log_index_from_db ::
    "('d, 'i) rocksdb \<Rightarrow> 'd Storage \<Rightarrow> ColumnFamily \<Rightarrow> u64 option sres" where
  "get_last_log_index_from_db R s cf =
     (if \<not> is_log_cf cf then
        SErr (InvalidColumnFamily (as_str cf) ''get_last_log_index_from_db only works on log CFs'')
      else fst (sbind (get_cf_handle R s cf, ()) (\<lambda>h _.
        (let it = iter_seek_to_last R (raw_iterator_cf R (db s) h) in
         if iter_valid R it then
           (case iter_key R it of
              None \<Rightarrow> SPanic
            | Some key \<Rightarrow>
                if \<not> from_utf8_ok key then
                  SErr (CorruptedData (as_str cf) key (bstr ''Key is not valid UTF-8''))
                else if take 4 key \<noteq> bstr ''log:'' then
                  SErr (CorruptedData (as_str cf) key (bstr ''Key does not start with 'log:': '' @ key))
                else (case u64_from_str (drop 4 key) of
                    None \<Rightarrow> SErr (CorruptedData (as_str cf) key
                      (bstr ''Cannot parse log index from: '' @ drop 4 key))
                  | Some index \<Rightarrow> SOk (Some index)))
         else SOk None, ()))))"

definition get_cached_last_log_index ::
    "('d, 'i) rocksdb \<Rightarrow> 'd Storage \<Rightarrow> ColumnFamily \<Rightarrow> u64 option sres \<times> 'd Storage" where
  "get_cached_last_log_index R s cf =
     (case last_log_index_cache s cf of
        Some index \<Rightarrow> (SOk (Some index), s)
      | None \<Rightarrow>
          sbind (get_last_log_index_from_db R s cf, s) (\<lambda>index s.
            (SOk index, case index of
               None \<Rightarrow> s
             | Some idx \<Rightarrow> s\<lparr>last_log_index_cache := (last_log_index_cache s)(cf \<mapsto> idx)\<rparr>)))"

definition get_last_log_index ::
    "('d, 'i) rocksdb \<Rightarrow> 'd Storage \<Rightarrow> ColumnFamily \<Rightarrow> u64 option sres \<times> 'd Storage" where
  "get_last_log_index R s cf = get_cached_last_log_index R s cf"

definition update_cached_last_log_index :: "'d Storage \<Rightarrow> ColumnFamily \<Rightarrow> u64 \<Rightarrow> unit sres \<times> 'd Storage" where
  "update_cached_last_log_index s cf new_index =
     (SOk (), s\<lparr>last_log_index_cache := (last_log_index_cache s)(cf \<mapsto> new_index)\<rparr>)"

fun warm_up_cfs :: "('d, 'i) rocksdb \<Rightarrow> ColumnFamily list \<Rightarrow> 'd Storage \<Rightarrow> unit sres \<times> 'd Storage" where
  "warm_up_cfs R [] s = (SOk (), s)"
| "warm_up_cfs R (cf # cfs) s =
     sbind (get_last_log_index_from_db R s cf, s) (\<lambda>last s.
       warm_up_cfs R cfs (case last of
           None \<Rightarrow> s
         | Some last_index \<Rightarrow> s\<lparr>last_log_index_cache := (last_log_index_cache s)(cf \<mapsto> last_index)\<rparr>))"

definition warm_up_index_cache :: "('d, 'i) rocksdb \<Rightarrow> 'd Storage \<Rightarrow> unit sres \<times> 'd Storage" where
  "warm_up_index_cache R s = warm_up_cfs R [SystemRaftLog, DataRaftLog] s"

subsection \<open>Appending\<close>

text \<open>The index check: the error, or the index that is expected. \<open>last + 1\<close> overflows on the last
  index there is.\<close>

definition check_log_index :: "ColumnFamily \<Rightarrow> u64 option \<Rightarrow> u64 \<Rightarrow> u64 sres" where
  "check_log_index cf last_index index =
     (case last_index of
        None \<Rightarrow>
          if index \<noteq> 1 then
            SErr (InvalidLogIndex (as_str cf) 1 index (bstr ''First log entry must have index 1''))
          else SOk 1
      | Some lst \<Rightarrow>
          if unat lst + 1 = 2 ^ 64 then SPanic
          else let expected = lst + 1 in
            if index \<noteq> expected then
              SErr (InvalidLogIndex (as_str cf) expected index
                (if expected < index then
                   bstr ''Gap in log (expected '' @ dec_string (unat expected) @ bstr '', got '' @
                     dec_string (unat index) @ bstr '')''
                 else bstr ''Duplicate index (last was '' @ dec_string (unat lst) @ bstr '')''))
            else SOk expected)"

definition append_log_entry ::
    "('d, 'i) rocksdb \<Rightarrow> 'd Storage \<Rightarrow> ColumnFamily \<Rightarrow> u64 \<Rightarrow> bytes \<Rightarrow> unit sres \<times> 'd Storage" where
  "append_log_entry R s cf index entry_bytes =
     (if \<not> is_log_cf cf then
        (SErr (InvalidColumnFamily (as_str cf)
           ''append_log_entry only works on log CFs (SystemRaftLog, DataRaftLog)''), s)
      else
        sbind (get_cached_last_log_index R s cf) (\<lambda>last_index s.
        sbind (check_log_index cf last_index index, s) (\<lambda>_ s.
        sbind (get_cf_handle R s cf, s) (\<lambda>h s.
        sbind (let (r, d) = put_cf_opt R (db s) h (format_log_key index) entry_bytes False
               in (rocks_res r, s\<lparr>db := d\<rparr>)) (\<lambda>_ s.
        update_cached_last_log_index s cf index)))))"

subsection \<open>Reading a range\<close>

partial_function (option) log_range_loop ::
    "('d, 'i) rocksdb \<Rightarrow> ColumnFamily \<Rightarrow> u64 \<Rightarrow> 'i StorageIterator \<Rightarrow> bytes list \<Rightarrow> bytes list sres option" where
  "log_range_loop R cf stop it entries =
     (if \<not> iter_valid R (inner it) then Some (SOk entries)
      else case iter_key R (inner it) of
          None \<Rightarrow> Some (SOk entries)
        | Some key \<Rightarrow>
            if length key < 24 \<or> take 4 key \<noteq> bstr ''log:'' then Some (SOk entries)
            else if \<not> from_utf8_ok (take 20 (drop 4 key)) then
              Some (SErr (CorruptedData (as_str cf) key (bstr ''Invalid log key format'')))
            else (case u64_from_str (take 20 (drop 4 key)) of
                None \<Rightarrow> Some (SErr (CorruptedData (as_str cf) key (bstr ''Invalid log index'')))
              | Some index \<Rightarrow>
                  if stop \<le> index then Some (SOk entries)
                  else (case step_forward R it of
                      (SOk _, it') \<Rightarrow>
                        log_range_loop R cf stop it'
                          (case iter_value R (inner it) of None \<Rightarrow> entries | Some val \<Rightarrow> entries @ [val])
                    | (SErr e, _) \<Rightarrow> Some (SErr e)
                    | (SPanic, _) \<Rightarrow> Some SPanic)))"

definition get_log_range ::
    "('d, 'i) rocksdb \<Rightarrow> 'd Storage \<Rightarrow> ColumnFamily \<Rightarrow> u64 \<Rightarrow> u64 \<Rightarrow> bytes list sres option" where
  "get_log_range R s cf start stop =
     (if \<not> is_log_cf cf then
        Some (SErr (InvalidColumnFamily (as_str cf)
          ''get_log_range only works on log CFs (SystemRaftLog, DataRaftLog)''))
      else (case storage_iterator R s cf (From (format_log_key start) Forward) of
          SOk it \<Rightarrow> log_range_loop R cf stop it []
        | SErr e \<Rightarrow> Some (SErr e)
        | SPanic \<Rightarrow> Some SPanic))"

subsection \<open>Truncating\<close>

text \<open>The deletes of \<open>for index in 1..stop\<close>; \<open>1..=last\<close> is the range up to \<open>last + 1\<close>.\<close>

definition delete_log_keys :: "string \<Rightarrow> nat \<Rightarrow> rocks_op list" where
  "delete_log_keys h stop = map (\<lambda>i. RocksDelete h (format_log_key (of_nat i))) [1..<stop]"

definition truncate_log_before ::
    "('d, 'i) rocksdb \<Rightarrow> 'd Storage \<Rightarrow> ColumnFamily \<Rightarrow> u64 \<Rightarrow> unit sres \<times> 'd Storage" where
  "truncate_log_before R s cf truncate_index =
     (if \<not> is_log_cf cf then
        (SErr (InvalidColumnFamily (as_str cf)
           ''truncate_log_before only works on log CFs (SystemRaftLog, DataRaftLog)''), s)
      else
        sbind (get_cached_last_log_index R s cf) (\<lambda>last_index s.
          case last_index of
            None \<Rightarrow> (SOk (), s)
          | Some lst \<Rightarrow>
              let should_invalidate_cache = lst < truncate_index in
              sbind (get_cf_handle R s cf, s) (\<lambda>h s.
                let batch = (if should_invalidate_cache then delete_log_keys h (unat lst + 1)
                             else delete_log_keys h (unat truncate_index))
                in sbind (let (r, d) = write_opt R (db s) batch False in (rocks_res r, s\<lparr>db := d\<rparr>))
                     (\<lambda>_ s. (SOk (), s\<lparr>last_log_index_cache := (last_log_index_cache s)(cf := None)\<rparr>)))))"

subsection \<open>Batches\<close>

definition MAX_BATCH_OPERATIONS :: usize where
  "MAX_BATCH_OPERATIONS = 100000"

fun batch_ops :: "('d, 'i) rocksdb \<Rightarrow> 'd Storage \<Rightarrow> BatchOperation list \<Rightarrow> rocks_op list sres" where
  "batch_ops R s [] = SOk []"
| "batch_ops R s (w # ws) =
     (case get_cf_handle R s (op_cf w) of
        SOk h \<Rightarrow>
          (case batch_ops R s ws of
             SOk rest \<Rightarrow>
               SOk (if is_put w then (case op_value w of None \<Rightarrow> rest | Some val \<Rightarrow> RocksPut h (op_key w) val # rest)
                    else RocksDelete h (op_key w) # rest)
           | SErr e \<Rightarrow> SErr e | SPanic \<Rightarrow> SPanic)
      | SErr e \<Rightarrow> SErr e | SPanic \<Rightarrow> SPanic)"

definition batch_write :: "('d, 'i) rocksdb \<Rightarrow> 'd Storage \<Rightarrow> WriteBatch \<Rightarrow> unit sres \<times> 'd Storage" where
  "batch_write R s batch =
     (if batch_is_empty batch then (SOk (), s)
      else if MAX_BATCH_OPERATIONS < length (operations batch) then
        (SErr (BatchTooLarge (length (operations batch)) MAX_BATCH_OPERATIONS), s)
      else sbind (batch_ops R s (operations batch), s) (\<lambda>ops s.
        let (r, d) = write_opt R (db s) ops (batch_requires_fsync batch) in (rocks_res r, s\<lparr>db := d\<rparr>)))"

subsection \<open>Opening and closing\<close>

record DBOptions =
  opt_create_if_missing :: bool
  opt_create_missing_column_families :: bool
  opt_compression_type :: DBCompressionType
  opt_max_open_files :: "32 word"
  opt_statistics :: bool

text \<open>The options of a column family; \<open>None\<close> is a setting left at RocksDB's default.\<close>

record CfDescriptor =
  cf_name :: string
  cf_compaction_style :: "DBCompactionStyle option"
  cf_disable_auto_compactions :: "bool option"
  cf_level_zero_trigger :: "32 word option"
  cf_write_buffer_size :: usize
  cf_max_write_buffer_number :: "32 word"
  cf_target_file_size_base :: u64
  cf_prefix_extractor :: "SliceTransform option"

definition cf_descriptor :: "StorageOptions \<Rightarrow> ColumnFamily \<Rightarrow> CfDescriptor" where
  "cf_descriptor opts cf =
     (case cf_options opts cf of
        Some c \<Rightarrow>
          \<lparr>cf_name = as_str cf, cf_compaction_style = Some (compaction_style c),
           cf_disable_auto_compactions = Some (disable_auto_compactions c),
           cf_level_zero_trigger = Some (level0_file_num_compaction_trigger c),
           cf_write_buffer_size =
             (case write_buffer_size c of None \<Rightarrow> write_buffer_size_mb opts * 1024 * 1024 | Some n \<Rightarrow> n),
           cf_max_write_buffer_number = of_nat (max_write_buffer_number opts),
           cf_target_file_size_base = of_nat (target_file_size_mb opts * 1024 * 1024),
           cf_prefix_extractor = prefix_extractor c\<rparr>
      | None \<Rightarrow>
          \<lparr>cf_name = as_str cf, cf_compaction_style = None,
           cf_disable_auto_compactions = None,
           cf_level_zero_trigger = None,
           cf_write_buffer_size = write_buffer_size_mb opts * 1024 * 1024,
           cf_max_write_buffer_number = of_nat (max_write_buffer_number opts),
           cf_target_file_size_base = of_nat (target_file_size_mb opts * 1024 * 1024),
           cf_prefix_extractor = None\<rparr>)"

definition db_options :: "StorageOptions \<Rightarrow> DBOptions" where
  "db_options opts =
     \<lparr>opt_create_if_missing = create_if_missing opts, opt_create_missing_column_families = True,
      opt_compression_type = compression opts, opt_max_open_files = max_open_files opts,
      opt_statistics = enable_statistics opts\<rparr>"

text \<open>\<open>open_cf\<close> is \<open>DB::open_cf_descriptors\<close>. No storage is returned on an error.\<close>

definition storage_new ::
    "('d, 'i) rocksdb \<Rightarrow> (DBOptions \<Rightarrow> string \<Rightarrow> CfDescriptor list \<Rightarrow> string + 'd) \<Rightarrow> StorageOptions \<Rightarrow>
     'd Storage sres" where
  "storage_new R open_cf opts =
     (case validate opts of
        Inl e \<Rightarrow> SErr e
      | Inr _ \<Rightarrow>
          (case open_cf (db_options opts) (data_dir opts) (map (cf_descriptor opts) all_cfs) of
             Inl e \<Rightarrow> SErr (RocksDb e)
           | Inr d \<Rightarrow>
               (case warm_up_index_cache R
                   \<lparr>db = d, last_log_index_cache = Map.empty, path = data_dir opts\<rparr> of
                  (SOk _, s) \<Rightarrow> SOk s
                | (SErr e, _) \<Rightarrow> SErr e
                | (SPanic, _) \<Rightarrow> SPanic)))"

fun close_cfs :: "('d, 'i) rocksdb \<Rightarrow> ColumnFamily list \<Rightarrow> 'd Storage \<Rightarrow> unit sres \<times> 'd Storage" where
  "close_cfs R [] s = (SOk (), s)"
| "close_cfs R (cf # cfs) s =
     sbind (get_cf_handle R s cf, s) (\<lambda>h s.
     sbind (let (r, d) = flush_cf R (db s) h in (rocks_res r, s\<lparr>db := d\<rparr>)) (\<lambda>_ s.
     close_cfs R cfs s))"

definition close :: "('d, 'i) rocksdb \<Rightarrow> 'd Storage \<Rightarrow> unit sres \<times> 'd Storage" where
  "close R s = close_cfs R all_cfs s"

end
