(* ===== verification/Rocks_Log.thy ===== *)
theory Rocks_Log
  imports Rocks_Storage
begin

text \<open>
  The Raft logs of the RocksDB layer against their specification. A log is its first index and
  its entries; the specification appends at the next index only, reads slices and drops prefixes.
  \<open>log_inv\<close> relates a storage to the log one of its column families holds: the keys of the
  family are exactly those of the entries, and the cached last index, if there is one, is right.
\<close>

section \<open>Log keys sort like their indices\<close>

lemma digits_acc_bounds:
  "digits_acc n xs = Some a \<Longrightarrow> n * 10 ^ length xs \<le> a \<and> a < (n + 1) * 10 ^ length xs"
proof (induction xs arbitrary: n)
  case (Cons c cs)
  then have c: "is_digit c" "digits_acc (10 * n + digit_value c) cs = Some a"
    by (auto split: if_splits)
  let ?p = "10 ^ length cs :: nat"
  have "(10 * n + digit_value c) * ?p \<le> a" "a < (10 * n + digit_value c + 1) * ?p"
    using Cons.IH [OF c(2)] by auto
  moreover have "(10 * n + digit_value c + 1) * ?p \<le> (n + 1) * 10 ^ length (c # cs)"
    using digit_value_less [OF c(1)] mult_right_mono [of "10 * n + digit_value c + 1" "10 * (n + 1)" ?p]
    by (simp add: algebra_simps)
  moreover have "n * 10 ^ length (c # cs) \<le> (10 * n + digit_value c) * ?p"
    by (simp add: algebra_simps)
  ultimately show ?case by linarith
qed simp

lemma digits_acc_less:
  assumes "digits_acc n xs = Some a" "digits_acc m ys = Some b" "length xs = length ys" "n < m"
  shows "a < b"
proof -
  have "a < (n + 1) * 10 ^ length xs" using digits_acc_bounds [OF assms(1)] by simp
  also have "\<dots> \<le> m * 10 ^ length ys" using assms(3,4) mult_right_mono [of "n + 1" m "10 ^ length ys"] by simp
  also have "\<dots> \<le> b" using digits_acc_bounds [OF assms(2)] by simp
  finally show ?thesis .
qed

lemma digit_value_order:
  "is_digit c \<Longrightarrow> is_digit d \<Longrightarrow> c < d \<longleftrightarrow> digit_value c < digit_value d"
  by (auto simp: is_digit_def digit_value_def word_less_nat_alt word_le_nat_alt)

lemma digit_value_inj: "is_digit c \<Longrightarrow> is_digit d \<Longrightarrow> c = d \<longleftrightarrow> digit_value c = digit_value d"
  using digit_value_order by (metis linorder_neq_iff)

lemma blt_digits:
  "digits_acc n xs = Some a \<Longrightarrow> digits_acc n ys = Some b \<Longrightarrow> length xs = length ys \<Longrightarrow>
     blt xs ys \<longleftrightarrow> a < b"
proof (induction xs ys arbitrary: n rule: blt.induct)
  case (3 x xs y ys)
  then have d: "is_digit x" "is_digit y" and
    acc: "digits_acc (10 * n + digit_value x) xs = Some a" "digits_acc (10 * n + digit_value y) ys = Some b"
    by (auto split: if_splits)
  have len: "length xs = length ys" using "3.prems" by simp
  consider "digit_value x < digit_value y" | "digit_value y < digit_value x" | "x = y"
    using digit_value_inj [OF d] by linarith
  then show ?case
  proof cases
    case 1
    with digits_acc_less [OF acc len] d show ?thesis by (simp add: digit_value_order)
  next
    case 2
    with digits_acc_less [OF acc(2,1) len [symmetric]] d show ?thesis
      by (auto simp: digit_value_order digit_value_inj)
  next
    case 3
    with "3.IH" [OF acc(1)] acc(2) len show ?thesis by simp
  qed
qed auto

lemma length_log_pad [simp]: "length (zero_pad 20 (unat (i :: u64))) = 20"
  by (rule length_zero_pad) (use unsigned_less [of i, where 'a = nat] in simp_all)

lemma length_log_key [simp]: "length (format_log_key i) = 24"
  by (simp add: format_log_key_def bstr_def)

lemma log_key_less: "blt (format_log_key i) (format_log_key j) \<longleftrightarrow> i < j"
proof -
  have "digits_acc 0 (zero_pad 20 n) = Some n" for n
    using parse_digits_zero_pad [of 20 n] by (auto simp: parse_digits_def split: if_splits)
  then have "blt (zero_pad 20 (unat i)) (zero_pad 20 (unat j)) \<longleftrightarrow> unat i < unat j"
    by (intro blt_digits [of 0]) simp_all
  then show ?thesis by (simp add: format_log_key_def blt_append word_less_nat_alt)
qed

lemma log_key_inj [simp]: "format_log_key i = format_log_key j \<longleftrightarrow> i = j"
  by (metis blt_irrefl log_key_less linorder_neq_iff)

lemma log_key_prefix [simp]:
  "take 4 (format_log_key i) = bstr ''log:''" "drop 4 (format_log_key i) = zero_pad 20 (unat i)"
  "take 20 (zero_pad 20 (unat i)) = zero_pad 20 (unat i)"
  by (simp_all add: format_log_key_def bstr_def)

lemma log_key_utf8 [simp]: "from_utf8_ok (format_log_key i)" "from_utf8_ok (zero_pad 20 n)"
  by (rule from_utf8_ok_ascii; auto simp: format_log_key_def bstr_def dest!: zero_pad_digits is_digit_neqs)+

lemma log_key_parse [simp]: "u64_from_str (zero_pad 20 (unat i)) = Some i"
proof -
  obtain c cs where z: "zero_pad 20 (unat i) = c # cs"
    using length_log_pad [of i] by (cases "zero_pad 20 (unat i)") auto
  then have "c \<noteq> 43" using zero_pad_digits [of c 20 "unat i"] is_digit_neqs by auto
  with z show ?thesis
    using parse_digits_zero_pad [of 20 "unat i"] unsigned_less [of i, where 'a = nat] by (simp add: u64_from_str_def)
qed

section \<open>The specification\<close>

type_synonym raft_log = "nat \<times> bytes list"

datatype log_cmd = AppendEntry u64 bytes | TruncateBefore u64

fun next_index :: "raft_log \<Rightarrow> nat" where
  "next_index (lo, es) = (if es = [] then 1 else lo + length es)"

fun log_spec :: "log_cmd \<Rightarrow> raft_log \<Rightarrow> bool \<times> raft_log" where
  "log_spec (AppendEntry index e) (lo, es) =
     (if unat index = next_index (lo, es) then (True, (if es = [] then 1 else lo), es @ [e])
      else (False, lo, es))"
| "log_spec (TruncateBefore t) (lo, es) = (True, max lo (unat t), drop (unat t - lo) es)"

fun run_spec :: "log_cmd list \<Rightarrow> raft_log \<Rightarrow> bool list \<times> raft_log" where
  "run_spec [] l = ([], l)"
| "run_spec (c # cs) l = (let (b, l') = log_spec c l; (bs, l'') = run_spec cs l' in (b # bs, l''))"

fun log_slice :: "raft_log \<Rightarrow> nat \<Rightarrow> nat \<Rightarrow> bytes list" where
  "log_slice (lo, es) start stop = take (stop - max start lo) (drop (start - lo) es)"

fun log_last :: "raft_log \<Rightarrow> u64 option" where
  "log_last (lo, es) = (if es = [] then None else Some (of_nat (lo + length es - 1)))"

section \<open>The storage as a log\<close>

fun storage_cmd :: "('d, 'i) rocksdb \<Rightarrow> ColumnFamily \<Rightarrow> log_cmd \<Rightarrow> 'd Storage \<Rightarrow> unit sres \<times> 'd Storage" where
  "storage_cmd R cf (AppendEntry index e) s = append_log_entry R s cf index e"
| "storage_cmd R cf (TruncateBefore t) s = truncate_log_before R s cf t"

fun run_storage ::
    "('d, 'i) rocksdb \<Rightarrow> ColumnFamily \<Rightarrow> log_cmd list \<Rightarrow> 'd Storage \<Rightarrow> unit sres list \<times> 'd Storage" where
  "run_storage R cf [] s = ([], s)"
| "run_storage R cf (c # cs) s =
     (let (r, s') = storage_cmd R cf c s; (rs, s'') = run_storage R cf cs s' in (r # rs, s''))"

text \<open>The key of a log index as a number.\<close>

definition nat_key :: "nat \<Rightarrow> bytes" where
  "nat_key n = format_log_key (of_nat n)"

fun log_pairs :: "raft_log \<Rightarrow> (bytes \<times> bytes) list" where
  "log_pairs (lo, es) = map (\<lambda>i. (nat_key (lo + i), es ! i)) [0..<length es]"

fun log_fits :: "raft_log \<Rightarrow> bool" where
  "log_fits (lo, es) \<longleftrightarrow> 1 \<le> lo \<and> lo + length es \<le> 2 ^ 64"

definition log_inv :: "('d, 'i) rocksdb \<Rightarrow> ('d \<Rightarrow> store_map) \<Rightarrow> 'd Storage \<Rightarrow> ColumnFamily \<Rightarrow> raft_log \<Rightarrow> bool" where
  "log_inv R store s cf l \<longleftrightarrow>
     is_log_cf cf \<and> (\<forall>c. cf_handle R (db s) (as_str c)) \<and> log_fits l \<and>
     store (db s) (as_str cf) = map_of (log_pairs l) \<and>
     (last_log_index_cache s cf = None \<or> last_log_index_cache s cf = log_last l)"

text \<open>Nothing but the named family changes.\<close>

definition others_kept :: "('d \<Rightarrow> store_map) \<Rightarrow> ColumnFamily \<Rightarrow> 'd Storage \<Rightarrow> 'd Storage \<Rightarrow> bool" where
  "others_kept store cf s s' \<longleftrightarrow>
     (\<forall>c. c \<noteq> as_str cf \<longrightarrow> store (db s') c = store (db s) c) \<and>
     (\<forall>c. c \<noteq> cf \<longrightarrow> last_log_index_cache s' c = last_log_index_cache s c) \<and> path s' = path s"

subsection \<open>Entries\<close>

lemma length_log_pairs [simp]: "length (log_pairs l) = length (snd l)"
  by (cases l) simp

lemma unat_u64: "n < 2 ^ 64 \<Longrightarrow> unat (of_nat n :: u64) = n"
  by (simp add: unat_of_nat take_bit_nat_eq_self)

lemma nat_key_unat [simp]: "nat_key (unat i) = format_log_key i"
  by (simp add: nat_key_def)

lemma nat_key_less: "i < 2 ^ 64 \<Longrightarrow> j < 2 ^ 64 \<Longrightarrow> blt (nat_key i) (nat_key j) \<longleftrightarrow> i < j"
  by (simp add: nat_key_def log_key_less word_less_nat_alt unat_u64)

lemma nat_key_inj: "i < 2 ^ 64 \<Longrightarrow> j < 2 ^ 64 \<Longrightarrow> nat_key i = nat_key j \<longleftrightarrow> i = j"
  using nat_key_less [of i j] nat_key_less [of j i] by (metis blt_irrefl linorder_neq_iff)

lemma log_pairs_sorted: "log_fits l \<Longrightarrow> key_sorted (log_pairs l)"
  by (cases l) (simp add: key_sorted_def sorted_wrt_iff_nth_less nat_key_less)

lemma log_pairs_Some:
  assumes "log_fits (lo, es)"
  shows "map_of (log_pairs (lo, es)) k = Some v \<longleftrightarrow> (\<exists>j < length es. k = nat_key (lo + j) \<and> v = es ! j)"
proof -
  have "map_of (log_pairs (lo, es)) k = Some v \<longleftrightarrow> (k, v) \<in> set (log_pairs (lo, es))"
    using key_sorted_distinct [OF log_pairs_sorted [OF assms]] by (intro map_of_eq_Some_iff)
  then show ?thesis by auto
qed

lemma map_eqI: "(\<And>k v. m k = Some v \<longleftrightarrow> m' k = Some v) \<Longrightarrow> m = m'"
  by (rule ext) (metis not_None_eq)

lemma log_pairs_snoc: "log_pairs (lo, es @ [e]) = log_pairs (lo, es) @ [(nat_key (lo + length es), e)]"
  by (simp add: nth_append)

lemma map_of_log_snoc:
  assumes "log_fits (lo, es @ [e])"
  shows "map_of (log_pairs (lo, es @ [e])) = (map_of (log_pairs (lo, es)))(nat_key (lo + length es) \<mapsto> e)"
proof -
  have "nat_key (lo + length es) \<notin> fst ` set (log_pairs (lo, es))"
    using key_sorted_distinct [OF log_pairs_sorted [OF assms]] unfolding log_pairs_snoc
    by (simp add: image_image)
  then have "map_of (log_pairs (lo, es)) (nat_key (lo + length es)) = None"
    by (simp only: map_of_eq_None_iff not_False_eq_True)
  then show ?thesis unfolding log_pairs_snoc by (auto simp: fun_eq_iff map_add_def split: option.splits)
qed

text \<open>Deleting the keys below an index leaves the suffix of the log.\<close>

lemma delete_log_keys_effect:
  "fold op_effect (delete_log_keys h stop) m = m(h := (m h) |` (- nat_key ` {1..<stop}))"
proof (induction stop)
  case (Suc n)
  then show ?case
    by (cases "n = 0")
      (auto simp: delete_log_keys_def fun_eq_iff restrict_map_def nat_key_def less_Suc_eq_le
        atLeastLessThanSuc)
qed (simp add: delete_log_keys_def)

lemma map_of_log_drop:
  assumes "log_fits (lo, es)" "stop \<le> 2 ^ 64" "log_fits (max lo stop, drop (stop - lo) es)"
  shows "map_of (log_pairs (lo, es)) |` (- nat_key ` {1..<stop}) =
    map_of (log_pairs (max lo stop, drop (stop - lo) es))"
proof (rule map_eqI)
  fix k v
  have "map_of (log_pairs (lo, es)) k = Some v \<and> k \<notin> nat_key ` {1..<stop} \<longleftrightarrow>
      (\<exists>j < length es. stop \<le> lo + j \<and> k = nat_key (lo + j) \<and> v = es ! j)"
  proof -
    have "nat_key (lo + j) \<in> nat_key ` {1..<stop} \<longleftrightarrow> lo + j < stop" if "j < length es" for j
      using assms(1,2) that by (auto simp: nat_key_inj image_iff)
    then show ?thesis unfolding log_pairs_Some [OF assms(1)] by (metis not_less)
  qed
  also have "\<dots> \<longleftrightarrow> (\<exists>j < length es - (stop - lo). k = nat_key (max lo stop + j) \<and> v = drop (stop - lo) es ! j)"
    (is "?l = ?r")
  proof
    assume ?l
    then obtain j where "j < length es" "stop \<le> lo + j" "k = nat_key (lo + j)" "v = es ! j" by blast
    then show ?r by (intro exI [of _ "j - (stop - lo)"]) (auto simp: max_def add.commute)
  next
    assume ?r
    then obtain j where "j < length es - (stop - lo)" "k = nat_key (max lo stop + j)"
      "v = drop (stop - lo) es ! j" by blast
    then show ?l by (intro exI [of _ "j + (stop - lo)"]) (auto simp: max_def add.commute)
  qed
  finally show "(map_of (log_pairs (lo, es)) |` (- nat_key ` {1..<stop})) k = Some v \<longleftrightarrow>
      map_of (log_pairs (max lo stop, drop (stop - lo) es)) k = Some v"
    unfolding log_pairs_Some [OF assms(3)] by (auto simp: restrict_map_def)
qed

subsection \<open>Each operation\<close>

lemma cf_handle_ok [simp]: "log_inv R store s cf l \<Longrightarrow> get_cf_handle R s c = SOk (as_str c)"
  by (simp add: log_inv_def get_cf_handle_def)

lemma log_entries:
  assumes "rocks_iterators R store cursor" "log_inv R store s cf l"
  shows "fst (cursor (raw_iterator_cf R (db s) (as_str cf))) = log_pairs l"
  using assms by (intro iterators_entries [OF assms(1) log_pairs_sorted]) (simp_all add: log_inv_def)

lemma last_index_from_db:
  assumes "rocks_iterators R store cursor" "log_inv R store s cf l"
  shows "get_last_log_index_from_db R s cf = SOk (log_last l)"
proof -
  let ?it = "iter_seek_to_last R (raw_iterator_cf R (db s) (as_str cf))"
  obtain lo es where l: "l = (lo, es)" by force
  have cur: "cursor ?it = (log_pairs l, length es - 1)"
    using iterators_simps(2) [OF assms(1)] log_entries [OF assms] by (simp add: l)
  have cf: "is_log_cf cf" using assms(2) by (simp add: log_inv_def)
  show ?thesis
  proof (cases "es = []")
    case True
    then have "\<not> iter_valid R ?it" using iterators_simps(3) [OF assms(1)] cur l by simp
    with True show ?thesis by (simp add: get_last_log_index_from_db_def cf l cf_handle_ok [OF assms(2)])
  next
    case False
    then have "lo + (length es - 1) = lo + length es - 1" by (cases es) simp_all
    with False have key: "iter_valid R ?it" "iter_key R ?it = Some (format_log_key (of_nat (lo + length es - 1)))"
      using iterators_at(1,2) [OF assms(1) cur] l by (simp_all add: nat_key_def del: of_nat_add)
    with False show ?thesis
      by (simp add: get_last_log_index_from_db_def cf l cf_handle_ok [OF assms(2)] Let_def del: of_nat_add)
  qed
qed

lemma cached_last_index:
  assumes "rocks_iterators R store cursor" "log_inv R store s cf l"
  obtains s' where "get_cached_last_log_index R s cf = (SOk (log_last l), s')"
    "log_inv R store s' cf l" "db s' = db s" "others_kept store cf s s'"
proof (cases "last_log_index_cache s cf")
  case (Some i)
  with assms(2) have "log_last l = Some i" by (simp add: log_inv_def)
  with Some assms(2) that [of s] show thesis
    by (simp add: get_cached_last_log_index_def others_kept_def)
next
  case None
  then have "get_cached_last_log_index R s cf = (SOk (log_last l), case log_last l of None \<Rightarrow> s
      | Some idx \<Rightarrow> s\<lparr>last_log_index_cache := (last_log_index_cache s)(cf \<mapsto> idx)\<rparr>)"
    using last_index_from_db [OF assms] by (simp add: get_cached_last_log_index_def)
  moreover have "log_inv R store (s\<lparr>last_log_index_cache := (last_log_index_cache s)(cf \<mapsto> idx)\<rparr>) cf l"
    if "log_last l = Some idx" for idx
    using assms(2) that by (simp add: log_inv_def)
  ultimately show thesis
    using assms(2) that by (cases "log_last l") (simp_all add: others_kept_def)
qed

text \<open>The index check accepts exactly the next index.\<close>

lemma check_log_index_spec:
  assumes "log_fits l"
  shows "(\<exists>x. check_log_index cf (log_last l) index = SOk x) \<longleftrightarrow> unat index = next_index l"
proof -
  obtain lo es where l: "l = (lo, es)" by force
  show ?thesis
  proof (cases "es = []")
    case True
    have "unat index = 1 \<longleftrightarrow> index = 1" by (simp add: word_unat_eq_iff)
    with True l show ?thesis by (simp add: check_log_index_def)
  next
    case False
    let ?n = "lo + length es"
    have u: "unat (of_nat (?n - 1) :: u64) = ?n - 1" using assms False l by (intro unat_u64) auto
    show ?thesis
    proof (cases "?n = 2 ^ 64")
      case True
      then have "unat index \<noteq> ?n" using unsigned_less [of index, where 'a = nat] by simp
      with True False u l show ?thesis by (simp add: check_log_index_def del: of_nat_diff)
    next
      case n: False
      have "(of_nat (?n - 1) :: u64) + 1 = of_nat ?n" using False by (cases es) simp_all
      moreover have "index = of_nat ?n \<longleftrightarrow> unat index = ?n"
        using n assms l unat_u64 [of ?n] by (auto simp: word_unat_eq_iff)
      ultimately show ?thesis
        using False n u l by (simp add: check_log_index_def Let_def del: of_nat_diff of_nat_add)
    qed
  qed
qed

lemma log_lastI: "es \<noteq> [] \<Longrightarrow> lo + length es = unat i + 1 \<Longrightarrow> log_last (lo, es) = Some i"
  by simp

lemma log_lastE:
  assumes "log_fits (lo, es)" "es \<noteq> []"
  obtains i where "log_last (lo, es) = Some i" "lo + length es = unat i + 1"
proof (rule that)
  show "log_last (lo, es) = Some (of_nat (lo + length es - 1))" using assms(2) by simp
  have "unat (of_nat (lo + length es - 1) :: u64) = lo + length es - 1"
    using assms by (intro unat_u64) auto
  then show "lo + length es = unat (of_nat (lo + length es - 1) :: u64) + 1"
    using assms(2) by (cases es) simp_all
qed

lemma log_fits_append:
  assumes "log_fits l" "unat (index :: u64) = next_index l" "log_spec (AppendEntry index e) l = (b, l')"
  shows "log_fits l'"
  using assms unsigned_less [of index, where 'a = nat] by (cases l) (auto split: if_splits)

text \<open>What the writes of an append and of a truncation leave is the log of the specification.\<close>

lemma append_effect:
  assumes "log_inv R store s cf l" "unat index = next_index l" "cf_handle R d = cf_handle R (db s)"
    "store d = op_effect (RocksPut (as_str cf) (format_log_key index) e) (store (db s))"
    "log_spec (AppendEntry index e) l = (b, l')"
  shows "b \<and> log_inv R store (s\<lparr>db := d, last_log_index_cache := (last_log_index_cache s)(cf \<mapsto> index)\<rparr>) cf l'"
proof -
  have fits: "log_fits l" using assms(1) by (simp add: log_inv_def)
  obtain lo es where l: "l = (lo, es)" by force
  have fits': "log_fits l'" using log_fits_append [OF fits assms(2,5)] .
  have l': "b" "l' = ((if es = [] then 1 else lo), es @ [e])" using assms(2,5) l by auto
  have "map_of (log_pairs l') = (map_of (log_pairs l))(format_log_key index \<mapsto> e)"
    using map_of_log_snoc [OF fits' [unfolded l'(2)]] assms(2) nat_key_unat [of index] l l'(2)
    by (cases "es = []") (simp_all del: nat_key_unat)
  moreover have "log_last l' = Some index"
    using assms(2) l unfolding l'(2) by (intro log_lastI) (auto split: if_splits)
  ultimately show ?thesis
    using assms(1,3,4) fits' l'(1) by (simp add: log_inv_def)
qed

lemma truncate_effect:
  assumes "log_inv R store s cf l" "log_last l = Some i" "cf_handle R d = cf_handle R (db s)"
    "store d = fold op_effect (delete_log_keys (as_str cf) (if i < t then unat i + 1 else unat t)) (store (db s))"
    "log_spec (TruncateBefore t) l = (b, l')"
  shows "b \<and> log_inv R store (s\<lparr>db := d, last_log_index_cache := (last_log_index_cache s)(cf := None)\<rparr>) cf l'"
proof -
  have fits: "log_fits l" using assms(1) by (simp add: log_inv_def)
  obtain lo es where l: "l = (lo, es)" by force
  have l': "b" "l' = (max lo (unat t), drop (unat t - lo) es)" using assms(5) l by auto
  have fits': "log_fits l'" using fits l l'(2) unsigned_less [of t, where 'a = nat] by auto
  have "es \<noteq> []" using assms(2) l by auto
  then have i: "lo + length es = unat i + 1" using log_lastE fits l assms(2) by (metis option.inject)
  define stop where "stop = (if i < t then unat i + 1 else unat t)"
  have stop: "stop = min (lo + length es) (unat t)" "stop \<le> 2 ^ 64"
    using i fits l by (auto simp: stop_def word_less_nat_alt)
  have "log_pairs (max lo stop, drop (stop - lo) es) = log_pairs l'"
    using stop(1) l'(2) by (cases "unat t \<le> lo + length es") (auto simp: min_def)
  moreover have "log_fits (max lo stop, drop (stop - lo) es)"
    using fits fits' l l'(2) stop by (auto simp: min_def)
  ultimately have "map_of (log_pairs l) |` (- nat_key ` {1..<stop}) = map_of (log_pairs l')"
    using map_of_log_drop [of lo es stop] fits l stop(2) by simp
  then show ?thesis
    using assms(1,3) assms(4) [folded stop_def] fits' l'(1) by (simp add: log_inv_def delete_log_keys_effect)
qed

lemma append_simulates:
  assumes "rocks_ok R store cursor" "log_inv R store s cf l"
    "append_log_entry R s cf index e = (r, s')" "log_spec (AppendEntry index e) l = (b, l')"
  shows "(r = SOk () \<longleftrightarrow> b) \<and> log_inv R store s' cf l' \<and> others_kept store cf s s'"
proof -
  obtain s1 where s1: "get_cached_last_log_index R s cf = (SOk (log_last l), s1)"
    "log_inv R store s1 cf l" "db s1 = db s" "others_kept store cf s s1"
    using cached_last_index [OF rocks_ok_iterators [OF assms(1)] assms(2)] by blast
  have cf: "is_log_cf cf" and fits: "log_fits l" using assms(2) by (simp_all add: log_inv_def)
  obtain lo es where l: "l = (lo, es)" by force
  note step = assms(3) [unfolded append_log_entry_def s1(1)]
  show ?thesis
  proof (cases "unat index = next_index l")
    case False
    then have "check_log_index cf (log_last l) index \<noteq> SOk x" for x
      using check_log_index_spec [OF fits] by metis
    then have "r \<noteq> SOk () \<and> s' = s1"
      using step cf by (cases "check_log_index cf (log_last l) index") auto
    with False s1 assms(4) l show ?thesis by simp
  next
    case True
    then obtain x where x: "check_log_index cf (log_last l) index = SOk x"
      using check_log_index_spec [OF fits] by metis
    obtain d where d: "put_cf_opt R (db s1) (as_str cf) (format_log_key index) e False = (Inr (), d)"
      "store d = op_effect (RocksPut (as_str cf) (format_log_key index) e) (store (db s1))"
      "cf_handle R d = cf_handle R (db s1)"
      using assms(1) unfolding rocks_ok_def rocks_writes_def by blast
    have r: "r = SOk ()" "s' = s1\<lparr>db := d, last_log_index_cache := (last_log_index_cache s1)(cf \<mapsto> index)\<rparr>"
      using step cf x d(1) cf_handle_ok [OF s1(2), of cf] by (auto simp: update_cached_last_log_index_def)
    have "b \<and> log_inv R store s' cf l'" unfolding r(2) by (rule append_effect [OF s1(2) True d(3,2) assms(4)])
    moreover have "others_kept store cf s s'" using s1(3,4) d(2) r(2) by (simp add: others_kept_def)
    ultimately show ?thesis using r(1) by simp
  qed
qed

lemma truncate_simulates:
  assumes "rocks_ok R store cursor" "log_inv R store s cf l"
    "truncate_log_before R s cf t = (r, s')" "log_spec (TruncateBefore t) l = (b, l')"
  shows "(r = SOk () \<longleftrightarrow> b) \<and> log_inv R store s' cf l' \<and> others_kept store cf s s'"
proof -
  obtain s1 where s1: "get_cached_last_log_index R s cf = (SOk (log_last l), s1)"
    "log_inv R store s1 cf l" "db s1 = db s" "others_kept store cf s s1"
    using cached_last_index [OF rocks_ok_iterators [OF assms(1)] assms(2)] by blast
  have cf: "is_log_cf cf" and fits: "log_fits l" using assms(2) by (simp_all add: log_inv_def)
  obtain lo es where l: "l = (lo, es)" by force
  note step = assms(3) [unfolded truncate_log_before_def s1(1)]
  show ?thesis
  proof (cases "es = []")
    case True
    then have "r = SOk ()" "s' = s1" using step cf l by auto
    moreover have "log_fits (max lo (unat t), [])"
      using fits l unsigned_less [of t, where 'a = nat] by auto
    ultimately show ?thesis using True s1 l assms(4) by (auto simp: log_inv_def)
  next
    case False
    then obtain i where i: "log_last l = Some i" using l by simp
    define stop where "stop = (if i < t then unat i + 1 else unat t)"
    obtain d where d: "write_opt R (db s1) (delete_log_keys (as_str cf) stop) False = (Inr (), d)"
      "store d = fold op_effect (delete_log_keys (as_str cf) stop) (store (db s1))"
      "cf_handle R d = cf_handle R (db s1)"
      using assms(1) unfolding rocks_ok_def rocks_writes_def by blast
    then have r: "r = SOk ()" "s' = s1\<lparr>db := d, last_log_index_cache := (last_log_index_cache s1)(cf := None)\<rparr>"
      using step cf i cf_handle_ok [OF s1(2), of cf] by (auto simp: Let_def stop_def split: if_splits)
    have "b \<and> log_inv R store s' cf l'"
      unfolding r(2) by (rule truncate_effect [OF s1(2) i d(3) d(2) [unfolded stop_def] assms(4)])
    moreover have "others_kept store cf s s'"
      using s1(3,4) d(2) r(2) by (simp add: others_kept_def delete_log_keys_effect)
    ultimately show ?thesis using r(1) by simp
  qed
qed

subsection \<open>Reading a range\<close>

lemma seek_log:
  assumes "log_fits (lo, es)"
  shows "length (takeWhile (\<lambda>p. blt (fst p) (format_log_key start)) (log_pairs (lo, es))) =
    min (length es) (unat start - lo)"
proof -
  let ?n = "min (length es) (unat start - lo)"
  have key: "blt (nat_key (lo + i)) (format_log_key start) \<longleftrightarrow> lo + i < unat start" if "i < length es" for i
    using nat_key_less [of "lo + i" "unat start"] assms that unsigned_less [of start, where 'a = nat] by simp
  have "takeWhile (\<lambda>p. blt (fst p) (format_log_key start)) (log_pairs (lo, es)) = take ?n (log_pairs (lo, es))"
  proof (rule takeWhile_eq_take_P_nth)
    fix i assume "i < ?n"
    then show "blt (fst (log_pairs (lo, es) ! i)) (format_log_key start)" using key [of i] by auto
  next
    assume "?n < length (log_pairs (lo, es))"
    then show "\<not> blt (fst (log_pairs (lo, es) ! ?n)) (format_log_key start)"
      using key [of ?n] by (simp add: min_def split: if_splits)
  qed
  then show ?thesis by simp
qed

lemma log_range_loop_spec:
  assumes "rocks_ok R store cursor" "log_fits (lo, es)"
  shows "cursor (inner it) = (log_pairs (lo, es), n) \<Longrightarrow> n \<le> length es \<Longrightarrow>
    log_range_loop R cf stop it acc = Some (SOk (acc @ take (unat stop - (lo + n)) (drop n es)))"
proof (induction "length es - n" arbitrary: n it acc)
  case 0
  then have "\<not> iter_valid R (inner it)" using rocks_iter_simps(3) [OF assms(1)] by simp
  with 0 show ?case by (simp add: log_range_loop.simps)
next
  case (Suc m)
  then have n: "n < length es" by simp
  have i: "unat (of_nat (lo + n) :: u64) = lo + n" using assms(2) n by (intro unat_u64) simp
  note at = rocks_iter_at [OF assms(1) Suc.prems(1)]
  have here: "iter_valid R (inner it)" "iter_key R (inner it) = Some (format_log_key (of_nat (lo + n)))"
    "iter_value R (inner it) = Some (es ! n)"
    using at n by (simp_all add: nat_key_def del: of_nat_add)
  let ?it = "it\<lparr>inner := iter_next R (inner it)\<rparr>"
  have step: "step_forward R it = (SOk (Some (format_log_key (of_nat (lo + n)), es ! n)), ?it)"
    using here by (simp add: step_forward_def)
  have drop: "drop n es = es ! n # drop (Suc n) es" using n by (simp add: Cons_nth_drop_Suc)
  show ?case
  proof (cases "stop \<le> of_nat (lo + n)")
    case True
    then have "unat stop - (lo + n) = 0" using i by (simp add: word_le_nat_alt)
    with True here show ?thesis by (subst log_range_loop.simps) (simp del: of_nat_add)
  next
    case False
    then have more: "unat stop - (lo + n) = Suc (unat stop - (lo + Suc n))"
      using i by (simp add: word_le_nat_alt)
    have "log_range_loop R cf stop it acc = log_range_loop R cf stop ?it (acc @ [es ! n])"
      using False here step by (subst log_range_loop.simps) (simp del: of_nat_add)
    also have "\<dots> = Some (SOk ((acc @ [es ! n]) @ take (unat stop - (lo + Suc n)) (drop (Suc n) es)))"
      using Suc.hyps n at(4) by (intro Suc.hyps) simp_all
    finally show ?thesis using more drop by simp
  qed
qed

lemma take_drop_upt: "take m (drop a es) = map ((!) es) [a..<min (a + m) (length es)]"
  by (rule nth_equalityI) auto

lemma get_log_range_spec:
  assumes "rocks_ok R store cursor" "log_inv R store s cf l"
  shows "get_log_range R s cf start stop = Some (SOk (log_slice l (unat start) (unat stop)))"
proof -
  obtain lo es where l: "l = (lo, es)" by force
  let ?it = "\<lparr>inner = iter_seek R (raw_iterator_cf R (db s) (as_str cf)) (format_log_key start), iter_cf = cf\<rparr>"
  let ?n = "min (length es) (unat start - lo)"
  have cf: "is_log_cf cf" and fits: "log_fits (lo, es)" using assms(2) l by (simp_all add: log_inv_def)
  have "cursor (inner ?it) = (log_pairs (lo, es), ?n)"
    using rocks_iter_simps(1) [OF assms(1)] log_entries [OF rocks_ok_iterators [OF assms(1)] assms(2)] seek_log [OF fits] by (simp add: l del: log_pairs.simps)
  then have "log_range_loop R cf stop ?it [] = Some (SOk (take (unat stop - (lo + ?n)) (drop ?n es)))"
    using log_range_loop_spec [OF assms(1) fits, of ?it ?n cf stop "[]"] by simp
  moreover have "storage_iterator R s cf (From (format_log_key start) Forward) = SOk ?it"
    using cf_handle_ok [OF assms(2), of cf] by (simp add: storage_iterator_def Let_def)
  moreover have "take (unat stop - (lo + ?n)) (drop ?n es) = log_slice l (unat start) (unat stop)"
    using l by (cases "unat start - lo \<le> length es") (auto simp: min_def max_def)
  ultimately show ?thesis using cf by (simp add: get_log_range_def)
qed

subsection \<open>Sequences of operations\<close>

lemma run_simulates:
  assumes "rocks_ok R store cursor" "log_inv R store s cf l"
  shows "map (\<lambda>r. r = SOk ()) (fst (run_storage R cf cmds s)) = fst (run_spec cmds l) \<and>
    log_inv R store (snd (run_storage R cf cmds s)) cf (snd (run_spec cmds l)) \<and>
    others_kept store cf s (snd (run_storage R cf cmds s))"
  using assms(2)
proof (induction cmds arbitrary: s l)
  case Nil
  then show ?case by (simp add: others_kept_def)
next
  case (Cons c cmds)
  obtain r s' b l' where step: "storage_cmd R cf c s = (r, s')" "log_spec c l = (b, l')"
    by (meson surj_pair)
  then have "(r = SOk () \<longleftrightarrow> b) \<and> log_inv R store s' cf l' \<and> others_kept store cf s s'"
    using append_simulates [OF assms(1) Cons.prems] truncate_simulates [OF assms(1) Cons.prems]
    by (cases c) (metis storage_cmd.simps)+
  moreover from this Cons.IH [of s' l'] have
    "map (\<lambda>r. r = SOk ()) (fst (run_storage R cf cmds s')) = fst (run_spec cmds l') \<and>
     log_inv R store (snd (run_storage R cf cmds s')) cf (snd (run_spec cmds l')) \<and>
     others_kept store cf s' (snd (run_storage R cf cmds s'))" by blast
  ultimately show ?case
    using step by (simp add: split_beta others_kept_def)
qed

subsection \<open>A new log\<close>

definition fresh_storage :: "rocks_op list Storage" where
  "fresh_storage = \<lparr>db = [], last_log_index_cache = Map.empty, path = ''data''\<rparr>"

lemma fresh_log_inv: "is_log_cf cf \<Longrightarrow> log_inv log_db log_db_store fresh_storage cf (1, [])"
  using all_cfs_complete(1)
  by (auto simp: log_inv_def fresh_storage_def log_db_def log_db_store_def log_db_pairs_def)

text \<open>A log after two appends, one of them refused in between, as an input of the examples below.\<close>

definition example_cmds :: "log_cmd list" where
  "example_cmds = [AppendEntry 1 [7], AppendEntry 3 [8], AppendEntry 2 [9]]"

definition example_storage :: "rocks_op list Storage" where
  "example_storage = snd (run_storage log_db DataRaftLog example_cmds fresh_storage)"

lemma example_log_inv: "log_inv log_db log_db_store example_storage DataRaftLog (1, [[7], [9]])"
  using run_simulates [OF log_db_ok fresh_log_inv, of DataRaftLog example_cmds]
  by (simp add: example_storage_def example_cmds_def)

lemma example_system_inv: "log_inv log_db log_db_store example_storage SystemRaftLog (1, [])"
proof -
  have "others_kept log_db_store DataRaftLog fresh_storage example_storage"
    using run_simulates [OF log_db_ok fresh_log_inv, of DataRaftLog example_cmds]
    by (simp add: example_storage_def)
  then show ?thesis
    using example_log_inv fresh_log_inv [of SystemRaftLog] by (simp add: log_inv_def others_kept_def)
qed

subsection \<open>Opening a database\<close>

lemma warm_up_spec:
  assumes "rocks_ok R store cursor" "log_inv R store s SystemRaftLog l1" "log_inv R store s DataRaftLog l2"
  shows "warm_up_index_cache R \<lparr>db = db s, last_log_index_cache = Map.empty, path = p\<rparr> =
    (SOk (), \<lparr>db = db s, last_log_index_cache =
       Map.empty(SystemRaftLog := log_last l1, DataRaftLog := log_last l2), path = p\<rparr>)"
proof -
  have "get_last_log_index_from_db R \<lparr>db = db s, last_log_index_cache = m, path = p\<rparr> cf =
      get_last_log_index_from_db R s cf" for m cf
    by (simp add: get_last_log_index_from_db_def get_cf_handle_def)
  then show ?thesis
    using last_index_from_db [OF rocks_ok_iterators [OF assms(1)] assms(2)]
      last_index_from_db [OF rocks_ok_iterators [OF assms(1)] assms(3)]
    by (simp add: warm_up_index_cache_def fun_eq_iff split: option.split)
qed

section \<open>Properties\<close>

text \<open>C19: a Raft log kept in RocksDB refines the abstract log under every sequence of appends and
  truncations: an append is accepted exactly when its index is the next one (1 for an empty log),
  a refused append changes nothing, a truncation removes exactly the entries below its index, the
  last-index cache stays right throughout, and no other column family is touched.\<close>

theorem storage_log_refines:
  assumes "rocks_ok R store cursor" "log_inv R store s cf l"
  shows "map (\<lambda>r. r = SOk ()) (fst (run_storage R cf cmds s)) = fst (run_spec cmds l) \<and>
    log_inv R store (snd (run_storage R cf cmds s)) cf (snd (run_spec cmds l)) \<and>
    others_kept store cf s (snd (run_storage R cf cmds s))"
  by (rule run_simulates [OF assms])

theorem storage_log_refines_witness:
  "map (\<lambda>r. r = SOk ()) (fst (run_storage log_db DataRaftLog
     [AppendEntry 1 [7], AppendEntry 3 [8], AppendEntry 2 [9], TruncateBefore 2, AppendEntry 3 [5]] fresh_storage)) =
   [True, False, True, True, True]"
  using storage_log_refines [OF log_db_ok fresh_log_inv, of DataRaftLog
      "[AppendEntry 1 [7], AppendEntry 3 [8], AppendEntry 2 [9], TruncateBefore 2, AppendEntry 3 [5]]"]
  by simp

text \<open>C25: reading a range of a Raft log ends and returns exactly the entries whose index is at least
  the start and below the end, in order; indices the log does not hold are skipped.\<close>

theorem storage_log_range:
  assumes "rocks_ok R store cursor" "log_inv R store s cf (lo, es)"
  shows "get_log_range R s cf start stop = Some (SOk (map (\<lambda>i. es ! (i - lo))
    (filter (\<lambda>i. unat start \<le> i \<and> i < unat stop) [lo..<lo + length es])))"
proof -
  let ?a = "unat start - lo"
  let ?b = "min (?a + (unat stop - max (unat start) lo)) (length es)"
  have filt: "filter (\<lambda>i. unat start \<le> i \<and> i < unat stop) [lo..<lo + length es] =
      map (\<lambda>j. lo + j) (filter (\<lambda>j. unat start \<le> lo + j \<and> lo + j < unat stop) [0..<length es])"
  proof -
    have "[lo..<lo + length es] = map (\<lambda>j. lo + j) [0..<length es]"
      using map_add_upt [of lo "length es"] by (simp add: add.commute)
    then show ?thesis by (simp only: filter_map o_def)
  qed
  have "log_slice (lo, es) (unat start) (unat stop) = map ((!) es) [?a..<?b]"
    by (simp add: take_drop_upt)
  moreover have "filter (\<lambda>j. unat start \<le> lo + j \<and> lo + j < unat stop) [0..<length es] = [?a..<?b]"
    by (rule sorted_distinct_set_unique) (auto intro: sorted_wrt_filter)
  ultimately show ?thesis
    using get_log_range_spec [OF assms, of start stop] filt by (simp add: o_def)
qed

theorem storage_log_range_witness:
  "get_log_range log_db example_storage DataRaftLog 2 100 = Some (SOk [[9]])"
  using storage_log_range [OF log_db_ok example_log_inv, of 2 100] by (simp add: upt_rec)

text \<open>A restart loses nothing. Opening a database that holds the two Raft logs, with options that
  validate, gives a storage over the same data that represents the same logs, with the last-index
  cache filled for both.\<close>

theorem storage_reopen:
  assumes "rocks_ok R store cursor" "log_inv R store s SystemRaftLog l1" "log_inv R store s DataRaftLog l2"
    and "validate opts = Inr ()"
    and "open_cf (db_options opts) (data_dir opts) (map (cf_descriptor opts) all_cfs) = Inr (db s)"
  shows "\<exists>s'. storage_new R open_cf opts = SOk s' \<and> db s' = db s \<and> path s' = data_dir opts \<and>
    log_inv R store s' SystemRaftLog l1 \<and> log_inv R store s' DataRaftLog l2 \<and>
    last_log_index_cache s' SystemRaftLog = log_last l1 \<and> last_log_index_cache s' DataRaftLog = log_last l2"
  using assms(2-5) warm_up_spec [OF assms(1-3)] by (simp add: storage_new_def log_inv_def)

theorem storage_reopen_witness:
  "\<exists>s'. storage_new log_db (\<lambda>_ _ _. Inr (db example_storage)) options_default = SOk s' \<and>
     last_log_index_cache s' DataRaftLog = Some 2"
  using storage_reopen [OF log_db_ok example_system_inv example_log_inv,
      of options_default "\<lambda>_ _ _. Inr (db example_storage)"]
  by (auto simp: validate_def options_default_def)

text \<open>Truncating a whole log makes it start over: after a truncation beyond the last index the only
  append that is accepted has index 1, and the index that continues the log is refused.\<close>

theorem full_truncation_restarts_at_one:
  assumes "rocks_ok R store cursor" "log_inv R store s cf l" "next_index l \<le> unat t"
    and "truncate_log_before R s cf t = (r, s')"
  shows "r = SOk () \<and> (fst (append_log_entry R s' cf index e) = SOk () \<longleftrightarrow> index = 1)"
proof -
  obtain lo es where l: "l = (lo, es)" by force
  have tr: "r = SOk ()" "log_inv R store s' cf (max lo (unat t), [])"
    using truncate_simulates [OF assms(1,2,4), of True "(max lo (unat t), [])"] assms(3) l
    by (auto split: if_splits)
  obtain r2 s2 b l2 where app: "append_log_entry R s' cf index e = (r2, s2)"
    "log_spec (AppendEntry index e) (max lo (unat t), []) = (b, l2)" by (meson surj_pair)
  then have "b \<longleftrightarrow> index = 1" by (auto simp: word_unat_eq_iff split: if_splits)
  with append_simulates [OF assms(1) tr(2) app] app(1) tr(1) show ?thesis by simp
qed

theorem full_truncation_restarts_at_one_witness:
  "fst (append_log_entry log_db (snd (truncate_log_before log_db example_storage DataRaftLog 3)) DataRaftLog 3 [4])
     \<noteq> SOk ()"
  using full_truncation_restarts_at_one [OF log_db_ok example_log_inv, of 3
      "fst (truncate_log_before log_db example_storage DataRaftLog 3)"
      "snd (truncate_log_before log_db example_storage DataRaftLog 3)" 3 "[4]"]
  by simp

end
