(* ===== verification/Rocks_Snapshot.thy ===== *)
theory Rocks_Snapshot
  imports Rocks_Log "HOL-Library.Sublist"
begin

text \<open>
  \<open>Storage::create_snapshot\<close> of \<open>crates/storage/src/storage.rs\<close>: a checkpoint of the database, refused
  when its path leaves the data directory. A path is its text; the standard library's operations
  on paths work on its components. The file system and RocksDB's checkpoints are a parameter
  (\<open>file_system\<close>) over a state \<open>'w\<close> that only \<open>create_checkpoint\<close> changes. What the theorem relies on
  is \<open>fs_ok\<close>, two laws of resolving a path: a canonical path resolves to itself, and an entry of a
  directory resolves like the same entry of the directory's canonical path. Nothing is assumed of
  symbolic links; the entry itself may be one that leads nowhere, and where RocksDB ends up when it
  creates the checkpoint there is left to RocksDB.
\<close>

section \<open>Paths\<close>

datatype component = RootDir | CurDir | ParentDir | NormalDir string

fun split_slash :: "string \<Rightarrow> string list" where
  "split_slash [] = [[]]"
| "split_slash (c # cs) =
     (if c = CHR ''/'' then [] # split_slash cs
      else (case split_slash cs of [] \<Rightarrow> [[c]] | w # ws \<Rightarrow> (c # w) # ws))"

fun to_component :: "string \<Rightarrow> component list" where
  "to_component w = (if w = '''' \<or> w = ''.'' then [] else if w = ''..'' then [ParentDir] else [NormalDir w])"

text \<open>\<open>Path::components\<close>: repeated separators and inner dots are dropped.\<close>

definition components :: "string \<Rightarrow> component list" where
  "components p =
     (case split_slash p of
        [] \<Rightarrow> []
      | w # ws \<Rightarrow>
          (if w = '''' \<and> ws \<noteq> [] then [RootDir] else if w = ''.'' then [CurDir] else to_component w) @
          concat (map to_component ws))"

definition path_parent :: "component list \<Rightarrow> component list option" where
  "path_parent p = (if p = [] \<or> last p = RootDir then None else Some (butlast p))"

definition file_name :: "component list \<Rightarrow> component option" where
  "file_name p = (if p = [] then None else case last p of NormalDir f \<Rightarrow> Some (NormalDir f) | _ \<Rightarrow> None)"

section \<open>The file system\<close>

record ('d, 'w) file_system =
  canonicalize :: "'w \<Rightarrow> component list \<Rightarrow> string + component list"
  path_exists :: "'w \<Rightarrow> component list \<Rightarrow> bool"
  checkpoint_new :: "'d \<Rightarrow> string + unit"
  create_checkpoint :: "'d \<Rightarrow> string \<Rightarrow> 'w \<Rightarrow> (string + unit) \<times> 'w"
  open_dir :: "'w \<Rightarrow> component list \<Rightarrow> string + unit"
  sync_all :: "'w \<Rightarrow> component list \<Rightarrow> string + unit"

definition fs_ok :: "('d, 'w) file_system \<Rightarrow> bool" where
  "fs_ok F \<longleftrightarrow>
     (\<forall>w p c. canonicalize F w p = Inr c \<longrightarrow> canonicalize F w c = Inr c) \<and>
     (\<forall>w q f c. canonicalize F w q = Inr c \<longrightarrow>
        canonicalize F w (q @ [NormalDir f]) = canonicalize F w (c @ [NormalDir f]))"

section \<open>Creating a snapshot\<close>

text \<open>Where the code takes the path to be: its canonical form, or the file name in its canonical
  parent.\<close>

definition resolve_target :: "('d, 'w) file_system \<Rightarrow> 'w \<Rightarrow> string \<Rightarrow> component list sres" where
  "resolve_target F w p =
     (if path_exists F w (components p) then
        (case canonicalize F w (components p) of
           Inl e \<Rightarrow> SErr (SnapshotFailed p (''Cannot resolve path: '' @ e))
         | Inr c \<Rightarrow> SOk c)
      else
        (case canonicalize F w (components p) of
           Inr c \<Rightarrow> SOk c
         | Inl _ \<Rightarrow>
             (case path_parent (components p) of
                None \<Rightarrow> SErr (SnapshotFailed p ''Path has no parent directory'')
              | Some parent \<Rightarrow>
                  (case canonicalize F w parent of
                     Inl e \<Rightarrow> SErr (SnapshotFailed p (''Cannot resolve parent directory: '' @ e))
                   | Inr canonical_parent \<Rightarrow>
                       (case file_name (components p) of
                          None \<Rightarrow> SErr (SnapshotFailed p ''Path has no filename component'')
                        | Some filename \<Rightarrow> SOk (canonical_parent @ [filename]))))))"

definition io_res :: "string + unit \<Rightarrow> unit sres" where
  "io_res r = (case r of Inl e \<Rightarrow> SErr (IoError e) | Inr _ \<Rightarrow> SOk ())"

definition create_snapshot ::
    "('d, 'w) file_system \<Rightarrow> 'd Storage \<Rightarrow> string \<Rightarrow> 'w \<Rightarrow> unit sres \<times> 'w" where
  "create_snapshot F s p w =
     (case canonicalize F w (components (path s)) of
        Inl e \<Rightarrow> (SErr (SnapshotFailed (path s) (''Cannot resolve data directory: '' @ e)), w)
      | Inr data_directory \<Rightarrow>
          sbind (resolve_target F w p, w) (\<lambda>canonical_path w.
            if \<not> prefix data_directory canonical_path then
              (SErr (SnapshotFailed p ''Snapshot path must be within data directory''), w)
            else
              sbind (rocks_res (checkpoint_new F (db s)), w) (\<lambda>_ w.
              sbind (case create_checkpoint F (db s) p w of (r, w) \<Rightarrow> (rocks_res r, w)) (\<lambda>_ w.
                (case path_parent (components p) of
                   None \<Rightarrow> (SOk (), w)
                 | Some parent \<Rightarrow>
                     sbind (io_res (open_dir F w parent), w) (\<lambda>_ w.
                       (io_res (sync_all F w parent), w)))))))"

section \<open>Properties\<close>

lemma file_name_Some: "file_name p = Some x \<longleftrightarrow> (\<exists>f. p = butlast p @ [NormalDir f] \<and> x = NormalDir f)"
proof (cases p rule: rev_cases)
  case (snoc q y)
  then show ?thesis by (cases y) (auto simp: file_name_def)
qed (simp add: file_name_def)

text \<open>The target the code works out is where the path resolves to or, when it does not resolve, a new
  entry of the directory its parent resolves to.\<close>

lemma resolve_target_cases:
  assumes "resolve_target F w p = SOk t"
  obtains "canonicalize F w (components p) = Inr t"
    | q f c e where "canonicalize F w (components p) = Inl e" "components p = q @ [NormalDir f]"
      "canonicalize F w q = Inr c" "t = c @ [NormalDir f]"
proof (cases "canonicalize F w (components p)")
  case (Inr c)
  with assms that(1) show ?thesis by (auto simp: resolve_target_def split: if_splits)
next
  case (Inl e)
  with assms obtain parent c x where *: "path_parent (components p) = Some parent"
    "canonicalize F w parent = Inr c" "file_name (components p) = Some x" "t = c @ [x]"
    by (auto simp: resolve_target_def split: if_splits option.splits sum.splits)
  obtain f where f: "components p = butlast (components p) @ [NormalDir f]" "x = NormalDir f"
    using *(3) file_name_Some by metis
  then have "parent = butlast (components p)" using *(1) by (auto simp: path_parent_def split: if_splits)
  with that(2) [OF Inl f(1)] * f(2) show ?thesis by blast
qed

text \<open>A new entry inside an existing directory \<open>dd\<close> is an entry of a directory inside \<open>dd\<close>: it cannot be
  \<open>dd\<close> itself, which resolves.\<close>

lemma new_entry_inside:
  assumes "fs_ok F" "canonicalize F w d = Inr dd" "canonicalize F w (q @ [NormalDir f]) = Inl e"
    and "canonicalize F w q = Inr c" "prefix dd (c @ [NormalDir f])"
  shows "prefix dd c"
proof (rule ccontr)
  assume "\<not> prefix dd c"
  with assms(5) have dd: "dd = c @ [NormalDir f]" by auto
  have "canonicalize F w dd = Inr dd" using assms(1,2) unfolding fs_ok_def by blast
  moreover have "canonicalize F w (q @ [NormalDir f]) = canonicalize F w dd"
    using assms(1,4) dd unfolding fs_ok_def by blast
  ultimately show False using assms(3) by simp
qed

text \<open>C33: a snapshot stays in the data directory. If creating one succeeds or touches the file system at
  all, the data directory resolves, and the path given either resolves to a place inside it or
  does not resolve and names an entry of a directory inside it, whatever dots and links the path goes
  through on the way to that directory. (When the entry is a symbolic link that leads nowhere, the
  code does not look at where it points: \<open>dangling_link_not_refused\<close>.)\<close>

theorem snapshot_stays_in_data_dir:
  assumes "fs_ok F" "create_snapshot F s p w = (r, w')" "r = SOk () \<or> w' \<noteq> w"
  shows "\<exists>dd. canonicalize F w (components (path s)) = Inr dd \<and>
    ((\<exists>c. canonicalize F w (components p) = Inr c \<and> prefix dd c) \<or>
     (\<exists>q f c e. canonicalize F w (components p) = Inl e \<and> components p = q @ [NormalDir f] \<and>
        canonicalize F w q = Inr c \<and> prefix dd c))"
proof -
  obtain dd where dd: "canonicalize F w (components (path s)) = Inr dd"
    using assms(2,3) by (cases "canonicalize F w (components (path s))") (auto simp: create_snapshot_def)
  obtain t where t: "resolve_target F w p = SOk t"
    using assms(2,3) dd by (cases "resolve_target F w p") (auto simp: create_snapshot_def)
  have inside: "prefix dd t"
    using assms(2,3) dd t by (auto simp: create_snapshot_def split: if_splits)
  from t show ?thesis
  proof (cases rule: resolve_target_cases)
    case 1
    with dd inside show ?thesis by blast
  next
    case (2 q f c e)
    then have "prefix dd c" using new_entry_inside [OF assms(1) dd] inside by metis
    with dd 2 show ?thesis by blast
  qed
qed

text \<open>A file system as a table of entries by canonical path. A link leads to a canonical path, or nowhere.\<close>

datatype fs_entry = Directory | Link "component list"

definition lookup_entry :: "component list \<Rightarrow> fs_entry option" where
  "lookup_entry p = map_of
     [([RootDir, NormalDir ''data''], Directory),
      ([RootDir, NormalDir ''data'', NormalDir ''old''], Directory),
      ([RootDir, NormalDir ''data'', NormalDir ''alias''], Link [RootDir, NormalDir ''data'', NormalDir ''old'']),
      ([RootDir, NormalDir ''data'', NormalDir ''out''], Link [RootDir, NormalDir ''etc'']),
      ([RootDir, NormalDir ''data'', NormalDir ''lost''], Link [RootDir, NormalDir ''gone'']),
      ([RootDir, NormalDir ''etc''], Directory)] p"

definition enter :: "component list \<Rightarrow> component \<Rightarrow> string + component list" where
  "enter cur x =
     (case x of
        RootDir \<Rightarrow> Inr [RootDir]
      | CurDir \<Rightarrow> Inr cur
      | ParentDir \<Rightarrow> Inr (if length cur \<le> 1 then cur else butlast cur)
      | NormalDir f \<Rightarrow>
          (case lookup_entry (cur @ [NormalDir f]) of
             None \<Rightarrow> Inl ''not found''
           | Some Directory \<Rightarrow> Inr (cur @ [NormalDir f])
           | Some (Link c) \<Rightarrow> if lookup_entry c = Some Directory then Inr c else Inl ''not found''))"

fun walk_path :: "component list \<Rightarrow> component list \<Rightarrow> string + component list" where
  "walk_path cur [] = Inr cur"
| "walk_path cur (x # xs) = res_bind (enter cur x) (\<lambda>cur. walk_path cur xs)"

definition table_fs :: "(rocks_op list, string list) file_system" where
  "table_fs =
     \<lparr>canonicalize = (\<lambda>_ p. if p = [] then Inl ''not found'' else walk_path [RootDir] p),
      path_exists = (\<lambda>_ p. case walk_path [RootDir] p of Inl _ \<Rightarrow> False | Inr _ \<Rightarrow> p \<noteq> []),
      checkpoint_new = (\<lambda>_. Inr ()), create_checkpoint = (\<lambda>_ p w. (Inr (), p # w)),
      open_dir = (\<lambda>_ _. Inr ()), sync_all = (\<lambda>_ _. Inr ())\<rparr>"

definition dirs :: "component list list" where
  "dirs = [[RootDir], [RootDir, NormalDir ''data''], [RootDir, NormalDir ''data'', NormalDir ''old''],
           [RootDir, NormalDir ''etc'']]"

lemma walk_path_append: "walk_path cur (xs @ ys) = res_bind (walk_path cur xs) (\<lambda>cur. walk_path cur ys)"
  by (induction xs arbitrary: cur) (simp_all add: res_bind_assoc)

lemma enter_dirs: "cur \<in> set dirs \<Longrightarrow> enter cur x = Inr c \<Longrightarrow> c \<in> set dirs"
  by (auto simp: dirs_def enter_def lookup_entry_def split: component.splits option.splits fs_entry.splits if_splits)

lemma walk_path_dirs: "cur \<in> set dirs \<Longrightarrow> walk_path cur xs = Inr c \<Longrightarrow> c \<in> set dirs"
  by (induction xs arbitrary: cur) (auto simp: res_bind_eq_Inr dest: enter_dirs)

lemma walk_path_canonical: "c \<in> set dirs \<Longrightarrow> c \<noteq> [] \<and> walk_path [RootDir] c = Inr c"
  by (auto simp: dirs_def enter_def lookup_entry_def)

lemma table_fs_ok: "fs_ok table_fs"
proof -
  have "walk_path [RootDir] p = Inr c \<Longrightarrow> c \<noteq> [] \<and> walk_path [RootDir] c = Inr c" for p c
    using walk_path_dirs [of "[RootDir]" p c] walk_path_canonical [of c] by (simp add: dirs_def)
  then show ?thesis by (auto simp: fs_ok_def table_fs_def walk_path_append)
qed

lemma table_paths:
  "components ''/data'' = [RootDir, NormalDir ''data'']"
  "components ''/data/out/../data/alias/snap'' =
     [RootDir, NormalDir ''data'', NormalDir ''out'', ParentDir, NormalDir ''data'', NormalDir ''alias'', NormalDir ''snap'']"
  "components ''/data/out/snap'' = [RootDir, NormalDir ''data'', NormalDir ''out'', NormalDir ''snap'']"
  "components ''/data/lost'' = [RootDir, NormalDir ''data'', NormalDir ''lost'']"
  by (simp_all add: components_def)

abbreviation table_storage :: "rocks_op list Storage" where
  "table_storage \<equiv> \<lparr>db = [], last_log_index_cache = Map.empty, path = ''/data''\<rparr>"

lemmas snapshot_evaluation = create_snapshot_def resolve_target_def table_fs_def table_paths path_parent_def
  file_name_def io_res_def enter_def lookup_entry_def

text \<open>A path that leaves the data directory through a link and comes back is taken; one that ends up
  outside is refused and nothing is written.\<close>

theorem snapshot_stays_in_data_dir_witness:
  "create_snapshot table_fs table_storage ''/data/out/../data/alias/snap'' [] =
     (SOk (), [''/data/out/../data/alias/snap'']) \<and>
   create_snapshot table_fs table_storage ''/data/out/snap'' [] =
     (SErr (SnapshotFailed ''/data/out/snap'' ''Snapshot path must be within data directory''), []) \<and>
   (\<exists>dd. canonicalize table_fs [] (components ''/data'') = Inr dd \<and>
     prefix dd [RootDir, NormalDir ''data'', NormalDir ''old''])"
proof -
  have r: "create_snapshot table_fs table_storage ''/data/out/../data/alias/snap'' [] =
      (SOk (), [''/data/out/../data/alias/snap''])"
    by (simp add: snapshot_evaluation)
  have out: "create_snapshot table_fs table_storage ''/data/out/snap'' [] =
      (SErr (SnapshotFailed ''/data/out/snap'' ''Snapshot path must be within data directory''), [])"
    by (simp add: snapshot_evaluation)
  have parent: "canonicalize table_fs [] (components ''/data/out/../data/alias/snap'') = Inl ''not found''"
    "components ''/data/out/../data/alias/snap'' = q @ [NormalDir f] \<Longrightarrow> canonicalize table_fs [] q = Inr c \<Longrightarrow>
       c = [RootDir, NormalDir ''data'', NormalDir ''old'']" for q f c
    by (auto simp: snapshot_evaluation Cons_eq_append_conv)
  from snapshot_stays_in_data_dir [OF table_fs_ok r] r out parent show ?thesis by auto
qed

text \<open>A link in the data directory that leads nowhere is handed to RocksDB without a look at its target.\<close>

lemma dangling_link_not_refused:
  "lookup_entry (components ''/data/lost'') = Some (Link [RootDir, NormalDir ''gone''])"
  "create_snapshot table_fs table_storage ''/data/lost'' [] = (SOk (), [''/data/lost''])"
  by (simp_all add: snapshot_evaluation)

end
