(* ===== verification/Operations.thy ===== *)
theory Operations
  imports Rust_Std
begin

text \<open>
  Operations on the key-value state: \<open>crates/storage/src/operations.rs\<close> and the copy of it in
  \<open>crates/kv/src/operations.rs\<close>. A \<open>HashMap<Vec<u8>, Vec<u8>>\<close> is a map. The wire form of an
  operation is made by the \<open>bincode\<close> crate, a parameter: a pair of functions, of which the
  development uses that reading back what was written gives the value (\<open>bincode_ok\<close>).

  The locale \<open>kv_contract\<close> is what the layers above rely on; both crates' operations interpret it.
\<close>

section \<open>Serialization\<close>

type_synonym bincode_error = string

record 'a bincode =
  ser :: "'a \<Rightarrow> bincode_error + bytes"
  de :: "bytes \<Rightarrow> bincode_error + 'a"

definition bincode_ok :: "'a bincode \<Rightarrow> bool" where
  "bincode_ok b \<longleftrightarrow> (\<forall>x bs. ser b x = Inr bs \<longrightarrow> de b bs = Inr x)"

section \<open>Operations of the storage crate\<close>

datatype OperationError = SerializationError bincode_error

definition map_bincode_err :: "bincode_error + 'a \<Rightarrow> OperationError + 'a" where
  "map_bincode_err r = (case r of Inl e \<Rightarrow> Inl (SerializationError e) | Inr x \<Rightarrow> Inr x)"

datatype Operation = Set bytes bytes | Del bytes

type_synonym kv_map = "bytes \<rightharpoonup> bytes"

definition MAX_OPERATION_SIZE :: nat where
  "MAX_OPERATION_SIZE = 16 * 1024 * 1024"

fun operation_apply :: "Operation \<Rightarrow> kv_map \<Rightarrow> (OperationError + bytes) \<times> kv_map" where
  "operation_apply (Set key val) state = (Inr (bstr ''OK''), state(key \<mapsto> val))"
| "operation_apply (Del key) state =
     (if state key \<noteq> None then (Inr (bstr ''1''), state(key := None))
      else (Inr (bstr ''0''), state(key := None)))"

definition operation_serialize :: "Operation bincode \<Rightarrow> Operation \<Rightarrow> OperationError + bytes" where
  "operation_serialize b op = map_bincode_err (ser b op)"

definition operation_deserialize :: "Operation bincode \<Rightarrow> bytes \<Rightarrow> OperationError + Operation" where
  "operation_deserialize b bs =
     (if MAX_OPERATION_SIZE < length bs
      then Inl (SerializationError ''Operation exceeds maximum size limit'')
      else map_bincode_err (de b bs))"

section \<open>Operations of the kv crate\<close>

datatype KvOperationError = KvSerializationError bincode_error

definition kv_map_bincode_err :: "bincode_error + 'a \<Rightarrow> KvOperationError + 'a" where
  "kv_map_bincode_err r = (case r of Inl e \<Rightarrow> Inl (KvSerializationError e) | Inr x \<Rightarrow> Inr x)"

datatype KvOperation = KvSet bytes bytes | KvDel bytes

fun kv_operation_apply :: "KvOperation \<Rightarrow> kv_map \<Rightarrow> (KvOperationError + bytes) \<times> kv_map" where
  "kv_operation_apply (KvSet key val) state = (Inr (bstr ''OK''), state(key \<mapsto> val))"
| "kv_operation_apply (KvDel key) state =
     (if state key \<noteq> None then (Inr (bstr ''1''), state(key := None))
      else (Inr (bstr ''0''), state(key := None)))"

definition kv_operation_serialize :: "KvOperation bincode \<Rightarrow> KvOperation \<Rightarrow> KvOperationError + bytes" where
  "kv_operation_serialize b op = kv_map_bincode_err (ser b op)"

definition kv_operation_deserialize :: "KvOperation bincode \<Rightarrow> bytes \<Rightarrow> KvOperationError + KvOperation" where
  "kv_operation_deserialize b bs = kv_map_bincode_err (de b bs)"

section \<open>The contract of a key-value state\<close>

text \<open>The last write to a key in a sequence of operations: a value, a deletion, or none.\<close>

fun written :: "bytes \<Rightarrow> Operation \<Rightarrow> bytes option option" where
  "written k (Set key val) = (if k = key then Some (Some val) else None)"
| "written k (Del key) = (if k = key then Some None else None)"

fun last_write :: "bytes \<Rightarrow> Operation list \<Rightarrow> bytes option option" where
  "last_write k [] = None"
| "last_write k (op # ops) = (case last_write k ops of Some w \<Rightarrow> Some w | None \<Rightarrow> written k op)"

locale kv_contract =
  fixes lookup :: "'s \<Rightarrow> bytes \<Rightarrow> bytes option"
    and exec :: "Operation \<Rightarrow> 's \<Rightarrow> 's"
    and response :: "Operation \<Rightarrow> 's \<Rightarrow> bytes"
  assumes lookup_exec: "lookup (exec op s) k =
      (case written k op of Some w \<Rightarrow> w | None \<Rightarrow> lookup s k)"
    and response_Set: "response (Set k v) s = bstr ''OK''"
    and response_Del: "response (Del k) s = (if lookup s k = None then bstr ''0'' else bstr ''1'')"
begin

lemma lookup_fold:
  "lookup (fold exec ops s) k = (case last_write k ops of Some w \<Rightarrow> w | None \<Rightarrow> lookup s k)"
  by (induction ops arbitrary: s) (auto simp: lookup_exec split: option.split)

text \<open>Operations on different keys commute, as far as lookups can tell.\<close>

lemma exec_commute:
  assumes "\<And>k. written k op = None \<or> written k op' = None"
  shows "lookup (exec op (exec op' s)) = lookup (exec op' (exec op s))"
proof
  show "lookup (exec op (exec op' s)) k = lookup (exec op' (exec op s)) k" for k
    using assms [of k] by (auto simp: lookup_exec split: option.split)
qed

lemma del_twice: "response (Del k) (exec (Del k) s) = bstr ''0''"
  by (simp add: response_Del lookup_exec)

lemma del_after_set: "response (Del k) (exec (Set k v) s) = bstr ''1''"
  by (simp add: response_Del lookup_exec)

end

definition result_bytes :: "('e + bytes) \<times> 's \<Rightarrow> bytes" where
  "result_bytes r = (case fst r of Inr bs \<Rightarrow> bs | Inl _ \<Rightarrow> [])"

interpretation hashmap: kv_contract "\<lambda>s. s" "\<lambda>op s. snd (operation_apply op s)"
  "\<lambda>op s. result_bytes (operation_apply op s)"
proof unfold_locales
  show "snd (operation_apply op s) k = (case written k op of Some w \<Rightarrow> w | None \<Rightarrow> s k)" for op s k
    by (cases op) auto
qed (auto simp: result_bytes_def)

fun to_kv :: "Operation \<Rightarrow> KvOperation" where
  "to_kv (Set key val) = KvSet key val"
| "to_kv (Del key) = KvDel key"

lemma kv_operation_apply_to_kv:
  "snd (kv_operation_apply (to_kv op) s) = snd (operation_apply op s)"
  "result_bytes (kv_operation_apply (to_kv op) s) = result_bytes (operation_apply op s)"
  by (cases op; simp add: result_bytes_def)+

interpretation kv_hashmap: kv_contract "\<lambda>s. s" "\<lambda>op s. snd (kv_operation_apply (to_kv op) s)"
  "\<lambda>op s. result_bytes (kv_operation_apply (to_kv op) s)"
  unfolding kv_operation_apply_to_kv by (rule hashmap.kv_contract_axioms)

lemma kv_operation_round_trip:
  "bincode_ok b \<Longrightarrow> kv_operation_serialize b op = Inr bs \<Longrightarrow> kv_operation_deserialize b bs = Inr op"
  by (auto simp: kv_operation_serialize_def kv_operation_deserialize_def kv_map_bincode_err_def bincode_ok_def
      split: sum.splits)

lemma operation_apply_ok: "\<exists>bs. fst (operation_apply op s) = Inr bs"
  by (cases op) auto

lemma operation_round_trip:
  "bincode_ok b \<Longrightarrow> operation_serialize b op = Inr bs \<Longrightarrow> length bs \<le> MAX_OPERATION_SIZE \<Longrightarrow>
     operation_deserialize b bs = Inr op"
  by (auto simp: operation_serialize_def operation_deserialize_def map_bincode_err_def bincode_ok_def
      split: sum.splits)

section \<open>A coding of operations\<close>

text \<open>One that satisfies \<open>bincode_ok\<close>, for keys of one byte.\<close>

definition sample_bincode :: "Operation bincode" where
  "sample_bincode =
     \<lparr>ser = (\<lambda>op. case op of Set k v \<Rightarrow> if length k = 1 then Inr (0 # k @ v) else Inl ''size''
                   | Del k \<Rightarrow> Inr (1 # k)),
      de = (\<lambda>bs. case bs of [] \<Rightarrow> Inl ''empty''
                   | c # s \<Rightarrow> if c = 0 then Inr (Set (take 1 s) (drop 1 s)) else Inr (Del s))\<rparr>"

lemma sample_bincode_ok: "bincode_ok sample_bincode"
  by (auto simp: bincode_ok_def sample_bincode_def split: Operation.splits if_splits)

end
