(* ===== verification/State_Machine.thy ===== *)
theory State_Machine
  imports Operations
begin

text \<open>
  The replicated state machine (\<open>crates/storage/src/state_machine.rs\<close>): applying log entries in
  index order, with the index guard that makes an entry apply at most once, and snapshots.
  Serialization of operations and of the whole machine is the \<open>bincode\<close> parameter.
\<close>

section \<open>The machine\<close>

record StateMachine =
  data :: kv_map
  last_applied :: u64
  last_applied_log :: "(u64 \<times> u64) option"

text \<open>What the code boxes as \<open>dyn Error\<close>.\<close>

datatype sm_error =
    AlreadyApplied u64 u64
  | OperationFailed OperationError
  | BincodeFailed bincode_error

definition sm_new :: StateMachine where
  "sm_new = \<lparr>data = Map.empty, last_applied = 0, last_applied_log = None\<rparr>"

definition sm_get :: "StateMachine \<Rightarrow> bytes \<Rightarrow> bytes option" where
  "sm_get sm key = data sm key"

definition sm_last_applied_log :: "StateMachine \<Rightarrow> (u64 \<times> u64 \<times> u64) option" where
  "sm_last_applied_log sm =
     map_option (\<lambda>(term, leader). (term, leader, last_applied sm)) (last_applied_log sm)"

definition sm_apply ::
    "Operation bincode \<Rightarrow> StateMachine \<Rightarrow> u64 \<Rightarrow> bytes \<Rightarrow> (sm_error + bytes) \<times> StateMachine" where
  "sm_apply b sm index bs =
     (if index \<le> last_applied sm then (Inl (AlreadyApplied index (last_applied sm)), sm)
      else case operation_deserialize b bs of
        Inl e \<Rightarrow> (Inl (OperationFailed e), sm)
      | Inr operation \<Rightarrow>
          (case operation_apply operation (data sm) of
             (Inl e, data') \<Rightarrow> (Inl (OperationFailed e), sm\<lparr>data := data'\<rparr>)
           | (Inr result, data') \<Rightarrow> (Inr result, sm\<lparr>data := data', last_applied := index\<rparr>)))"

definition sm_apply_with_log_id ::
    "Operation bincode \<Rightarrow> StateMachine \<Rightarrow> u64 \<Rightarrow> u64 \<Rightarrow> u64 \<Rightarrow> bytes \<Rightarrow>
     (sm_error + bytes) \<times> StateMachine" where
  "sm_apply_with_log_id b sm term leader_id index bs =
     (case sm_apply b sm index bs of
        (Inl e, sm') \<Rightarrow> (Inl e, sm')
      | (Inr result, sm') \<Rightarrow> (Inr result, sm'\<lparr>last_applied_log := Some (term, leader_id)\<rparr>))"

definition sm_snapshot :: "StateMachine bincode \<Rightarrow> StateMachine \<Rightarrow> sm_error + bytes" where
  "sm_snapshot b sm = (case ser b sm of Inl e \<Rightarrow> Inl (BincodeFailed e) | Inr bs \<Rightarrow> Inr bs)"

definition sm_restore ::
    "StateMachine bincode \<Rightarrow> StateMachine \<Rightarrow> bytes \<Rightarrow> (sm_error + unit) \<times> StateMachine" where
  "sm_restore b sm snapshot =
     (case de b snapshot of
        Inl e \<Rightarrow> (Inl (BincodeFailed e), sm)
      | Inr restored \<Rightarrow>
          (Inr (), sm\<lparr>data := data restored, last_applied := last_applied restored,
                      last_applied_log := last_applied_log restored\<rparr>))"

section \<open>Applying a log\<close>

text \<open>The entries in order, stopping at the first error; the responses so far are kept.\<close>

fun apply_log ::
    "Operation bincode \<Rightarrow> StateMachine \<Rightarrow> (u64 \<times> bytes) list \<Rightarrow> bytes list \<times> sm_error option \<times> StateMachine"
where
  "apply_log b sm [] = ([], None, sm)"
| "apply_log b sm ((index, bs) # es) =
     (case sm_apply b sm index bs of
        (Inl e, sm') \<Rightarrow> ([], Some e, sm')
      | (Inr r, sm') \<Rightarrow> (case apply_log b sm' es of (rs, e, sm'') \<Rightarrow> (r # rs, e, sm'')))"

lemma sm_apply_cases:
  obtains (error) e where "sm_apply b sm index bs = (Inl e, sm)"
    "index \<le> last_applied sm \<or> (\<exists>e'. operation_deserialize b bs = Inl e')"
  | (applied) op where "operation_deserialize b bs = Inr op" "last_applied sm < index"
    "sm_apply b sm index bs = (Inr (result_bytes (operation_apply op (data sm))),
       sm\<lparr>data := snd (operation_apply op (data sm)), last_applied := index\<rparr>)"
proof (cases "index \<le> last_applied sm")
  case True
  then show ?thesis using error by (simp add: sm_apply_def)
next
  case False
  show ?thesis
  proof (cases "operation_deserialize b bs")
    case (Inl e)
    then show ?thesis using error [of "OperationFailed e"] False by (simp add: sm_apply_def)
  next
    case (Inr op)
    obtain r d where "operation_apply op (data sm) = (Inr r, d)"
      using operation_apply_ok [of op "data sm"] by (metis prod.collapse)
    then show ?thesis
      using applied [of op] Inr False by (simp add: sm_apply_def result_bytes_def)
  qed
qed

lemma sm_apply_error: "sm_apply b sm index bs = (Inl e, sm') \<Longrightarrow> sm' = sm"
  by (cases rule: sm_apply_cases [of b sm index bs]) auto

lemma sm_apply_ok:
  "sm_apply b sm index bs = (Inr r, sm') \<Longrightarrow>
     \<exists>op. operation_deserialize b bs = Inr op \<and> last_applied sm < index \<and> last_applied sm' = index \<and>
       data sm' = snd (operation_apply op (data sm)) \<and> r = result_bytes (operation_apply op (data sm)) \<and>
       last_applied_log sm' = last_applied_log sm"
  by (cases rule: sm_apply_cases [of b sm index bs]) auto

lemma apply_log_ok:
  assumes "apply_log b sm es = (rs, None, sm')"
  shows "\<exists>ops. map (\<lambda>e. operation_deserialize b (snd e)) es = map Inr ops \<and>
    data sm' = fold (\<lambda>op s. snd (operation_apply op s)) ops (data sm) \<and>
    sorted_wrt (<) (last_applied sm # map fst es) \<and>
    last_applied sm' = last (last_applied sm # map fst es) \<and> length rs = length es"
  using assms
proof (induction es arbitrary: sm rs)
  case Nil
  then show ?case by simp
next
  case (Cons e es)
  obtain index bs where e: "e = (index, bs)" by fastforce
  obtain r sm1 where one: "sm_apply b sm index bs = (Inr r, sm1)"
    using Cons.prems e by (auto split: prod.splits sum.splits)
  obtain rs' where rest: "apply_log b sm1 es = (rs', None, sm')" and rs: "rs = r # rs'"
    using Cons.prems e one by (auto split: prod.splits)
  obtain op where op: "operation_deserialize b bs = Inr op" "last_applied sm < index"
    "last_applied sm1 = index" "data sm1 = snd (operation_apply op (data sm))"
    using sm_apply_ok [OF one] by blast
  obtain ops where "map (\<lambda>e. operation_deserialize b (snd e)) es = map Inr ops"
    "data sm' = fold (\<lambda>op s. snd (operation_apply op s)) ops (data sm1)"
    "sorted_wrt (<) (last_applied sm1 # map fst es)"
    "last_applied sm' = last (last_applied sm1 # map fst es)" "length rs' = length es"
    using Cons.IH [OF rest] by blast
  then show ?case
    using op e rs by (intro exI [of _ "op # ops"]) auto
qed

text \<open>A log whose entries are serialized operations at growing indices.\<close>

definition logged :: "Operation bincode \<Rightarrow> (u64 \<times> bytes) \<Rightarrow> Operation \<Rightarrow> bool" where
  "logged b e op \<longleftrightarrow> operation_serialize b op = Inr (snd e) \<and> length (snd e) \<le> MAX_OPERATION_SIZE"

lemma apply_log_complete:
  assumes "bincode_ok b" "list_all2 (logged b) es ops" "sorted_wrt (<) (last_applied sm # map fst es)"
  shows "\<exists>rs sm'. apply_log b sm es = (rs, None, sm') \<and>
    data sm' = fold (\<lambda>op s. snd (operation_apply op s)) ops (data sm)"
  using assms(2,3)
proof (induction es ops arbitrary: sm rule: list_all2_induct)
  case Nil
  then show ?case by simp
next
  case (Cons e es op ops)
  obtain index bs where e: "e = (index, bs)" by fastforce
  have des: "operation_deserialize b bs = Inr op"
    using Cons.hyps(1) operation_round_trip [OF assms(1)] e by (simp add: logged_def)
  have lt: "last_applied sm < index" using Cons.prems e by simp
  obtain r sm1 where one: "sm_apply b sm index bs = (Inr r, sm1)"
    using des lt by (cases rule: sm_apply_cases [of b sm index bs]) auto
  then have sm1: "last_applied sm1 = index" "data sm1 = snd (operation_apply op (data sm))"
    using sm_apply_ok [OF one] des by auto
  moreover have "sorted_wrt (<) (last_applied sm1 # map fst es)" using Cons.prems e sm1(1) by simp
  ultimately show ?case using Cons.IH [of sm1] one e by fastforce
qed

section \<open>Properties\<close>

text \<open>C34: a log of serialized operations at growing indices applies without an error, and afterwards
  every key holds what the last operation on it wrote, or what it held before if there is none.\<close>

theorem apply_log_last_write_wins:
  assumes "bincode_ok b" "list_all2 (logged b) es ops" "sorted_wrt (<) (last_applied sm # map fst es)"
  shows "\<exists>rs sm'. apply_log b sm es = (rs, None, sm') \<and> length rs = length es \<and>
    last_applied sm' = last (last_applied sm # map fst es) \<and>
    (\<forall>k. sm_get sm' k = (case last_write k ops of Some w \<Rightarrow> w | None \<Rightarrow> sm_get sm k))"
proof -
  obtain rs sm' where run: "apply_log b sm es = (rs, None, sm')"
    and d: "data sm' = fold (\<lambda>op s. snd (operation_apply op s)) ops (data sm)"
    using apply_log_complete [OF assms] by blast
  moreover have "length rs = length es" "last_applied sm' = last (last_applied sm # map fst es)"
    using apply_log_ok [OF run] by blast+
  ultimately show ?thesis
    using hashmap.lookup_fold [of ops "data sm"] by (auto simp: sm_get_def split: option.split)
qed

lemma apply_log_last_write_wins_witness:
  "\<exists>rs sm'. apply_log sample_bincode sm_new [(1, [0, 7, 8]), (3, [1, 7]), (4, [0, 7, 9])] = (rs, None, sm') \<and>
     sm_get sm' [7] = Some [9]"
proof -
  let ?es = "[(1, [0, 7, 8]), (3, [1, 7]), (4, [0, 7, 9])] :: (u64 \<times> bytes) list"
  let ?ops = "[Set [7] [8], Del [7], Set [7] [9]]"
  have "list_all2 (logged sample_bincode) ?es ?ops"
    by (simp add: logged_def operation_serialize_def sample_bincode_def map_bincode_err_def MAX_OPERATION_SIZE_def)
  then obtain rs sm' where "apply_log sample_bincode sm_new ?es = (rs, None, sm')"
    "\<forall>k. sm_get sm' k = (case last_write k ?ops of Some w \<Rightarrow> w | None \<Rightarrow> sm_get sm_new k)"
    using apply_log_last_write_wins [OF sample_bincode_ok, of ?es ?ops sm_new] by (auto simp: sm_new_def)
  then show ?thesis by auto
qed

text \<open>C37: an entry is applied at most once. Once an entry at an index has been applied, every entry at
  that or a smaller index is refused with \<open>AlreadyApplied\<close> and leaves the machine as it was.\<close>

theorem apply_at_most_once:
  assumes "sm_apply b sm i bs = (Inr r, sm')" "j \<le> i"
  shows "sm_apply b sm' j bs' = (Inl (AlreadyApplied j i), sm')"
  using sm_apply_ok [OF assms(1)] assms(2) by (auto simp: sm_apply_def)

lemma apply_at_most_once_witness:
  "\<exists>r sm'. sm_apply sample_bincode sm_new 5 [1, 7] = (Inr r, sm') \<and>
     sm_apply sample_bincode sm' 5 [0, 7, 8] = (Inl (AlreadyApplied 5 5), sm')"
proof -
  obtain r sm' where "sm_apply sample_bincode sm_new 5 [1, 7] = (Inr r, sm')"
    by (simp add: sm_apply_def sm_new_def operation_deserialize_def MAX_OPERATION_SIZE_def
        sample_bincode_def map_bincode_err_def)
  with apply_at_most_once [OF this, of 5 "[0, 7, 8]"] show ?thesis by auto
qed

text \<open>a refused entry changes nothing, whatever the reason it is refused for; with the log identity
  as without.\<close>

theorem refused_entry_changes_nothing:
  assumes "sm_apply_with_log_id b sm term leader i bs = (Inl e, sm')"
  shows "sm' = sm \<and> (e = AlreadyApplied i (last_applied sm) \<and> i \<le> last_applied sm \<or>
    last_applied sm < i \<and> (\<exists>e'. operation_deserialize b bs = Inl e' \<and> e = OperationFailed e'))"
proof -
  have one: "sm_apply b sm i bs = (Inl e, sm')"
    using assms by (auto simp: sm_apply_with_log_id_def split: prod.splits sum.splits)
  then have "sm' = sm" by (rule sm_apply_error)
  moreover have "\<exists>r. fst (operation_apply op (data sm)) = Inr r" for op by (rule operation_apply_ok)
  ultimately show ?thesis
    using one by (auto simp: sm_apply_def split: if_splits sum.splits prod.splits) (metis Inl_Inr_False fst_conv)+
qed

lemma refused_entry_changes_nothing_witness:
  "\<exists>e. sm_apply_with_log_id sample_bincode sm_new 1 1 2 [] = (Inl e, sm_new) \<and> e = OperationFailed (SerializationError ''empty'')"
proof -
  have r: "sm_apply_with_log_id sample_bincode sm_new 1 1 2 [] =
      (Inl (OperationFailed (SerializationError ''empty'')), sm_new)"
    by (simp add: sm_apply_with_log_id_def sm_apply_def sm_new_def operation_deserialize_def
        sample_bincode_def map_bincode_err_def)
  with refused_entry_changes_nothing [OF r] show ?thesis by auto
qed

text \<open>A snapshot carries the whole machine. Restoring it into any machine gives exactly the machine
  it was taken from, so a replica that starts from a snapshot and applies the rest of the log
  answers and ends like one that applied everything.\<close>

theorem snapshot_restore_then_log:
  assumes "bincode_ok B" "apply_log b sm es = (rs, None, sm')" "sm_snapshot B sm' = Inr snap"
  shows "\<exists>sm2. sm_restore B other snap = (Inr (), sm2) \<and>
    apply_log b sm2 es' = apply_log b sm' es' \<and> sm_get sm2 = sm_get sm' \<and>
    sm_last_applied_log sm2 = sm_last_applied_log sm'"
proof -
  have "de B snap = Inr sm'"
    using assms(1,3) by (auto simp: bincode_ok_def sm_snapshot_def split: sum.splits)
  moreover have "other\<lparr>data := data sm', last_applied := last_applied sm',
      last_applied_log := last_applied_log sm'\<rparr> = sm'" by simp
  ultimately show ?thesis unfolding sm_restore_def by (metis (no_types, lifting) sum.simps(6))
qed

lemma snapshot_restore_then_log_witness:
  "\<exists>sm2. sm_restore \<lparr>ser = (\<lambda>sm. if sm = sm_new then Inr [1] else Inl ''x''), de = (\<lambda>bs. Inr sm_new)\<rparr>
       (sm_new\<lparr>last_applied := 9\<rparr>) [1] = (Inr (), sm2) \<and> sm_get sm2 = sm_get sm_new"
proof -
  let ?B = "\<lparr>ser = (\<lambda>sm. if sm = sm_new then Inr [1] else Inl ''x''), de = (\<lambda>bs. Inr sm_new)\<rparr>"
  have "bincode_ok ?B" by (simp add: bincode_ok_def)
  moreover have "apply_log sample_bincode sm_new [] = ([], None, sm_new)" by simp
  moreover have "sm_snapshot ?B sm_new = Inr [1]" by (simp add: sm_snapshot_def)
  ultimately show ?thesis
    using snapshot_restore_then_log [of ?B sample_bincode sm_new "[]" "[]" sm_new "[1]"] by blast
qed

text \<open>An operation the kv crate serializes beyond the storage crate's limit of 16 MiB is refused by
  every replica when it is applied, and leaves the machine as it was: the limit is checked on
  reading and not on writing.\<close>

theorem oversize_operation_refused:
  assumes "kv_operation_serialize bk op = Inr bs" "MAX_OPERATION_SIZE < length bs" "last_applied sm < i"
  shows "sm_apply b sm i bs =
    (Inl (OperationFailed (SerializationError ''Operation exceeds maximum size limit'')), sm)"
  using assms by (simp add: sm_apply_def operation_deserialize_def)

lemma oversize_operation_refused_witness:
  "sm_apply sample_bincode sm_new 1 (replicate (Suc MAX_OPERATION_SIZE) 0) =
     (Inl (OperationFailed (SerializationError ''Operation exceeds maximum size limit'')), sm_new)"
  by (rule oversize_operation_refused
      [of "\<lparr>ser = (\<lambda>_. Inr (replicate (Suc MAX_OPERATION_SIZE) 0)), de = (\<lambda>_. Inr (KvDel []))\<rparr>" "KvDel []"])
    (simp_all add: kv_operation_serialize_def kv_map_bincode_err_def sm_new_def)

end
