(* ===== verification/Openraft_Mem.thy ===== *)
theory Openraft_Mem
  imports Openraft_Types State_Machine
begin

text \<open>
  The in-memory store for openraft (\<open>crates/storage/src/openraft_mem.rs\<close>): the log, with its
  votes, and the state machine with snapshots and membership. A call that can panic inside the
  standard library returns \<open>None\<close> there; the \<open>LogFlushed\<close> callback of \<open>append\<close> is a flag that says
  whether it was called. Poisoned locks are modelled, as the code turns them into errors.

  The locale \<open>raft_log\<close> is the contract of a log store: what each operation does to the map from
  index to entry. \<open>OpenRaftMemLog\<close> interprets it.
\<close>

section \<open>The log\<close>

record ('m, 'vote) OpenRaftMemLog =
  log :: "'m Entry btree RwLock"
  vote :: "'vote option RwLock"

definition mem_log_new :: "('m, 'vote) OpenRaftMemLog" where
  "mem_log_new = \<lparr>log = RwLock_new [], vote = RwLock_new None\<rparr>"

type_synonym 'm OpenRaftMemLogReader = "'m Entry btree RwLock"

definition get_log_reader :: "('m, 'vote) OpenRaftMemLog \<Rightarrow> 'm OpenRaftMemLogReader" where
  "get_log_reader l = log l"

definition reader_try_get_log_entries ::
    "'m OpenRaftMemLogReader \<Rightarrow> bound \<Rightarrow> bound \<Rightarrow> (sm_error StorageError + 'm Entry list) option" where
  "reader_try_get_log_entries r lo hi =
     (case lock_or r (lock_error Subject_Store Verb_Read ''Log lock poisoned'') of
        Inl e \<Rightarrow> Some (Inl e)
      | Inr m \<Rightarrow> map_option (\<lambda>es. Inr (map snd es)) (btree_range lo hi m))"

definition try_get_log_entries ::
    "('m, 'vote) OpenRaftMemLog \<Rightarrow> bound \<Rightarrow> bound \<Rightarrow> (sm_error StorageError + 'm Entry list) option" where
  "try_get_log_entries l lo hi =
     (case lock_or (log l) (lock_error Subject_Store Verb_Read ''Log lock poisoned'') of
        Inl e \<Rightarrow> Some (Inl e)
      | Inr m \<Rightarrow> map_option (\<lambda>es. Inr (map snd es)) (btree_range lo hi m))"

record LogState =
  last_purged_log_id :: "LogId option"
  last_log_id :: "LogId option"

definition get_log_state :: "('m, 'vote) OpenRaftMemLog \<Rightarrow> sm_error StorageError + LogState" where
  "get_log_state l =
     res_bind (lock_or (log l) (lock_error Subject_Store Verb_Read ''Log lock poisoned'')) (\<lambda>m.
     Inr \<lparr>last_purged_log_id = None, last_log_id = map_option (\<lambda>(_, entry). log_id entry) (btree_last m)\<rparr>)"

definition save_vote ::
    "('m, 'vote) OpenRaftMemLog \<Rightarrow> 'vote \<Rightarrow> (sm_error StorageError + unit) \<times> ('m, 'vote) OpenRaftMemLog" where
  "save_vote l v =
     (case lock_or (vote l) (lock_error Subject_Vote Verb_Write ''Vote lock poisoned'') of
        Inl e \<Rightarrow> (Inl e, l)
      | Inr _ \<Rightarrow> (Inr (), l\<lparr>vote := lock_set (vote l) (Some v)\<rparr>))"

definition read_vote :: "('m, 'vote) OpenRaftMemLog \<Rightarrow> sm_error StorageError + 'vote option" where
  "read_vote l = lock_or (vote l) (lock_error Subject_Vote Verb_Read ''Vote lock poisoned'')"

text \<open>\<open>for entry in entries { log.insert(index, entry) }\<close>.\<close>

definition insert_entries :: "'m Entry list \<Rightarrow> 'm Entry btree \<Rightarrow> 'm Entry btree" where
  "insert_entries es m = fold (\<lambda>entry. btree_insert (index (log_id entry)) entry) es m"

definition append_log ::
    "('m, 'vote) OpenRaftMemLog \<Rightarrow> 'm Entry list \<Rightarrow>
     (sm_error StorageError + unit) \<times> bool \<times> ('m, 'vote) OpenRaftMemLog" where
  "append_log l entries =
     (case lock_or (log l) (lock_error Subject_Store Verb_Write ''Log lock poisoned'') of
        Inl e \<Rightarrow> (Inl e, False, l)
      | Inr m \<Rightarrow> (Inr (), True, l\<lparr>log := lock_set (log l) (insert_entries entries m)\<rparr>))"

definition truncate_log ::
    "('m, 'vote) OpenRaftMemLog \<Rightarrow> LogId \<Rightarrow> (sm_error StorageError + unit) \<times> ('m, 'vote) OpenRaftMemLog" where
  "truncate_log l lid =
     (case lock_or (log l) (lock_error Subject_Store Verb_Write ''Log lock poisoned'') of
        Inl e \<Rightarrow> (Inl e, l)
      | Inr m \<Rightarrow> (Inr (), l\<lparr>log := lock_set (log l) (btree_retain (\<lambda>idx. idx \<le> index lid) m)\<rparr>))"

definition purge_log ::
    "('m, 'vote) OpenRaftMemLog \<Rightarrow> LogId \<Rightarrow> (sm_error StorageError + unit) \<times> ('m, 'vote) OpenRaftMemLog" where
  "purge_log l lid =
     (case lock_or (log l) (lock_error Subject_Store Verb_Write ''Log lock poisoned'') of
        Inl e \<Rightarrow> (Inl e, l)
      | Inr m \<Rightarrow> (Inr (), l\<lparr>log := lock_set (log l) (btree_retain (\<lambda>idx. index lid < idx) m)\<rparr>))"

section \<open>The state machine\<close>

record 'm OpenRaftMemStateMachine =
  sm :: "StateMachine RwLock"
  snapshot :: "'m Snapshot option RwLock"
  stored_membership :: "'m StoredMembership RwLock"

definition mem_sm_new :: "'m \<Rightarrow> 'm OpenRaftMemStateMachine" where
  "mem_sm_new m0 = \<lparr>sm = RwLock_new sm_new, snapshot = RwLock_new None,
     stored_membership = RwLock_new (default_membership m0)\<rparr>"

definition sm_err :: "ErrorSubject \<Rightarrow> ErrorVerb \<Rightarrow> sm_error + 'a \<Rightarrow> sm_error StorageError + 'a" where
  "sm_err s v r = (case r of Inl e \<Rightarrow> Inl (StorageIO s v (Inr e)) | Inr x \<Rightarrow> Inr x)"

definition build_snapshot ::
    "StateMachine bincode \<Rightarrow> 'm \<Rightarrow> StateMachine RwLock \<Rightarrow> sm_error StorageError + 'm Snapshot" where
  "build_snapshot B m0 builder =
     res_bind (lock_or builder (lock_error Subject_StateMachine Verb_Read ''State machine lock poisoned'')) (\<lambda>machine.
     res_bind (sm_err Subject_Snapshot Verb_Read (sm_snapshot B machine)) (\<lambda>bs.
     let la = last_applied machine in
     Inr \<lparr>meta = \<lparr>snap_last_log_id = (if 0 < la then Some (log_id_new 0 0 la) else None),
                   snap_last_membership = default_membership m0,
                   snapshot_id = bstr ''snapshot-'' @ dec_string (unat la)\<rparr>,
          snapshot_data = bs\<rparr>))"

definition applied_state ::
    "'m OpenRaftMemStateMachine \<Rightarrow> sm_error StorageError + LogId option \<times> 'm StoredMembership" where
  "applied_state s =
     res_bind (lock_or (sm s) (lock_error Subject_StateMachine Verb_Read ''State machine lock poisoned'')) (\<lambda>machine.
     let lid = map_option (\<lambda>(t, leader, i). log_id_new t leader i) (sm_last_applied_log machine) in
     res_bind (lock_or (stored_membership s)
        (lock_error Subject_StateMachine Verb_Read ''Membership lock poisoned'')) (\<lambda>m.
     Inr (lid, m)))"

text \<open>
  The first loop of \<open>apply\<close>: the responses and the machine, or the first error with the machine
  as the entries before it left it.
\<close>

fun apply_entries ::
    "Operation bincode \<Rightarrow> 'm Entry list \<Rightarrow> StateMachine \<Rightarrow> (sm_error StorageError + Response list) \<times> StateMachine" where
  "apply_entries b [] machine = (Inr [], machine)"
| "apply_entries b (entry # entries) machine =
     (case payload entry of
        Normal req \<Rightarrow>
          (case sm_apply_with_log_id b machine (id_term (log_id entry)) (node_id (log_id entry))
                  (index (log_id entry)) (operation_bytes req) of
             (Inl e, machine') \<Rightarrow> (Inl (StorageIO Subject_StateMachine Verb_Write (Inr e)), machine')
           | (Inr r, machine') \<Rightarrow>
               (case apply_entries b entries machine' of
                  (Inl e, machine'') \<Rightarrow> (Inl e, machine'')
                | (Inr rs, machine'') \<Rightarrow> (Inr (\<lparr>result = r\<rparr> # rs), machine'')))
      | _ \<Rightarrow>
          (case apply_entries b entries machine of
             (Inl e, machine') \<Rightarrow> (Inl e, machine')
           | (Inr rs, machine') \<Rightarrow> (Inr (\<lparr>result = []\<rparr> # rs), machine')))"

text \<open>The second loop: every membership entry replaces the stored membership.\<close>

fun apply_memberships :: "'m Entry list \<Rightarrow> 'm StoredMembership \<Rightarrow> 'm StoredMembership" where
  "apply_memberships [] m = m"
| "apply_memberships (entry # entries) m =
     (case payload entry of
        Membership m' \<Rightarrow>
          apply_memberships entries \<lparr>membership_log_id = Some (log_id entry), membership = m'\<rparr>
      | _ \<Rightarrow> apply_memberships entries m)"

definition is_membership :: "'m Entry \<Rightarrow> bool" where
  "is_membership entry \<longleftrightarrow> (case payload entry of Membership _ \<Rightarrow> True | _ \<Rightarrow> False)"

definition mem_apply ::
    "Operation bincode \<Rightarrow> 'm OpenRaftMemStateMachine \<Rightarrow> 'm Entry list \<Rightarrow>
     (sm_error StorageError + Response list) \<times> 'm OpenRaftMemStateMachine" where
  "mem_apply b s entries =
     (case lock_or (sm s) (lock_error Subject_StateMachine Verb_Write ''State machine lock poisoned'') of
        Inl e \<Rightarrow> (Inl e, s)
      | Inr machine \<Rightarrow>
          (case apply_entries b entries machine of
             (Inl e, machine') \<Rightarrow> (Inl e, s\<lparr>sm := lock_set (sm s) machine'\<rparr>)
           | (Inr responses, machine') \<Rightarrow>
               let s = s\<lparr>sm := lock_set (sm s) machine'\<rparr> in
               if (\<exists>entry \<in> set entries. is_membership entry) \<and> poisoned (stored_membership s)
               then (Inl (lock_error Subject_StateMachine Verb_Write ''Membership lock poisoned''), s)
               else (Inr responses,
                     s\<lparr>stored_membership := lock_set (stored_membership s)
                         (apply_memberships entries (lock_value (stored_membership s)))\<rparr>)))"

definition begin_receiving_snapshot :: "sm_error StorageError + bytes" where
  "begin_receiving_snapshot = Inr []"

definition install_snapshot ::
    "StateMachine bincode \<Rightarrow> 'm OpenRaftMemStateMachine \<Rightarrow> 'm SnapshotMeta \<Rightarrow> bytes \<Rightarrow>
     (sm_error StorageError + unit) \<times> 'm OpenRaftMemStateMachine" where
  "install_snapshot B s smeta bs =
     (case lock_or (sm s) (lock_error Subject_StateMachine Verb_Write ''State machine lock poisoned'') of
        Inl e \<Rightarrow> (Inl e, s)
      | Inr machine \<Rightarrow>
          (case sm_restore B machine bs of
             (r, machine') \<Rightarrow> (sm_err Subject_Snapshot Verb_Write r, s\<lparr>sm := lock_set (sm s) machine'\<rparr>)))"

definition get_current_snapshot ::
    "'m OpenRaftMemStateMachine \<Rightarrow> sm_error StorageError + 'm Snapshot option" where
  "get_current_snapshot s =
     lock_or (snapshot s) (lock_error Subject_Snapshot Verb_Read ''Snapshot lock poisoned'')"

definition get_snapshot_builder :: "'m OpenRaftMemStateMachine \<Rightarrow> StateMachine RwLock" where
  "get_snapshot_builder s = sm s"

section \<open>The contract of a log store\<close>

locale raft_log =
  fixes store_ok :: "'s \<Rightarrow> bool"
    and contents :: "'s \<Rightarrow> u64 \<rightharpoonup> 'e"
    and idx :: "'e \<Rightarrow> u64"
    and append_op :: "'s \<Rightarrow> 'e list \<Rightarrow> 's"
    and truncate_op :: "'s \<Rightarrow> u64 \<Rightarrow> 's"
    and purge_op :: "'s \<Rightarrow> u64 \<Rightarrow> 's"
    and read_op :: "'s \<Rightarrow> bound \<Rightarrow> bound \<Rightarrow> 'e list option"
  assumes keyed: "store_ok s \<Longrightarrow> contents s k = Some e \<Longrightarrow> idx e = k"
    and append_ok: "store_ok s \<Longrightarrow> store_ok (append_op s es)"
    and append_contents: "store_ok s \<Longrightarrow>
      contents (append_op s es) = contents s ++ map_of (rev (map (\<lambda>e. (idx e, e)) es))"
    and truncate_ok: "store_ok s \<Longrightarrow> store_ok (truncate_op s i)"
    and truncate_contents: "store_ok s \<Longrightarrow> contents (truncate_op s i) = contents s |` {..i}"
    and purge_ok: "store_ok s \<Longrightarrow> store_ok (purge_op s i)"
    and purge_contents: "store_ok s \<Longrightarrow> contents (purge_op s i) = contents s |` {i<..}"
    and read_range: "store_ok s \<Longrightarrow> \<not> range_panics lo hi \<Longrightarrow>
      \<exists>es. read_op s lo hi = Some es \<and> sorted_wrt (<) (map idx es) \<and>
        set es = {e. \<exists>k. contents s k = Some e \<and> above lo k \<and> below hi k}"
begin

text \<open>A sorted read is determined by the entries it holds.\<close>

lemma read_unique:
  assumes "store_ok s" "\<not> range_panics lo hi" "sorted_wrt (<) (map idx es)"
    and "set es = {e. \<exists>k. contents s k = Some e \<and> above lo k \<and> below hi k}"
  shows "read_op s lo hi = Some es"
proof -
  obtain es' where es': "read_op s lo hi = Some es'" "sorted_wrt (<) (map idx es')" "set es' = set es"
    using read_range [OF assms(1,2)] assms(4) by auto
  have "map idx es' = map idx es"
    using es'(2,3) assms(3) by (intro strict_sorted_equal) auto
  moreover have "inj_on idx (set es' \<union> set es)"
    using es'(3) assms(4) keyed [OF assms(1)] by (auto simp: inj_on_def)
  ultimately show ?thesis using es'(1) map_inj_on by blast
qed

lemma read_back:
  assumes "store_ok s" "sorted_wrt (<) (map idx es)" "es \<noteq> []"
    and "\<And>k. idx (hd es) \<le> k \<Longrightarrow> k \<le> idx (last es) \<Longrightarrow> k \<in> idx ` set es"
  shows "read_op (append_op s es) (Included (idx (hd es))) (Included (idx (last es))) = Some es"
proof -
  let ?m = "map_of (rev (map (\<lambda>e. (idx e, e)) es))"
  have dist: "distinct (map idx es)" using assms(2) by (auto simp: strict_sorted_iff)
  have new: "?m (idx e) = Some e" if "e \<in> set es" for e
    using that dist by (intro map_of_is_SomeI) (auto simp: rev_map [symmetric] o_def)
  have bounds: "idx (hd es) \<le> idx e \<and> idx e \<le> idx (last es)" if "e \<in> set es" for e
  proof -
    obtain n where n: "n < length es" "e = es ! n" using \<open>e \<in> set es\<close> by (metis in_set_conv_nth)
    have "sorted (map idx es)" using assms(2) by (simp add: strict_sorted_iff)
    then show ?thesis
      using n assms(3) sorted_nth_mono [of "map idx es" 0 n] sorted_nth_mono [of "map idx es" n "length es - 1"]
      by (auto simp: hd_conv_nth last_conv_nth)
  qed
  show ?thesis
  proof (rule read_unique)
    show "store_ok (append_op s es)" using append_ok assms(1) .
    show "\<not> range_panics (Included (idx (hd es))) (Included (idx (last es)))"
      using bounds [of "hd es"] assms(3) by (simp add: not_less)
    show "sorted_wrt (<) (map idx es)" by fact
    have at: "contents (append_op s es) (idx e) = Some e" if "e \<in> set es" for e
      using new [OF that] append_contents [OF assms(1)] by (simp add: map_add_Some_iff)
    show "set es = {e. \<exists>k. contents (append_op s es) k = Some e \<and> above (Included (idx (hd es))) k \<and>
        below (Included (idx (last es))) k}" (is "_ = ?R")
    proof (rule set_eqI, rule iffI)
      show "e \<in> ?R" if "e \<in> set es" for e using at [OF that] bounds [OF that] by auto
      show "e \<in> set es" if e: "e \<in> ?R" for e
      proof -
        obtain k where k: "contents (append_op s es) k = Some e" "idx (hd es) \<le> k" "k \<le> idx (last es)"
          using e by auto
        then obtain e' where "e' \<in> set es" "k = idx e'" using assms(4) by blast
        with at k(1) show ?thesis by simp
      qed
    qed
  qed
qed

lemma read_after_truncate_purge:
  assumes "store_ok s"
  shows "contents (purge_op (truncate_op s j) i) = contents s |` {i<..j}"
    and "read_op (purge_op (truncate_op s j) i) Unbounded Unbounded =
      read_op (truncate_op (purge_op s i) j) Unbounded Unbounded"
proof -
  have c: "contents (purge_op (truncate_op s j) i) = contents s |` {i<..j}"
    "contents (truncate_op (purge_op s i) j) = contents s |` {i<..j}"
    using assms by (simp_all add: purge_contents truncate_contents truncate_ok purge_ok)
      (auto intro!: arg_cong [where f = "restrict_map (contents s)"])
  then show "contents (purge_op (truncate_op s j) i) = contents s |` {i<..j}" by simp
  obtain es where "read_op (truncate_op (purge_op s i) j) Unbounded Unbounded = Some es"
    "sorted_wrt (<) (map idx es)" "set es = {e. \<exists>k. contents (truncate_op (purge_op s i) j) k = Some e}"
    using read_range [of "truncate_op (purge_op s i) j" Unbounded Unbounded] assms
    by (auto simp: truncate_ok purge_ok)
  then show "read_op (purge_op (truncate_op s j) i) Unbounded Unbounded =
      read_op (truncate_op (purge_op s i) j) Unbounded Unbounded"
    using read_unique [of "purge_op (truncate_op s j) i" Unbounded Unbounded es] c assms
    by (simp add: truncate_ok purge_ok)
qed

end

section \<open>The in-memory log keeps the contract\<close>

definition mem_log_ok :: "('m, 'vote) OpenRaftMemLog \<Rightarrow> bool" where
  "mem_log_ok l \<longleftrightarrow> \<not> poisoned (log l) \<and> btree_wf (lock_value (log l)) \<and>
     (\<forall>(k, e) \<in> set (lock_value (log l)). index (log_id e) = k)"

definition mem_contents :: "('m, 'vote) OpenRaftMemLog \<Rightarrow> u64 \<rightharpoonup> 'm Entry" where
  "mem_contents l = map_of (lock_value (log l))"

definition mem_read :: "('m, 'vote) OpenRaftMemLog \<Rightarrow> bound \<Rightarrow> bound \<Rightarrow> 'm Entry list option" where
  "mem_read l lo hi = Option.bind (try_get_log_entries l lo hi) (\<lambda>r. case r of Inr es \<Rightarrow> Some es | Inl _ \<Rightarrow> None)"

abbreviation entry_index :: "'m Entry \<Rightarrow> u64" where
  "entry_index e \<equiv> index (log_id e)"

lemma mem_log_ok_new: "mem_log_ok mem_log_new"
  by (simp add: mem_log_ok_def mem_log_new_def)

lemma btree_insert_set: "x \<in> set (btree_insert k v m) \<Longrightarrow> x = (k, v) \<or> x \<in> set m"
  by (induction k v m rule: btree_insert.induct) (auto split: if_splits)

lemma insert_entries_props:
  assumes "btree_wf m" "\<forall>(k, e) \<in> set m. entry_index e = k"
  shows "btree_wf (insert_entries es m) \<and> (\<forall>(k, e) \<in> set (insert_entries es m). entry_index e = k) \<and>
    map_of (insert_entries es m) = map_of m ++ map_of (rev (map (\<lambda>e. (entry_index e, e)) es))"
  using assms
proof (induction es arbitrary: m)
  case Nil
  then show ?case by (simp add: insert_entries_def)
next
  case (Cons e es)
  let ?m = "btree_insert (entry_index e) e m"
  have "\<forall>(k, e) \<in> set ?m. entry_index e = k"
    using Cons.prems(2) by (auto dest!: btree_insert_set)
  then have "btree_wf (insert_entries es ?m) \<and> (\<forall>(k, e) \<in> set (insert_entries es ?m). entry_index e = k) \<and>
      map_of (insert_entries es ?m) = map_of ?m ++ map_of (rev (map (\<lambda>e. (entry_index e, e)) es))"
    using Cons.prems(1) by (intro Cons.IH) simp_all
  moreover have "insert_entries (e # es) m = insert_entries es ?m" by (simp add: insert_entries_def)
  ultimately show ?case using map_of_btree_insert [OF Cons.prems(1)] by simp
qed

lemma mem_read_ok:
  assumes "mem_log_ok l" "\<not> range_panics lo hi"
  shows "\<exists>es. mem_read l lo hi = Some es \<and> sorted_wrt (<) (map entry_index es) \<and>
    set es = {e. \<exists>k. mem_contents l k = Some e \<and> above lo k \<and> below hi k}"
proof -
  let ?m = "filter (\<lambda>(k, _). above lo k \<and> below hi k) (lock_value (log l))"
  have wf: "btree_wf (lock_value (log l))" and key: "\<And>k e. (k, e) \<in> set (lock_value (log l)) \<Longrightarrow> entry_index e = k"
    using assms(1) by (auto simp: mem_log_ok_def)
  have "map entry_index (map snd ?m) = map fst ?m" using key by auto
  moreover have "sorted_wrt (<) (map fst ?m)" using btree_wf_filter [OF wf] by (simp add: btree_wf_def)
  moreover have "set (map snd ?m) = {e. \<exists>k. mem_contents l k = Some e \<and> above lo k \<and> below hi k}"
    using btree_mem [OF wf] by (force simp: mem_contents_def)
  moreover have "mem_read l lo hi = Some (map snd ?m)"
    using assms by (simp add: mem_read_def try_get_log_entries_def mem_log_ok_def btree_range_def)
  ultimately show ?thesis by (metis (no_types, lifting))
qed

interpretation mem: raft_log mem_log_ok mem_contents entry_index "\<lambda>l es. snd (snd (append_log l es))"
  "\<lambda>l i. snd (truncate_log l (log_id_new 0 0 i))" "\<lambda>l i. snd (purge_log l (log_id_new 0 0 i))" mem_read
proof unfold_locales
  show "entry_index e = k" if "mem_log_ok l" "mem_contents l k = Some e" for l k and e :: "'m Entry"
    using that by (auto simp: mem_log_ok_def mem_contents_def dest: map_of_SomeD)
  show "mem_log_ok (snd (snd (append_log l es)))" if "mem_log_ok l" for l and es :: "'m Entry list"
    using that insert_entries_props [of "lock_value (log l)" es] by (simp add: append_log_def mem_log_ok_def)
  show "mem_contents (snd (snd (append_log l es))) =
      mem_contents l ++ map_of (rev (map (\<lambda>e. (entry_index e, e)) es))"
    if "mem_log_ok l" for l and es :: "'m Entry list"
    using that insert_entries_props [of "lock_value (log l)" es]
    by (simp add: append_log_def mem_log_ok_def mem_contents_def)
  show "mem_log_ok (snd (truncate_log l (log_id_new 0 0 i)))" if "mem_log_ok l" for l i
    using that by (auto simp: truncate_log_def mem_log_ok_def btree_retain_def)
  show "mem_contents (snd (truncate_log l (log_id_new 0 0 i))) = mem_contents l |` {..i}"
    if "mem_log_ok l" for l i
    using that by (simp add: truncate_log_def mem_log_ok_def mem_contents_def map_of_btree_retain atMost_def)
  show "mem_log_ok (snd (purge_log l (log_id_new 0 0 i)))" if "mem_log_ok l" for l i
    using that by (auto simp: purge_log_def mem_log_ok_def btree_retain_def)
  show "mem_contents (snd (purge_log l (log_id_new 0 0 i))) = mem_contents l |` {i<..}"
    if "mem_log_ok l" for l i
    using that by (simp add: purge_log_def mem_log_ok_def mem_contents_def map_of_btree_retain greaterThan_def)
qed (rule mem_read_ok)

lemma truncate_log_index: "truncate_log l lid = truncate_log l (log_id_new 0 0 (index lid))"
  by (simp add: truncate_log_def split: sum.split)

lemma purge_log_index: "purge_log l lid = purge_log l (log_id_new 0 0 (index lid))"
  by (simp add: purge_log_def split: sum.split)

text \<open>Logs in use: any sequence of the mutating calls on a new log.\<close>

inductive mem_log_used :: "('m, 'vote) OpenRaftMemLog \<Rightarrow> bool" where
  created: "mem_log_used mem_log_new"
| appended: "mem_log_used l \<Longrightarrow> append_log l es = (r, flushed, l') \<Longrightarrow> mem_log_used l'"
| truncated: "mem_log_used l \<Longrightarrow> truncate_log l lid = (r, l') \<Longrightarrow> mem_log_used l'"
| purged: "mem_log_used l \<Longrightarrow> purge_log l lid = (r, l') \<Longrightarrow> mem_log_used l'"
| voted: "mem_log_used l \<Longrightarrow> save_vote l v = (r, l') \<Longrightarrow> mem_log_used l'"

lemma save_vote_log: "save_vote l v = (r, l') \<Longrightarrow> log l' = log l"
  by (auto simp: save_vote_def split: sum.splits)

lemma mem_log_used_ok: "mem_log_used l \<Longrightarrow> mem_log_ok l"
proof (induction rule: mem_log_used.induct)
  case created
  then show ?case by (rule mem_log_ok_new)
next
  case (appended l es r flushed l')
  then show ?case using mem.append_ok [of l es] by simp
next
  case (truncated l lid r l')
  then show ?case using mem.truncate_ok [of l "index lid"] truncate_log_index [of l lid] by simp
next
  case (purged l lid r l')
  then show ?case using mem.purge_ok [of l "index lid"] purge_log_index [of l lid] by simp
next
  case (voted l v r l')
  then show ?case using save_vote_log [OF voted.hyps(2)] by (simp add: mem_log_ok_def)
qed

lemma mem_read_iff: "mem_log_ok l \<Longrightarrow> mem_read l lo hi = Some es \<longleftrightarrow> try_get_log_entries l lo hi = Some (Inr es)"
  by (cases "btree_range lo hi (lock_value (log l))")
    (auto simp: mem_read_def try_get_log_entries_def mem_log_ok_def)

section \<open>Properties of the log\<close>

text \<open>Entries appended at consecutive indices are read back. The append succeeds and calls its
  callback, and reading the range from the first to the last appended index returns exactly the
  appended entries in order, whatever was in the log before, including entries they overwrite.\<close>

theorem mem_append_read_back:
  assumes "mem_log_used l" "es \<noteq> []" "sorted_wrt (<) (map entry_index es)"
    and "\<And>k. entry_index (hd es) \<le> k \<Longrightarrow> k \<le> entry_index (last es) \<Longrightarrow> k \<in> entry_index ` set es"
  shows "\<exists>l'. append_log l es = (Inr (), True, l') \<and>
    try_get_log_entries l' (Included (entry_index (hd es))) (Included (entry_index (last es))) = Some (Inr es)"
proof -
  have ok: "mem_log_ok l" using mem_log_used_ok [OF assms(1)] .
  obtain l' where l': "append_log l es = (Inr (), True, l')"
    using ok by (simp add: append_log_def mem_log_ok_def)
  then have "mem_log_ok l'" using mem.append_ok [OF ok, of es] by simp
  then show ?thesis
    using mem.read_back [OF ok assms(3,2,4)] l' mem_read_iff by fastforce
qed

definition entry_at :: "u64 \<Rightarrow> u64 \<Rightarrow> bytes \<Rightarrow> 'm Entry" where
  "entry_at t i bs = \<lparr>log_id = log_id_new t 1 i, payload = Normal \<lparr>operation_bytes = bs\<rparr>\<rparr>"

lemma mem_append_read_back_witness:
  "\<exists>l'. append_log (mem_log_new :: (nat, nat) OpenRaftMemLog) [entry_at 1 4 [9], entry_at 1 5 []] = (Inr (), True, l') \<and>
     try_get_log_entries l' (Included 4) (Included 5) = Some (Inr [entry_at 1 4 [9], entry_at 1 5 []])"
proof -
  have "k = 4 \<or> k = 5" if "4 \<le> k" "k \<le> 5" for k :: u64
  proof -
    have "unat k = 4 \<or> unat k = 5" using that by (auto simp: word_le_nat_alt)
    then show ?thesis by (simp add: word_unat_eq_iff)
  qed
  then show ?thesis
    using mem_append_read_back [OF mem_log_used.created, of "[entry_at 1 4 [9], entry_at 1 5 []]"]
    by (simp add: entry_at_def image_def)
qed

text \<open>C36: truncation and purging keep exactly the entries between them: after truncating at one log id
  and purging at another, an index is in the log if and only if it was there, is above the purged
  index and is at most the truncated one; and the two may be done in either order.\<close>

theorem mem_truncate_purge:
  assumes "mem_log_used l" "truncate_log l t = (r1, l1)" "purge_log l1 p = (r2, l2)"
    and "purge_log l p = (r3, l3)" "truncate_log l3 t = (r4, l4)"
  shows "r1 = Inr () \<and> r2 = Inr () \<and> mem_contents l2 = mem_contents l |` {index p<..index t} \<and>
    try_get_log_entries l2 Unbounded Unbounded = try_get_log_entries l4 Unbounded Unbounded"
proof -
  have ok: "mem_log_ok l" using mem_log_used_ok [OF assms(1)] .
  have l2: "l2 = snd (purge_log (snd (truncate_log l (log_id_new 0 0 (index t)))) (log_id_new 0 0 (index p)))"
    using assms(2,3) truncate_log_index [of l t] purge_log_index [of l1 p] by simp
  have l4: "l4 = snd (truncate_log (snd (purge_log l (log_id_new 0 0 (index p)))) (log_id_new 0 0 (index t)))"
    using assms(4,5) purge_log_index [of l p] truncate_log_index [of l3 t] by simp
  have read: "mem_read l2 Unbounded Unbounded = mem_read l4 Unbounded Unbounded"
    using mem.read_after_truncate_purge(2) [OF ok, of "index t" "index p"] l2 l4 by simp
  have "mem_log_ok l1" using mem.truncate_ok [OF ok] assms(2) truncate_log_index [of l t] by (metis snd_conv)
  moreover have "mem_log_ok l2" "mem_log_ok l4"
    using mem.purge_ok [OF mem.truncate_ok [OF ok]] mem.truncate_ok [OF mem.purge_ok [OF ok]] l2 l4 by simp_all
  ultimately show ?thesis
    using mem.read_after_truncate_purge(1) [OF ok, of "index t" "index p"] l2 l4 read ok assms(2,3)
    by (auto simp: truncate_log_def purge_log_def mem_log_ok_def mem_read_def try_get_log_entries_def
        btree_range_def)
qed

lemma mem_log_used_append: "mem_log_used (snd (snd (append_log mem_log_new es)))"
  by (rule mem_log_used.appended [OF mem_log_used.created, of es]) (simp add: prod_eq_iff)

text \<open>A log of the entries 1 to 5, from which truncating at 4 removes the last and purging at 2 the
  first two.\<close>

definition five_entries :: "(nat, nat) OpenRaftMemLog" where
  "five_entries = snd (snd (append_log mem_log_new (map (\<lambda>i. entry_at 1 i []) [1, 2, 3, 4, 5])))"

lemma mem_truncate_purge_witness:
  "\<exists>l1 l2. truncate_log five_entries (log_id_new 1 1 4) = (Inr (), l1) \<and>
     purge_log l1 (log_id_new 1 1 2) = (Inr (), l2) \<and>
     dom (mem_contents five_entries) = {1, 2, 3, 4, 5} \<and> dom (mem_contents l1) = {1, 2, 3, 4} \<and>
     dom (mem_contents l2) = {3, 4}"
proof -
  let ?tr = "truncate_log five_entries (log_id_new 1 1 4)"
  let ?pu = "purge_log (snd ?tr) (log_id_new 1 1 2)"
  have used: "mem_log_used five_entries" unfolding five_entries_def by (rule mem_log_used_append)
  have dom: "dom (mem_contents five_entries) = {1, 2, 3, 4, 5}" "dom (mem_contents (snd ?tr)) = {1, 2, 3, 4}"
    by (auto simp: five_entries_def append_log_def truncate_log_def mem_log_new_def entry_at_def mem_contents_def
        btree_retain_def insert_entries_def)
  have "mem_contents (snd ?pu) = mem_contents five_entries |` {2<..4}" "fst ?tr = Inr ()" "fst ?pu = Inr ()"
    using mem_truncate_purge [OF used, of "log_id_new 1 1 4" "fst ?tr" "snd ?tr" "log_id_new 1 1 2" "fst ?pu" "snd ?pu"]
    by (auto simp: prod_eq_iff)
  moreover have "{1, 2, 3, 4, 5} \<inter> {2<..4 :: u64} = {3, 4}" by auto
  ultimately show ?thesis using dom by (intro exI [of _ "snd ?tr"] exI [of _ "snd ?pu"]) (simp add: prod_eq_iff)
qed

text \<open>The reported log state is the log's end: the last log id is that of the entry with the
  largest index, and there is none exactly when the log is empty.\<close>

theorem mem_log_state:
  assumes "mem_log_used l" "get_log_state l = Inr st"
  shows "case last_log_id st of
      None \<Rightarrow> mem_contents l = Map.empty
    | Some lid \<Rightarrow> (\<exists>e. mem_contents l (index lid) = Some e \<and> log_id e = lid) \<and>
        (\<forall>k \<in> dom (mem_contents l). k \<le> index lid)"
proof -
  have ok: "mem_log_ok l" using mem_log_used_ok [OF assms(1)] .
  have wf: "btree_wf (lock_value (log l))" using ok by (simp add: mem_log_ok_def)
  have st: "last_log_id st = map_option (\<lambda>(_, e). log_id e) (btree_last (lock_value (log l)))"
    using assms(2) ok by (auto simp: get_log_state_def mem_log_ok_def)
  show ?thesis
  proof (cases "btree_last (lock_value (log l))")
    case None
    then show ?thesis using st btree_last_None by (auto simp: mem_contents_def)
  next
    case (Some x)
    obtain k e where x: "x = (k, e)" by fastforce
    have "map_of (lock_value (log l)) k = Some e" "\<forall>k' \<in> dom (map_of (lock_value (log l))). k' \<le> k"
      using btree_last_max [OF wf] Some x by blast+
    moreover from this have "entry_index e = k" using mem.keyed [OF ok] by (simp add: mem_contents_def)
    ultimately show ?thesis using st Some x by (simp add: mem_contents_def)
  qed
qed

lemma mem_log_state_witness:
  "\<exists>l' st. append_log (mem_log_new :: (nat, nat) OpenRaftMemLog) [entry_at 1 4 [9]] = (Inr (), True, l') \<and>
     get_log_state l' = Inr st \<and> last_log_id st = Some (log_id_new 1 1 4)"
proof -
  let ?r = "append_log (mem_log_new :: (nat, nat) OpenRaftMemLog) [entry_at 1 4 [9]]"
  have used: "mem_log_used (snd (snd ?r))" by (rule mem_log_used_append)
  obtain st where st: "get_log_state (snd (snd ?r)) = Inr st"
    by (simp add: get_log_state_def append_log_def mem_log_new_def)
  from mem_log_state [OF used st] st show ?thesis
    by (auto simp: append_log_def mem_log_new_def get_log_state_def insert_entries_def btree_last_def entry_at_def)
qed

text \<open>Truncation keeps the entry at the index it is given. \<open>openraft\<close> asks its store to delete the
  log from that entry on, itself included.\<close>

theorem truncate_keeps_its_index:
  assumes "mem_log_used l" "mem_contents l (index lid) = Some e"
  shows "mem_contents (snd (truncate_log l lid)) (index lid) = Some e"
  using mem.truncate_contents [OF mem_log_used_ok [OF assms(1)], of "index lid"] assms(2)
    truncate_log_index [of l lid] by simp

lemma truncate_keeps_its_index_witness:
  "mem_contents (snd (truncate_log
      (snd (snd (append_log (mem_log_new :: (nat, nat) OpenRaftMemLog) [entry_at 1 4 [9]]))) (log_id_new 1 1 4))) 4 =
     Some (entry_at 1 4 [9])"
  using truncate_keeps_its_index [OF mem_log_used_append, of "[entry_at 1 4 [9]]" "log_id_new 1 1 4"]
  by (simp add: append_log_def mem_log_new_def insert_entries_def mem_contents_def entry_at_def)

end
