(* ===== verification/Entry_Ops.thy ===== *)
theory Entry_Ops
  imports Openraft_Types Operations
begin

text \<open>
  The operations that the entries of a Raft log carry, for what both state machines promise about a
  batch of entries: which entries decode, the operations of a batch in order, and the answers that
  applying them one after the other gives.
\<close>

definition entry_ops :: "Operation bincode \<Rightarrow> 'm Entry \<Rightarrow> Operation list" where
  "entry_ops B e =
     (case payload e of
        Normal req \<Rightarrow> (case operation_deserialize B (operation_bytes req) of Inr op \<Rightarrow> [op] | Inl _ \<Rightarrow> [])
      | _ \<Rightarrow> [])"

definition is_normal :: "'m Entry \<Rightarrow> bool" where
  "is_normal e \<longleftrightarrow> (case payload e of Normal _ \<Rightarrow> True | _ \<Rightarrow> False)"

definition decodable :: "Operation bincode \<Rightarrow> 'm Entry \<Rightarrow> bool" where
  "decodable B e \<longleftrightarrow>
     (case payload e of Normal req \<Rightarrow> \<exists>op. operation_deserialize B (operation_bytes req) = Inr op | _ \<Rightarrow> True)"

abbreviation entries_ops :: "Operation bincode \<Rightarrow> 'm Entry list \<Rightarrow> Operation list" where
  "entries_ops B es \<equiv> concat (map (entry_ops B) es)"

fun answers :: "Operation bincode \<Rightarrow> 'm Entry list \<Rightarrow> (bytes \<rightharpoonup> bytes) \<Rightarrow> Response list" where
  "answers B [] s = []"
| "answers B (e # es) s =
     (case entry_ops B e of
        op # _ \<Rightarrow> \<lparr>result = result_bytes (operation_apply op s)\<rparr> # answers B es (snd (operation_apply op s))
      | [] \<Rightarrow> \<lparr>result = []\<rparr> # answers B es s)"

text \<open>The answer of an entry when every operation is answered with OK.\<close>

definition entry_response :: "'m Entry \<Rightarrow> Response" where
  "entry_response e = \<lparr>result = (case payload e of Normal _ \<Rightarrow> bstr ''OK'' | _ \<Rightarrow> [])\<rparr>"

definition is_del :: "Operation \<Rightarrow> bool" where
  "is_del op \<longleftrightarrow> (case op of Del _ \<Rightarrow> True | Set _ _ \<Rightarrow> False)"

lemma length_answers [simp]: "length (answers B es s) = length es"
  by (induction es arbitrary: s) (auto split: list.split)

lemma answer_is_OK: "result_bytes (operation_apply op s) = bstr ''OK'' \<longleftrightarrow> \<not> is_del op"
  by (cases op) (auto simp: result_bytes_def is_del_def bstr_def)

lemma decodable_cases:
  assumes "decodable B e"
  obtains (op) op req where "payload e = Normal req" "operation_deserialize B (operation_bytes req) = Inr op"
      "entry_ops B e = [op]" "entry_response e = \<lparr>result = bstr ''OK''\<rparr>"
    | (other) "\<not> is_normal e" "entry_ops B e = []" "entry_response e = \<lparr>result = []\<rparr>"
  using assms by (cases "payload e") (auto simp: decodable_def entry_ops_def entry_response_def is_normal_def)

text \<open>All answers are OK exactly when nothing is deleted.\<close>

lemma answers_OK_iff:
  "list_all (decodable B) es \<Longrightarrow>
     answers B es s = map entry_response es \<longleftrightarrow> (\<forall>op \<in> set (entries_ops B es). \<not> is_del op)"
proof (induction es arbitrary: s)
  case (Cons e es)
  then have "decodable B e" by simp
  then show ?case
  proof (cases rule: decodable_cases)
    case (op op req)
    with Cons show ?thesis by (simp add: answer_is_OK)
  next
    case other
    with Cons show ?thesis by simp
  qed
qed simp

end
