(* ===== verification/Openraft_Mem_Apply.thy ===== *)
theory Openraft_Mem_Apply
  imports Openraft_Mem Entry_Ops
begin

text \<open>
  What the in-memory state machine of \<open>crates/storage/src/openraft_mem.rs\<close> guarantees: applying
  committed entries, the applied state it reports, and its snapshots.
\<close>

section \<open>Applying entries\<close>

text \<open>The application entries of a batch: index and operation bytes.\<close>

fun normals :: "'m Entry list \<Rightarrow> (u64 \<times> bytes) list" where
  "normals [] = []"
| "normals (e # es) =
     (case payload e of Normal req \<Rightarrow> (index (log_id e), operation_bytes req) # normals es | _ \<Rightarrow> normals es)"

text \<open>The log id reported as applied: that of the last application entry.\<close>

definition applied_id :: "StateMachine \<Rightarrow> LogId option" where
  "applied_id m = map_option (\<lambda>(t, leader, i). log_id_new t leader i) (sm_last_applied_log m)"

fun last_normal_id :: "'m Entry list \<Rightarrow> LogId option \<Rightarrow> LogId option" where
  "last_normal_id [] x = x"
| "last_normal_id (e # es) x = last_normal_id es (if is_normal e then Some (log_id e) else x)"

lemma sm_apply_with_log_id_ok:
  assumes "operation_deserialize b bs = Inr op" "last_applied m < i"
  shows "sm_apply_with_log_id b m t n i bs = (Inr (result_bytes (operation_apply op (data m))),
    m\<lparr>data := snd (operation_apply op (data m)), last_applied := i, last_applied_log := Some (t, n)\<rparr>)"
  using assms
  by (cases rule: sm_apply_cases [of b m i bs]) (auto simp: sm_apply_with_log_id_def)

lemma not_normal_step:
  assumes "\<not> is_normal e"
  shows "normals (e # es) = normals es"
    "apply_entries b (e # es) m =
       (case apply_entries b es m of
          (Inl err, m') \<Rightarrow> (Inl err, m') | (Inr rs, m') \<Rightarrow> (Inr (\<lparr>result = []\<rparr> # rs), m'))"
  using assms by (cases "payload e"; simp add: is_normal_def)+

text \<open>A batch whose operations decode, at growing indices, is applied and answered in order.\<close>

lemma apply_entries_decodable:
  assumes "list_all (decodable b) es" "sorted_wrt (<) (last_applied m # map fst (normals es))"
  obtains m' where "apply_entries b es m = (Inr (answers b es (data m)), m')"
    "data m' = fold (\<lambda>op s. snd (operation_apply op s)) (entries_ops b es) (data m)"
    "applied_id m' = last_normal_id es (applied_id m)"
  using assms
proof (induction es arbitrary: m thesis)
  case Nil
  then show ?case by simp
next
  case (Cons e es)
  then have "decodable b e" by simp
  then show ?case
  proof (cases rule: decodable_cases)
    case (op op req)
    let ?m = "m\<lparr>data := snd (operation_apply op (data m)), last_applied := index (log_id e),
      last_applied_log := Some (id_term (log_id e), node_id (log_id e))\<rparr>"
    have one: "sm_apply_with_log_id b m (id_term (log_id e)) (node_id (log_id e)) (index (log_id e))
        (operation_bytes req) = (Inr (result_bytes (operation_apply op (data m))), ?m)"
      using Cons.prems(3) op by (intro sm_apply_with_log_id_ok) simp_all
    have id: "applied_id ?m = Some (log_id e)" by (simp add: applied_id_def sm_last_applied_log_def)
    obtain m' where "apply_entries b es ?m = (Inr (answers b es (data ?m)), m')"
      "data m' = fold (\<lambda>op s. snd (operation_apply op s)) (entries_ops b es) (data ?m)"
      "applied_id m' = last_normal_id es (applied_id ?m)"
      using Cons.IH [of ?m] Cons.prems(2,3) op(1) by auto
    then show ?thesis using op one id by (intro Cons.prems(1) [of m']) (simp_all add: is_normal_def)
  next
    case other
    have "sorted_wrt (<) (last_applied m # map fst (normals es))"
      using Cons.prems(3) unfolding not_normal_step(1) [OF other(1)] .
    then obtain m' where "apply_entries b es m = (Inr (answers b es (data m)), m')"
      "data m' = fold (\<lambda>op s. snd (operation_apply op s)) (entries_ops b es) (data m)"
      "applied_id m' = last_normal_id es (applied_id m)"
      using Cons.IH [of m] Cons.prems(2) by auto
    then show ?thesis
      using other by (intro Cons.prems(1) [of m']) (simp_all add: not_normal_step(2) del: apply_entries.simps)
  qed
qed

lemma logged_decodable:
  assumes "bincode_ok b"
  shows "list_all2 (logged b) (normals es) ops \<Longrightarrow> list_all (decodable b) es \<and> entries_ops b es = ops"
proof (induction es arbitrary: ops)
  case (Cons e es)
  show ?case
  proof (cases "payload e")
    case (Normal req)
    then obtain op ops' where ops: "ops = op # ops'" "list_all2 (logged b) (normals es) ops'"
      and "logged b (index (log_id e), operation_bytes req) op"
      using Cons.prems by (auto simp: list_all2_Cons1)
    then have "operation_deserialize b (operation_bytes req) = Inr op"
      using operation_round_trip [OF assms] by (simp add: logged_def)
    then show ?thesis using Cons.IH [OF ops(2)] Normal ops(1) by (simp add: decodable_def entry_ops_def)
  qed (use Cons in \<open>simp_all add: decodable_def entry_ops_def\<close>)
qed simp

definition mem_sm_ok :: "'m OpenRaftMemStateMachine \<Rightarrow> bool" where
  "mem_sm_ok s \<longleftrightarrow> \<not> poisoned (sm s) \<and> \<not> poisoned (stored_membership s) \<and> \<not> poisoned (snapshot s)"

lemma mem_sm_ok_new [simp]: "mem_sm_ok (mem_sm_new m0)"
  by (simp add: mem_sm_ok_def mem_sm_new_def)

abbreviation kv_lookup :: "'m OpenRaftMemStateMachine \<Rightarrow> bytes \<Rightarrow> bytes option" where
  "kv_lookup s \<equiv> sm_get (lock_value (sm s))"

lemma apply_memberships_last:
  "apply_memberships (es @ [e]) m =
     (case payload e of Membership m' \<Rightarrow> \<lparr>membership_log_id = Some (log_id e), membership = m'\<rparr>
      | _ \<Rightarrow> apply_memberships es m)"
  by (induction es arbitrary: m) (auto split: EntryPayload.split)

lemma apply_entries_no_normal:
  "(\<And>e. e \<in> set es \<Longrightarrow> \<not> is_normal e) \<Longrightarrow> apply_entries b es m = (Inr (map (\<lambda>_. \<lparr>result = []\<rparr>) es), m)"
proof (induction es)
  case (Cons e es)
  then have "apply_entries b es m = (Inr (map (\<lambda>_. \<lparr>result = []\<rparr>) es), m)" "\<not> is_normal e" by simp_all
  then show ?case by (cases "payload e") (simp_all add: is_normal_def)
qed simp

section \<open>Properties\<close>

text \<open>C35: applying a batch of committed entries. When the application entries carry serialized
  operations at growing indices, every operation is answered as when it is applied at its place in the batch, every key holds what the last
  operation on it wrote, the reported applied log id is that of the last application entry, and
  the stored membership is the one of the last membership entry.\<close>

theorem mem_apply_batch:
  assumes "bincode_ok b" "mem_sm_ok s" "list_all2 (logged b) (normals es) ops"
    and "sorted_wrt (<) (last_applied (lock_value (sm s)) # map fst (normals es))"
  shows "\<exists>rs s'. mem_apply b s es = (Inr rs, s') \<and> rs = answers b es (data (lock_value (sm s))) \<and>
    (\<forall>k. kv_lookup s' k = (case last_write k ops of Some w \<Rightarrow> w | None \<Rightarrow> kv_lookup s k)) \<and>
    applied_state s' = Inr (last_normal_id es (applied_id (lock_value (sm s))),
      apply_memberships es (lock_value (stored_membership s)))"
proof -
  obtain rs m' where run: "apply_entries b es (lock_value (sm s)) = (Inr rs, m')" "rs = answers b es (data (lock_value (sm s)))"
    and d: "data m' = fold (\<lambda>op s. snd (operation_apply op s)) ops (data (lock_value (sm s)))"
    and i: "applied_id m' = last_normal_id es (applied_id (lock_value (sm s)))"
    using apply_entries_decodable [OF _ assms(4)] logged_decodable [OF assms(1,3)] by blast
  let ?s = "s\<lparr>sm := lock_set (sm s) m',
    stored_membership := lock_set (stored_membership s) (apply_memberships es (lock_value (stored_membership s)))\<rparr>"
  have "mem_apply b s es = (Inr rs, ?s)" using assms(2) run by (simp add: mem_apply_def mem_sm_ok_def)
  moreover have "kv_lookup ?s k = (case last_write k ops of Some w \<Rightarrow> w | None \<Rightarrow> kv_lookup s k)" for k
    using hashmap.lookup_fold [of ops "data (lock_value (sm s))" k] d
    by (auto simp: sm_get_def split: option.split)
  moreover have "applied_state ?s = Inr (last_normal_id es (applied_id (lock_value (sm s))),
      apply_memberships es (lock_value (stored_membership s)))"
    using assms(2) i by (simp add: applied_state_def mem_sm_ok_def applied_id_def)
  ultimately show ?thesis using run(2) by blast
qed

lemma mem_apply_batch_witness:
  "\<exists>rs s'. mem_apply sample_bincode (mem_sm_new (0 :: nat)) [entry_at 2 1 [0, 7, 8], entry_at 2 2 [1, 7]] = (Inr rs, s') \<and>
     kv_lookup s' [7] = None \<and> rs = [\<lparr>result = bstr ''OK''\<rparr>, \<lparr>result = bstr ''1''\<rparr>]"
proof -
  have "list_all2 (logged sample_bincode) (normals [entry_at 2 1 [0, 7, 8], entry_at 2 2 [1, 7] :: nat Entry])
      [Set [7] [8], Del [7]]"
    by (simp add: entry_at_def logged_def operation_serialize_def sample_bincode_def map_bincode_err_def
        MAX_OPERATION_SIZE_def)
  from mem_apply_batch [OF sample_bincode_ok mem_sm_ok_new this, of 0] show ?thesis
    by (auto simp: entry_at_def mem_sm_new_def sm_new_def entry_ops_def operation_deserialize_def
        sample_bincode_def map_bincode_err_def MAX_OPERATION_SIZE_def result_bytes_def)
qed

text \<open>The reported applied log id only follows application entries. A batch of blank and membership
  entries is answered entry by entry, but the applied state keeps reporting the log id it had, so
  the store reports that these entries are not applied.\<close>

theorem blank_entries_not_reported_applied:
  assumes "mem_sm_ok s" "\<And>e. e \<in> set es \<Longrightarrow> \<not> is_normal e"
  shows "\<exists>rs s' m m'. mem_apply b s es = (Inr rs, s') \<and> length rs = length es \<and>
    applied_state s = Inr (applied_id (lock_value (sm s)), m) \<and>
    applied_state s' = Inr (applied_id (lock_value (sm s)), m')"
  using assms(1) apply_entries_no_normal [OF assms(2), where b = b and m = "lock_value (sm s)"]
  by (simp add: mem_apply_def applied_state_def applied_id_def mem_sm_ok_def)

lemma blank_entries_not_reported_applied_witness:
  "\<exists>rs s'. mem_apply sample_bincode (mem_sm_new (0 :: nat)) [\<lparr>log_id = log_id_new 1 1 1, payload = Blank\<rparr>] = (Inr rs, s') \<and>
     length rs = 1 \<and> fst (projr (applied_state s')) = None"
proof -
  have "\<exists>rs s' m m'. mem_apply sample_bincode (mem_sm_new (0 :: nat)) [\<lparr>log_id = log_id_new 1 1 1, payload = Blank\<rparr>] = (Inr rs, s') \<and>
      length rs = length [\<lparr>log_id = log_id_new 1 1 1, payload = Blank :: nat EntryPayload\<rparr>] \<and>
      applied_state (mem_sm_new (0 :: nat)) = Inr (applied_id (lock_value (sm (mem_sm_new (0 :: nat)))), m) \<and>
      applied_state s' = Inr (applied_id (lock_value (sm (mem_sm_new (0 :: nat)))), m')"
    by (rule blank_entries_not_reported_applied) (auto simp: is_normal_def)
  then show ?thesis by (fastforce simp: mem_sm_new_def sm_new_def applied_id_def sm_last_applied_log_def)
qed

text \<open>Installing a built snapshot moves the data: the receiving machine answers every read and reports
  the applied log id like the machine the snapshot was built from. The metadata that came with it
  is ignored, and the membership the receiver stored stays.\<close>

theorem mem_snapshot_transfer:
  assumes "bincode_ok B" "mem_sm_ok s" "mem_sm_ok s2" "build_snapshot B m0 (get_snapshot_builder s) = Inr snap"
  shows "\<exists>s'. install_snapshot B s2 (meta snap) (snapshot_data snap) = (Inr (), s') \<and>
    kv_lookup s' = kv_lookup s \<and> applied_id (lock_value (sm s')) = applied_id (lock_value (sm s)) \<and>
    stored_membership s' = stored_membership s2"
proof -
  have "ser B (lock_value (sm s)) = Inr (snapshot_data snap)"
    using assms(2,4)
    by (auto simp: build_snapshot_def get_snapshot_builder_def mem_sm_ok_def sm_err_def sm_snapshot_def
        Let_def split: sum.splits)
  then have "de B (snapshot_data snap) = Inr (lock_value (sm s))" using assms(1) by (simp add: bincode_ok_def)
  then have "sm_restore B (lock_value (sm s2)) (snapshot_data snap) = (Inr (), lock_value (sm s))"
    by (simp add: sm_restore_def)
  then show ?thesis using assms(3) by (simp add: install_snapshot_def mem_sm_ok_def sm_err_def)
qed

definition toy_sm_bincode :: "StateMachine bincode" where
  "toy_sm_bincode = \<lparr>ser = (\<lambda>m. if m = sm_new\<lparr>last_applied := 3, last_applied_log := Some (2, 1)\<rparr>
     then Inr [1] else Inl ''x''),
     de = (\<lambda>bs. Inr (sm_new\<lparr>last_applied := 3, last_applied_log := Some (2, 1)\<rparr>))\<rparr>"

definition toy_mem_sm :: "nat OpenRaftMemStateMachine" where
  "toy_mem_sm = (mem_sm_new 0)\<lparr>sm := RwLock_new (sm_new\<lparr>last_applied := 3, last_applied_log := Some (2, 1)\<rparr>)\<rparr>"

definition toy_meta :: "'m \<Rightarrow> 'm SnapshotMeta" where
  "toy_meta m0 = \<lparr>snap_last_log_id = Some (log_id_new 0 0 3), snap_last_membership = default_membership m0,
     snapshot_id = bstr ''snapshot-'' @ dec_string 3\<rparr>"

lemma toy_build:
  "build_snapshot toy_sm_bincode m0 (get_snapshot_builder toy_mem_sm) =
     Inr \<lparr>meta = toy_meta m0, snapshot_data = [1]\<rparr>"
  by (simp add: toy_meta_def build_snapshot_def get_snapshot_builder_def toy_mem_sm_def toy_sm_bincode_def sm_err_def
      sm_snapshot_def sm_new_def Let_def)

lemma toy_mem_sm_facts:
  "bincode_ok toy_sm_bincode" "mem_sm_ok toy_mem_sm"
  "applied_id (lock_value (sm toy_mem_sm)) = Some (log_id_new 2 1 3)"
  by (simp_all add: bincode_ok_def toy_sm_bincode_def mem_sm_ok_def toy_mem_sm_def mem_sm_new_def
      applied_id_def sm_last_applied_log_def)

lemma mem_snapshot_transfer_witness:
  "\<exists>s'. install_snapshot toy_sm_bincode (mem_sm_new (0 :: nat)) (toy_meta 0) [1] = (Inr (), s') \<and>
     applied_id (lock_value (sm s')) = Some (log_id_new 2 1 3)"
  using mem_snapshot_transfer [OF toy_mem_sm_facts(1,2) mem_sm_ok_new [of 0] toy_build [of 0]] toy_mem_sm_facts(3)
  by auto

text \<open>The metadata of a built snapshot does not identify the entry it covers: the log id it carries
  has term and leader zero, whatever the term and leader of the last applied entry, and the
  membership is the default one, not the stored one.\<close>

theorem snapshot_meta_forgets_term:
  assumes "mem_sm_ok s" "applied_id (lock_value (sm s)) = Some lid" "id_term lid \<noteq> 0"
    and "build_snapshot B m0 (get_snapshot_builder s) = Inr snap"
  shows "snap_last_log_id (meta snap) \<noteq> Some lid \<and> snap_last_membership (meta snap) = default_membership m0"
  using assms
  by (auto simp: build_snapshot_def get_snapshot_builder_def mem_sm_ok_def res_bind_eq_Inr Let_def
      split: if_splits)

inductive mem_sm_used :: "Operation bincode \<Rightarrow> StateMachine bincode \<Rightarrow> 'm \<Rightarrow> 'm OpenRaftMemStateMachine \<Rightarrow> bool"
  for b B m0 where
  sm_created: "mem_sm_used b B m0 (mem_sm_new m0)"
| sm_applied: "mem_sm_used b B m0 s \<Longrightarrow> mem_apply b s es = (r, s') \<Longrightarrow> mem_sm_used b B m0 s'"
| sm_installed: "mem_sm_used b B m0 s \<Longrightarrow> install_snapshot B s mt bs = (r', s') \<Longrightarrow> mem_sm_used b B m0 s'"

lemma mem_sm_used_snapshot: "mem_sm_used b B m0 s \<Longrightarrow> snapshot s = RwLock_new None"
proof (induction rule: mem_sm_used.induct)
  case sm_created
  then show ?case by (simp add: mem_sm_new_def)
next
  case (sm_applied s es r s')
  then show ?case by (auto simp: mem_apply_def Let_def split: sum.splits prod.splits if_splits)
next
  case (sm_installed s mt bs r' s')
  then show ?case by (auto simp: install_snapshot_def split: sum.splits prod.splits)
qed

text \<open>No snapshot is ever current. Whatever sequence of entries is applied, snapshots built and
  snapshots installed, \<open>get_current_snapshot\<close> returns \<open>None\<close>: the field it reads is never written.\<close>

theorem no_current_snapshot:
  assumes "mem_sm_used b B m0 s"
  shows "get_current_snapshot s = Inr None"
  using mem_sm_used_snapshot [OF assms] by (simp add: get_current_snapshot_def)

lemma no_current_snapshot_witness:
  "get_current_snapshot (snd (install_snapshot toy_sm_bincode (mem_sm_new (0 :: nat)) (toy_meta 0) [1])) = Inr None"
  by (rule no_current_snapshot [OF mem_sm_used.sm_installed [OF mem_sm_used.sm_created]]) (simp add: prod_eq_iff)

lemma snapshot_meta_forgets_term_witness:
  "\<exists>snap. build_snapshot toy_sm_bincode 0 (get_snapshot_builder toy_mem_sm) = Inr snap \<and>
     snap_last_log_id (meta snap) \<noteq> Some (log_id_new 2 1 3) \<and> snap_last_membership (meta snap) = default_membership 0"
  using snapshot_meta_forgets_term [OF toy_mem_sm_facts(2,3) _ toy_build] toy_build by fastforce

end
