(* ===== verification/Rocks_Keys.thy ===== *)
theory Rocks_Keys
  imports Rocks_Storage Operations
begin

text \<open>
  Single keys and write batches of the RocksDB layer. A batch is the sequence of its operations,
  applied at once or not at all.
\<close>

definition handles_ok :: "('d, 'i) rocksdb \<Rightarrow> 'd \<Rightarrow> bool" where
  "handles_ok R d \<longleftrightarrow> (\<forall>cf. cf_handle R d (as_str cf))"

lemma handle_ok [simp]: "handles_ok R (db s) \<Longrightarrow> get_cf_handle R s cf = SOk (as_str cf)"
  by (simp add: handles_ok_def get_cf_handle_def)

section \<open>Single keys\<close>

lemma get_spec:
  "rocks_ok R store cursor \<Longrightarrow> handles_ok R (db s) \<Longrightarrow> get R s cf k = (SOk (store (db s) (as_str cf) k), s)"
  by (simp add: get_def rocks_ok_def rocks_reads_def)

lemma exists_spec:
  "rocks_ok R store cursor \<Longrightarrow> handles_ok R (db s) \<Longrightarrow>
     exists R s cf k = (SOk (store (db s) (as_str cf) k \<noteq> None), s)"
  by (simp add: exists_def rocks_ok_def rocks_reads_def)

lemma put_spec:
  assumes "rocks_ok R store cursor" "handles_ok R (db s)"
  obtains d where "put R s cf k v = (SOk (), s\<lparr>db := d\<rparr>)" "handles_ok R d"
    "store d = op_effect (RocksPut (as_str cf) k v) (store (db s))"
proof -
  obtain d where "put_cf_opt R (db s) (as_str cf) k v (cf_requires_fsync cf) = (Inr (), d)"
    "store d = op_effect (RocksPut (as_str cf) k v) (store (db s))" "cf_handle R d = cf_handle R (db s)"
    using assms(1) unfolding rocks_ok_def rocks_writes_def by blast
  with assms(2) that show thesis by (simp add: put_def handles_ok_def handle_ok)
qed

lemma delete_spec:
  assumes "rocks_ok R store cursor" "handles_ok R (db s)"
  obtains d where "delete R s cf k = (SOk (), s\<lparr>db := d\<rparr>)" "handles_ok R d"
    "store d = op_effect (RocksDelete (as_str cf) k) (store (db s))"
proof -
  obtain d where "delete_cf_opt R (db s) (as_str cf) k (cf_requires_fsync cf) = (Inr (), d)"
    "store d = op_effect (RocksDelete (as_str cf) k) (store (db s))" "cf_handle R d = cf_handle R (db s)"
    using assms(1) unfolding rocks_ok_def rocks_writes_def by blast
  with assms(2) that show thesis by (simp add: delete_def handles_ok_def handle_ok)
qed

section \<open>Batches\<close>

text \<open>The operations of a batch one by one, through \<open>put\<close> and \<open>delete\<close>.\<close>

fun perform :: "('d, 'i) rocksdb \<Rightarrow> BatchOperation \<Rightarrow> 'd Storage \<Rightarrow> unit sres \<times> 'd Storage" where
  "perform R (Put cf k v) s = put R s cf k v"
| "perform R (Delete cf k) s = delete R s cf k"

fun perform_all :: "('d, 'i) rocksdb \<Rightarrow> BatchOperation list \<Rightarrow> 'd Storage \<Rightarrow> unit sres \<times> 'd Storage" where
  "perform_all R [] s = (SOk (), s)"
| "perform_all R (w # ws) s = sbind (perform R w s) (\<lambda>_ s. perform_all R ws s)"

fun rocks_of :: "BatchOperation \<Rightarrow> rocks_op" where
  "rocks_of (Put cf k v) = RocksPut (as_str cf) k v"
| "rocks_of (Delete cf k) = RocksDelete (as_str cf) k"

lemma batch_ops_spec: "handles_ok R (db s) \<Longrightarrow> batch_ops R s ws = SOk (map rocks_of ws)"
proof (induction ws)
  case (Cons w ws)
  then show ?case by (cases w) simp_all
qed simp

lemma perform_spec:
  assumes "rocks_ok R store cursor" "handles_ok R (db s)"
  obtains d where "perform R w s = (SOk (), s\<lparr>db := d\<rparr>)" "handles_ok R d"
    "store d = op_effect (rocks_of w) (store (db s))"
proof (cases w)
  case (Put cf k v)
  with put_spec [OF assms, of cf k v] that show thesis by auto
next
  case (Delete cf k)
  with delete_spec [OF assms, of cf k] that show thesis by auto
qed

lemma perform_all_spec:
  assumes "rocks_ok R store cursor"
  shows "handles_ok R (db s) \<Longrightarrow> \<exists>d. perform_all R ws s = (SOk (), s\<lparr>db := d\<rparr>) \<and> handles_ok R d \<and>
    store d = fold op_effect (map rocks_of ws) (store (db s))"
proof (induction ws arbitrary: s)
  case Nil
  then show ?case by (intro exI [of _ "db s"]) simp
next
  case (Cons w ws)
  obtain d where d: "perform R w s = (SOk (), s\<lparr>db := d\<rparr>)" "handles_ok R d"
    "store d = op_effect (rocks_of w) (store (db s))"
    using perform_spec [OF assms Cons.prems] by blast
  with Cons.IH [of "s\<lparr>db := d\<rparr>"] show ?case by auto
qed

lemma batch_write_spec:
  assumes "rocks_ok R store cursor" "handles_ok R (db s)" "length (operations b) \<le> MAX_BATCH_OPERATIONS"
  obtains d where "batch_write R s b = (SOk (), s\<lparr>db := d\<rparr>)" "handles_ok R d"
    "store d = fold op_effect (map rocks_of (operations b)) (store (db s))"
proof (cases "operations b = []")
  case True
  with assms(2) that [of "db s"] show thesis by (simp add: batch_write_def batch_is_empty_def)
next
  case False
  obtain d where "write_opt R (db s) (map rocks_of (operations b)) (batch_requires_fsync b) = (Inr (), d)"
    "store d = fold op_effect (map rocks_of (operations b)) (store (db s))" "cf_handle R d = cf_handle R (db s)"
    using assms(1) unfolding rocks_ok_def rocks_writes_def by blast
  with False assms(2,3) that show thesis
    by (simp add: batch_write_def batch_is_empty_def batch_ops_spec handles_ok_def)
qed

section \<open>Properties\<close>

text \<open>A write batch within the limit has the effect of its operations performed one after the
  other, and leaves the log cache and the path alone.\<close>

theorem batch_is_its_operations:
  assumes "rocks_ok R store cursor" "handles_ok R (db s)" "length (operations b) \<le> MAX_BATCH_OPERATIONS"
  shows "\<exists>d d'. batch_write R s b = (SOk (), s\<lparr>db := d\<rparr>) \<and>
    perform_all R (operations b) s = (SOk (), s\<lparr>db := d'\<rparr>) \<and> store d = store d'"
  using batch_write_spec [OF assms] perform_all_spec [OF assms(1,2)] by metis

theorem batch_is_its_operations_witness:
  "\<exists>d d'. batch_write log_db \<lparr>db = [], last_log_index_cache = Map.empty, path = ''d''\<rparr>
      (batch_delete (batch_put (batch_put batch_new DataKv [1] [2]) SystemData [3] [4]) DataKv [1]) =
        (SOk (), \<lparr>db = d, last_log_index_cache = Map.empty, path = ''d''\<rparr>) \<and>
    perform_all log_db [Put DataKv [1] [2], Put SystemData [3] [4], Delete DataKv [1]]
        \<lparr>db = [], last_log_index_cache = Map.empty, path = ''d''\<rparr> =
        (SOk (), \<lparr>db = d', last_log_index_cache = Map.empty, path = ''d''\<rparr>) \<and>
    log_db_store d = log_db_store d'"
  using batch_is_its_operations [OF log_db_ok, of "\<lparr>db = [], last_log_index_cache = Map.empty, path = ''d''\<rparr>"
      "batch_delete (batch_put (batch_put batch_new DataKv [1] [2]) SystemData [3] [4]) DataKv [1]"]
    all_cfs_complete(1)
  by (auto simp: handles_ok_def log_db_def MAX_BATCH_OPERATIONS_def batch_delete_def batch_put_def batch_new_def)

end
