(* ===== verification/Rocks_Openraft.thy ===== *)
theory Rocks_Openraft
  imports Rocks_Keys Rocks_Log Openraft_Types
begin

text \<open>
  The log storage openraft runs on, \<open>RocksDBLogStorage\<close> of
  \<open>crates/storage/src/openraft_rocksdb.rs\<close>, with its message types and entry format. Parameters
  are the protobuf coding of the messages by \<open>prost\<close> (\<open>'a prost\<close>) and openraft's votes and
  memberships (\<open>openraft_api\<close>). An \<open>AnyError\<close> is the error it wraps, or its text. The storage is
  shared with the log readers and the state machine through an \<open>Arc\<close>; here it is the field
  \<open>storage\<close> of whichever component runs. A \<open>BTreeSet\<close> is a set. What is written to the log of
  the process is left out.
\<close>

section \<open>Parameters\<close>

record 'a prost =
  encode_to_vec :: "'a \<Rightarrow> bytes"
  encode_buf :: "'a \<Rightarrow> string + bytes"
  decode_msg :: "bytes \<Rightarrow> string + 'a"

definition prost_ok :: "'a prost \<Rightarrow> bool" where
  "prost_ok p \<longleftrightarrow> (\<forall>x. decode_msg p (encode_to_vec p x) = Inr x \<and> encode_buf p x = Inr (encode_to_vec p x))"

record ('vote, 'm) openraft_api =
  vote_term :: "'vote \<Rightarrow> u64"
  vote_node_id :: "'vote \<Rightarrow> u64"
  vote_voted_for :: "'vote \<Rightarrow> u64 option"
  vote_new :: "u64 \<Rightarrow> u64 \<Rightarrow> 'vote"
  voter_ids :: "'m \<Rightarrow> u64 list"
  learner_ids :: "'m \<Rightarrow> u64 list"
  membership_new :: "u64 set list \<Rightarrow> u64 set option \<Rightarrow> 'm"
  membership_default :: 'm

text \<open>Documented behaviour: a vote holds the term and node it is made of, and a membership of one
  configuration has those voters, and the learners that are not voters.\<close>

definition api_ok :: "('vote, 'm) openraft_api \<Rightarrow> bool" where
  "api_ok A \<longleftrightarrow>
     (\<forall>t n. vote_term A (vote_new A t n) = t \<and> vote_node_id A (vote_new A t n) = n) \<and>
     (\<forall>vs ls. set (voter_ids A (membership_new A [vs] ls)) = vs \<and>
        set (learner_ids A (membership_new A [vs] ls)) = (case ls of None \<Rightarrow> {} | Some l \<Rightarrow> l) - vs)"

section \<open>Errors\<close>

datatype rocks_error = FromStore StoreError | FromProst string | FromOperation OperationError

type_synonym 'a ores = "(rocks_error StorageError, 'a) outcome"

abbreviation io_error :: "ErrorSubject \<Rightarrow> ErrorVerb \<Rightarrow> rocks_error \<Rightarrow> rocks_error StorageError" where
  "io_error s v e \<equiv> StorageIO s v (Inr e)"

fun map_err :: "('e \<Rightarrow> 'f) \<Rightarrow> ('e, 'a) outcome \<Rightarrow> ('f, 'a) outcome" where
  "map_err f (SOk x) = SOk x"
| "map_err f (SErr e) = SErr (f e)"
| "map_err f SPanic = SPanic"

section \<open>Raft groups\<close>

datatype RaftGroup = SystemRaft | DataRaft

fun LOG_CF :: "RaftGroup \<Rightarrow> ColumnFamily" where
  "LOG_CF SystemRaft = SystemRaftLog"
| "LOG_CF DataRaft = DataRaftLog"

fun STATE_CF :: "RaftGroup \<Rightarrow> ColumnFamily" where
  "STATE_CF SystemRaft = SystemRaftState"
| "STATE_CF DataRaft = DataRaftState"

fun KV_CF :: "RaftGroup \<Rightarrow> ColumnFamily option" where
  "KV_CF SystemRaft = None"
| "KV_CF DataRaft = Some DataKv"

definition VOTE_KEY :: bytes where "VOTE_KEY = bstr ''vote''"
definition APPLIED_KEY :: bytes where "APPLIED_KEY = bstr ''applied''"
definition MEMBERSHIP_KEY :: bytes where "MEMBERSHIP_KEY = bstr ''membership''"
definition LAST_LOG_ID_KEY :: bytes where "LAST_LOG_ID_KEY = bstr ''__last_log_id''"
definition LAST_PURGED_LOG_ID_KEY :: bytes where "LAST_PURGED_LOG_ID_KEY = bstr ''__last_purged_log_id''"

section \<open>Messages\<close>

record VoteMessage =
  vm_term :: u64
  vm_node_id :: u64
  vm_voted_for :: u64

record LogIdMessage =
  lm_term :: u64
  lm_node_id :: u64
  lm_index :: u64

record MembershipMessage =
  mm_log_id :: "LogIdMessage option"
  mm_voters :: "u64 list list"
  mm_learners :: "u64 list"

definition from_vote :: "('vote, 'm) openraft_api \<Rightarrow> 'vote \<Rightarrow> VoteMessage" where
  "from_vote A v =
     \<lparr>vm_term = vote_term A v, vm_node_id = vote_node_id A v,
      vm_voted_for = (case vote_voted_for A v of None \<Rightarrow> 0 | Some n \<Rightarrow> n)\<rparr>"

definition to_vote :: "('vote, 'm) openraft_api \<Rightarrow> VoteMessage \<Rightarrow> 'vote" where
  "to_vote A m = vote_new A (vm_term m) (vm_node_id m)"

definition from_log_id :: "LogId \<Rightarrow> LogIdMessage" where
  "from_log_id l = \<lparr>lm_term = id_term l, lm_node_id = node_id l, lm_index = index l\<rparr>"

definition to_log_id :: "LogIdMessage \<Rightarrow> LogId" where
  "to_log_id m = log_id_new (lm_term m) (lm_node_id m) (lm_index m)"

definition from_membership :: "('vote, 'm) openraft_api \<Rightarrow> 'm StoredMembership \<Rightarrow> MembershipMessage" where
  "from_membership A sm =
     \<lparr>mm_log_id = map_option from_log_id (membership_log_id sm),
      mm_voters = [voter_ids A (membership sm)],
      mm_learners = learner_ids A (membership sm)\<rparr>"

definition from_stored_membership :: "('vote, 'm) openraft_api \<Rightarrow> 'm StoredMembership \<Rightarrow> MembershipMessage" where
  "from_stored_membership A sm =
     \<lparr>mm_log_id = map_option from_log_id (membership_log_id sm),
      mm_voters = [voter_ids A (membership sm)],
      mm_learners = learner_ids A (membership sm)\<rparr>"

definition to_membership :: "('vote, 'm) openraft_api \<Rightarrow> MembershipMessage \<Rightarrow> 'm StoredMembership" where
  "to_membership A m =
     (let voter_set = fold (\<lambda>vs acc. fold insert vs acc) (mm_voters m) {};
          learner_set = set (mm_learners m) in
      \<lparr>membership_log_id = map_option to_log_id (mm_log_id m),
       membership = membership_new A [voter_set] (if mm_learners m = [] then None else Some learner_set)\<rparr>)"

text \<open>The coding of the three messages.\<close>

record messages =
  vote_coding :: "VoteMessage prost"
  log_id_coding :: "LogIdMessage prost"
  membership_coding :: "MembershipMessage prost"

definition messages_ok :: "messages \<Rightarrow> bool" where
  "messages_ok M \<longleftrightarrow> prost_ok (vote_coding M) \<and> prost_ok (log_id_coding M) \<and> prost_ok (membership_coding M)"

definition MAX_MESSAGE_SIZE :: usize where
  "MAX_MESSAGE_SIZE = 16 * 1024 * 1024"

definition decode_with_size_limit :: "'a prost \<Rightarrow> bytes \<Rightarrow> (bytes + rocks_error) StorageError + 'a" where
  "decode_with_size_limit p bs =
     (if MAX_MESSAGE_SIZE < length bs then
        Inl (StorageIO Subject_Store Verb_Read (Inr (Inl (bstr ''Message too large: '' @ dec_string (length bs) @
          bstr '' bytes (max '' @ dec_string MAX_MESSAGE_SIZE @ bstr '')''))))
      else (case decode_msg p bs of
          Inl e \<Rightarrow> Inl (StorageIO Subject_Store Verb_Read (Inr (Inr (FromProst e))))
        | Inr m \<Rightarrow> Inr m))"

section \<open>The entry format\<close>

definition ENTRY_TYPE_BLANK :: u8 where "ENTRY_TYPE_BLANK = 0"
definition ENTRY_TYPE_NORMAL :: u8 where "ENTRY_TYPE_NORMAL = 1"
definition ENTRY_TYPE_MEMBERSHIP :: u8 where "ENTRY_TYPE_MEMBERSHIP = 2"

fun serialize_entry_payload ::
    "('vote, 'm) openraft_api \<Rightarrow> messages \<Rightarrow> 'm EntryPayload \<Rightarrow> LogId \<Rightarrow> bytes" where
  "serialize_entry_payload A M (Normal req) lid = ENTRY_TYPE_NORMAL # operation_bytes req"
| "serialize_entry_payload A M Blank lid = [ENTRY_TYPE_BLANK]"
| "serialize_entry_payload A M (Membership m) lid =
     (case encode_buf (membership_coding M)
         (from_stored_membership A \<lparr>membership_log_id = Some lid, membership = m\<rparr>) of
        Inl e \<Rightarrow> [ENTRY_TYPE_BLANK]
      | Inr bs \<Rightarrow> ENTRY_TYPE_MEMBERSHIP # bs)"

fun deserialize_entry_payload ::
    "('vote, 'm) openraft_api \<Rightarrow> messages \<Rightarrow> bytes \<Rightarrow> 'm EntryPayload ores" where
  "deserialize_entry_payload A M [] = SOk Blank"
| "deserialize_entry_payload A M (marker # payload_data) =
     (if marker = ENTRY_TYPE_BLANK then SOk Blank
      else if marker = ENTRY_TYPE_NORMAL then SOk (Normal \<lparr>operation_bytes = payload_data\<rparr>)
      else if marker = ENTRY_TYPE_MEMBERSHIP then
        (case decode_msg (membership_coding M) payload_data of
           Inl e \<Rightarrow> SErr (io_error (Subject_Log (log_id_new 0 0 0)) Verb_Read (FromProst e))
         | Inr msg \<Rightarrow> SOk (Membership (membership (to_membership A msg))))
      else SOk Blank)"

definition parse_log_key :: "bytes \<Rightarrow> u64 option" where
  "parse_log_key key =
     (if \<not> from_utf8_ok key then None
      else if take 4 key \<noteq> bstr ''log:'' then None
      else u64_from_str (drop 4 key))"

section \<open>The log storage\<close>

record ('d, 'vote) RocksDBLogStorage =
  storage :: "'d Storage"
  cached_vote :: "'vote option"

definition log_storage_new :: "'d Storage \<Rightarrow> ('d, 'vote) RocksDBLogStorage" where
  "log_storage_new s = \<lparr>storage = s, cached_vote = None\<rparr>"

definition save_log_id_metadata ::
    "('d, 'i) rocksdb \<Rightarrow> messages \<Rightarrow> 'd Storage \<Rightarrow> ColumnFamily \<Rightarrow> LogId \<Rightarrow> unit sres \<times> 'd Storage" where
  "save_log_id_metadata R M s cf lid =
     put R s cf LAST_LOG_ID_KEY (encode_to_vec (log_id_coding M) (from_log_id lid))"

definition save_last_purged_log_id ::
    "('d, 'i) rocksdb \<Rightarrow> messages \<Rightarrow> 'd Storage \<Rightarrow> ColumnFamily \<Rightarrow> LogId \<Rightarrow> unit sres \<times> 'd Storage" where
  "save_last_purged_log_id R M s cf lid =
     put R s cf LAST_PURGED_LOG_ID_KEY (encode_to_vec (log_id_coding M) (from_log_id lid))"

definition find_last_log_entry :: "('d, 'i) rocksdb \<Rightarrow> 'd Storage \<Rightarrow> ColumnFamily \<Rightarrow> LogId option sres" where
  "find_last_log_entry R s cf =
     (case storage_iterator R s cf End of
        SErr e \<Rightarrow> SErr e
      | SPanic \<Rightarrow> SPanic
      | SOk it \<Rightarrow>
          SOk (if \<not> iter_valid R (inner it) then None
               else (case iter_key R (inner it) of
                   None \<Rightarrow> None
                 | Some key \<Rightarrow> map_option (\<lambda>i. log_id_new 0 0 i) (parse_log_key key))))"

definition decode_log_id :: "messages \<Rightarrow> bytes \<Rightarrow> LogId option sres" where
  "decode_log_id M bs =
     (case decode_msg (log_id_coding M) bs of
        Inl e \<Rightarrow> SErr (ProtobufDecode e)
      | Inr msg \<Rightarrow> SOk (Some (to_log_id msg)))"

definition get_last_log_id ::
    "('d, 'i) rocksdb \<Rightarrow> messages \<Rightarrow> 'd Storage \<Rightarrow> ColumnFamily \<Rightarrow> LogId option sres" where
  "get_last_log_id R M s cf =
     (case fst (get R s cf LAST_LOG_ID_KEY) of
        SOk (Some bs) \<Rightarrow> decode_log_id M bs
      | SOk None \<Rightarrow> find_last_log_entry R s cf
      | SErr e \<Rightarrow> SErr e
      | SPanic \<Rightarrow> SPanic)"

definition get_last_purged_log_id ::
    "('d, 'i) rocksdb \<Rightarrow> messages \<Rightarrow> 'd Storage \<Rightarrow> ColumnFamily \<Rightarrow> LogId option sres" where
  "get_last_purged_log_id R M s cf =
     (case fst (get R s cf LAST_PURGED_LOG_ID_KEY) of
        SOk (Some bs) \<Rightarrow> decode_log_id M bs
      | SOk None \<Rightarrow> SOk None
      | SErr e \<Rightarrow> SErr e
      | SPanic \<Rightarrow> SPanic)"

text \<open>\<open>.ok().flatten()\<close>.\<close>

fun ok_flatten :: "('e, 'a option) outcome \<Rightarrow> 'a option" where
  "ok_flatten (SOk x) = x"
| "ok_flatten _ = None"

subsection \<open>Reading entries\<close>

fun range_start :: "bound \<Rightarrow> u64 ores" where
  "range_start (Included n) = SOk n"
| "range_start (Excluded n) = (if n = - 1 then SPanic else SOk (n + 1))"
| "range_start Unbounded = SOk 1"

fun range_end :: "bound \<Rightarrow> u64 ores" where
  "range_end (Included n) = SOk n"
| "range_end (Excluded n) = (if n = 0 then SPanic else SOk (n - 1))"
| "range_end Unbounded = SOk (- 1)"

definition entry_log_id :: "LogId option \<Rightarrow> u64 \<Rightarrow> LogId" where
  "entry_log_id last_log_id i =
     (case last_log_id of
        Some lst \<Rightarrow> if i \<le> index lst then log_id_new (id_term lst) (node_id lst) i else log_id_new 0 0 i
      | None \<Rightarrow> log_id_new 0 0 i)"

fun read_entries ::
    "('d, 'i) rocksdb \<Rightarrow> ('vote, 'm) openraft_api \<Rightarrow> messages \<Rightarrow> RaftGroup \<Rightarrow> 'd Storage \<Rightarrow> LogId option \<Rightarrow>
     u64 list \<Rightarrow> 'm Entry list \<Rightarrow> 'm Entry list ores" where
  "read_entries R A M g s lst [] entries = SOk entries"
| "read_entries R A M g s lst (i # is) entries =
     (case fst (get R s (LOG_CF g) (format_log_key i)) of
        SOk (Some val) \<Rightarrow>
          (case deserialize_entry_payload A M val of
             SOk p \<Rightarrow> read_entries R A M g s lst is (entries @ [\<lparr>log_id = entry_log_id lst i, payload = p\<rparr>])
           | SErr e \<Rightarrow> SErr e
           | SPanic \<Rightarrow> SPanic)
      | SOk None \<Rightarrow> read_entries R A M g s lst is entries
      | SErr e \<Rightarrow> SErr (io_error Subject_Store Verb_Read (FromStore e))
      | SPanic \<Rightarrow> SPanic)"

definition rocks_try_get_log_entries ::
    "('d, 'i) rocksdb \<Rightarrow> ('vote, 'm) openraft_api \<Rightarrow> messages \<Rightarrow> RaftGroup \<Rightarrow> ('d, 'vote) RocksDBLogStorage \<Rightarrow>
     bound \<Rightarrow> bound \<Rightarrow> 'm Entry list ores" where
  "rocks_try_get_log_entries R A M g ls lo hi =
     fst (sbind (range_start lo, ()) (\<lambda>start _.
          sbind (range_end hi, ()) (\<lambda>stop _.
            (let lst = ok_flatten (get_last_log_id R M (storage ls) (LOG_CF g)) in
             read_entries R A M g (storage ls) lst (map of_nat [unat start..<unat stop + 1]) [], ()))))"

subsection \<open>The log reader\<close>

definition reader_get_last_log_id ::
    "('d, 'i) rocksdb \<Rightarrow> messages \<Rightarrow> 'd Storage \<Rightarrow> ColumnFamily \<Rightarrow> LogId option sres" where
  "reader_get_last_log_id R M s cf =
     (case fst (get R s cf LAST_LOG_ID_KEY) of
        SOk (Some bs) \<Rightarrow> decode_log_id M bs
      | SOk None \<Rightarrow> SOk None
      | SErr e \<Rightarrow> SErr e
      | SPanic \<Rightarrow> SPanic)"

partial_function (option) reader_loop ::
    "('d, 'i) rocksdb \<Rightarrow> ('vote, 'm) openraft_api \<Rightarrow> messages \<Rightarrow> LogId option \<Rightarrow> u64 \<Rightarrow> 'i StorageIterator \<Rightarrow>
     'm Entry list \<Rightarrow> 'm Entry list ores option" where
  "reader_loop R A M lst stop it entries =
     (case step_forward R it of
        (SErr e, _) \<Rightarrow> Some (SErr (io_error Subject_Store Verb_Read (FromStore e)))
      | (SPanic, _) \<Rightarrow> Some SPanic
      | (SOk None, _) \<Rightarrow> Some (SOk entries)
      | (SOk (Some (key, val)), it') \<Rightarrow>
          (case parse_log_key key of
             None \<Rightarrow> reader_loop R A M lst stop it' entries
           | Some i \<Rightarrow>
               if stop < i then Some (SOk entries)
               else (case deserialize_entry_payload A M val of
                   SOk p \<Rightarrow>
                     reader_loop R A M lst stop it' (entries @ [\<lparr>log_id = entry_log_id lst i, payload = p\<rparr>])
                 | SErr e \<Rightarrow> Some (SErr e)
                 | SPanic \<Rightarrow> Some SPanic)))"

definition rocks_reader_entries ::
    "('d, 'i) rocksdb \<Rightarrow> ('vote, 'm) openraft_api \<Rightarrow> messages \<Rightarrow> RaftGroup \<Rightarrow> 'd Storage \<Rightarrow>
     bound \<Rightarrow> bound \<Rightarrow> 'm Entry list ores option" where
  "rocks_reader_entries R A M g s lo hi =
     (case range_start lo of
        SErr e \<Rightarrow> Some (SErr e)
      | SPanic \<Rightarrow> Some SPanic
      | SOk start \<Rightarrow>
          (case range_end hi of
             SErr e \<Rightarrow> Some (SErr e)
           | SPanic \<Rightarrow> Some SPanic
           | SOk stop \<Rightarrow>
               let lst = ok_flatten (reader_get_last_log_id R M s (LOG_CF g)) in
               (case storage_iterator R s (LOG_CF g) (From (format_log_key start) Forward) of
                  SErr e \<Rightarrow> Some (SErr (io_error Subject_Store Verb_Read (FromStore e)))
                | SPanic \<Rightarrow> Some SPanic
                | SOk it \<Rightarrow> reader_loop R A M lst stop it [])))"

subsection \<open>State and vote\<close>

text \<open>The last purged log id and the last log id.\<close>

definition rocks_get_log_state ::
    "('d, 'i) rocksdb \<Rightarrow> messages \<Rightarrow> RaftGroup \<Rightarrow> ('d, 'vote) RocksDBLogStorage \<Rightarrow> (LogId option \<times> LogId option) ores" where
  "rocks_get_log_state R M g ls =
     fst (sbind (map_err (\<lambda>e. io_error Subject_Store Verb_Read (FromStore e))
                   (get_last_log_id R M (storage ls) (LOG_CF g)), ()) (\<lambda>lst _.
          sbind (map_err (\<lambda>e. io_error Subject_Store Verb_Read (FromStore e))
                   (get_last_purged_log_id R M (storage ls) (LOG_CF g)), ()) (\<lambda>purged _.
            (SOk (purged, lst), ()))))"

definition rocks_save_vote ::
    "('d, 'i) rocksdb \<Rightarrow> ('vote, 'm) openraft_api \<Rightarrow> messages \<Rightarrow> RaftGroup \<Rightarrow> ('d, 'vote) RocksDBLogStorage \<Rightarrow> 'vote \<Rightarrow>
     unit ores \<times> ('d, 'vote) RocksDBLogStorage" where
  "rocks_save_vote R A M g ls v =
     (case put R (storage ls) (STATE_CF g) VOTE_KEY (encode_to_vec (vote_coding M) (from_vote A v)) of
        (SOk _, s) \<Rightarrow> (SOk (), ls\<lparr>storage := s, cached_vote := Some v\<rparr>)
      | (SErr e, s) \<Rightarrow> (SErr (io_error Subject_Vote Verb_Write (FromStore e)), ls\<lparr>storage := s\<rparr>)
      | (SPanic, s) \<Rightarrow> (SPanic, ls\<lparr>storage := s\<rparr>))"

definition rocks_read_vote ::
    "('d, 'i) rocksdb \<Rightarrow> ('vote, 'm) openraft_api \<Rightarrow> messages \<Rightarrow> RaftGroup \<Rightarrow> ('d, 'vote) RocksDBLogStorage \<Rightarrow>
     'vote option ores \<times> ('d, 'vote) RocksDBLogStorage" where
  "rocks_read_vote R A M g ls =
     (case cached_vote ls of
        Some v \<Rightarrow> (SOk (Some v), ls)
      | None \<Rightarrow>
          (case fst (get R (storage ls) (STATE_CF g) VOTE_KEY) of
             SOk (Some bs) \<Rightarrow>
               (case decode_msg (vote_coding M) bs of
                  Inl e \<Rightarrow> (SErr (io_error Subject_Vote Verb_Read (FromProst e)), ls)
                | Inr msg \<Rightarrow> (SOk (Some (to_vote A msg)), ls\<lparr>cached_vote := Some (to_vote A msg)\<rparr>))
           | SOk None \<Rightarrow> (SOk None, ls)
           | SErr e \<Rightarrow> (SErr (io_error Subject_Vote Verb_Read (FromStore e)), ls)
           | SPanic \<Rightarrow> (SPanic, ls)))"

subsection \<open>Writing\<close>

definition append_batch ::
    "('vote, 'm) openraft_api \<Rightarrow> messages \<Rightarrow> RaftGroup \<Rightarrow> 'm Entry list \<Rightarrow> WriteBatch" where
  "append_batch A M g entries =
     fold (\<lambda>e b. batch_put b (LOG_CF g) (format_log_key (index (log_id e)))
       (serialize_entry_payload A M (payload e) (log_id e))) entries batch_new"

text \<open>The second component is what the callback is told, \<open>None\<close> when it is not called.\<close>

definition rocks_append ::
    "('d, 'i) rocksdb \<Rightarrow> ('vote, 'm) openraft_api \<Rightarrow> messages \<Rightarrow> RaftGroup \<Rightarrow> ('d, 'vote) RocksDBLogStorage \<Rightarrow>
     'm Entry list \<Rightarrow> unit ores \<times> (StoreError + unit) option \<times> ('d, 'vote) RocksDBLogStorage" where
  "rocks_append R A M g ls entries =
     (case batch_write R (storage ls) (append_batch A M g entries) of
        (SErr e, s) \<Rightarrow>
          (SErr (io_error Subject_Logs Verb_Write (FromStore e)), Some (Inl e), ls\<lparr>storage := s\<rparr>)
      | (SPanic, s) \<Rightarrow> (SPanic, None, ls\<lparr>storage := s\<rparr>)
      | (SOk _, s) \<Rightarrow>
          if entries = [] then (SOk (), Some (Inr ()), ls\<lparr>storage := s\<rparr>)
          else let lid = log_id (last entries) in
            (case save_log_id_metadata R M s (LOG_CF g) lid of
               (SErr e, s) \<Rightarrow>
                 (SErr (io_error (Subject_Log lid) Verb_Write (FromStore e)), Some (Inl e), ls\<lparr>storage := s\<rparr>)
             | (SPanic, s) \<Rightarrow> (SPanic, None, ls\<lparr>storage := s\<rparr>)
             | (SOk _, s) \<Rightarrow>
                 (SOk (), Some (Inr ()),
                  ls\<lparr>storage := snd (update_cached_last_log_index s (LOG_CF g) (index lid))\<rparr>)))"

definition rocks_truncate ::
    "('d, 'i) rocksdb \<Rightarrow> RaftGroup \<Rightarrow> ('d, 'vote) RocksDBLogStorage \<Rightarrow> LogId \<Rightarrow>
     unit ores \<times> ('d, 'vote) RocksDBLogStorage" where
  "rocks_truncate R g ls lid =
     (case truncate_log_before R (storage ls) (LOG_CF g) (index lid) of
        (r, s) \<Rightarrow> (map_err (\<lambda>e. io_error Subject_Store Verb_Write (FromStore e)) r, ls\<lparr>storage := s\<rparr>))"

definition rocks_purge ::
    "('d, 'i) rocksdb \<Rightarrow> messages \<Rightarrow> RaftGroup \<Rightarrow> ('d, 'vote) RocksDBLogStorage \<Rightarrow> LogId \<Rightarrow>
     unit ores \<times> ('d, 'vote) RocksDBLogStorage" where
  "rocks_purge R M g ls lid =
     (if index lid = - 1 then (SPanic, ls)
      else (case truncate_log_before R (storage ls) (LOG_CF g) (index lid + 1) of
          (SErr e, s) \<Rightarrow> (SErr (io_error Subject_Store Verb_Write (FromStore e)), ls\<lparr>storage := s\<rparr>)
        | (SPanic, s) \<Rightarrow> (SPanic, ls\<lparr>storage := s\<rparr>)
        | (SOk _, s) \<Rightarrow>
            (case save_last_purged_log_id R M s (LOG_CF g) lid of
               (r, s) \<Rightarrow>
                 (map_err (\<lambda>e. io_error Subject_Store Verb_Write (FromStore e)) r, ls\<lparr>storage := s\<rparr>))))"

definition rocks_get_log_reader :: "('d, 'vote) RocksDBLogStorage \<Rightarrow> 'd Storage" where
  "rocks_get_log_reader ls = storage ls"

end
