(* ===== verification/Openraft_Instance.thy ===== *)
theory Openraft_Instance
  imports Rocks_Openraft
begin

text \<open>
  A message coding and a representation of votes and memberships that satisfy the hypotheses
  \<open>messages_ok\<close> and \<open>api_ok\<close>, for the concrete inputs of the RocksDB log and state machine theorems.
\<close>

section \<open>A coding of the messages\<close>

text \<open>Numbers in decimal, each closed by a comma, as an instance of the hypotheses on \<open>prost\<close>.\<close>

definition write_nats :: "nat list \<Rightarrow> bytes" where
  "write_nats ns = concat (map (\<lambda>n. dec_string n @ [44]) ns)"

function read_nats :: "bytes \<Rightarrow> nat list" where
  "read_nats bs =
     (if bs = [] then []
      else the (parse_digits (takeWhile (\<lambda>c. c \<noteq> 44) bs)) # read_nats (drop 1 (dropWhile (\<lambda>c. c \<noteq> 44) bs)))"
  by auto
termination
proof (relation "measure length")
  fix bs :: bytes
  assume "bs \<noteq> []"
  then show "(drop 1 (dropWhile (\<lambda>c. c \<noteq> 44) bs), bs) \<in> measure length"
    using length_dropWhile_le [of "\<lambda>c. c \<noteq> 44" bs] by (cases bs) auto
qed simp

declare read_nats.simps [simp del]

lemma read_nats_write: "read_nats (write_nats ns) = ns"
proof (induction ns)
  case Nil
  then show ?case by (simp add: write_nats_def read_nats.simps)
next
  case (Cons n ns)
  have no: "\<forall>c \<in> set (dec_string n). c \<noteq> 44"
    using dec_string_digits [of 44 n] by (auto simp: is_digit_def)
  have w: "write_nats (n # ns) = dec_string n @ 44 # write_nats ns" by (simp add: write_nats_def)
  show ?case
    using no Cons by (subst read_nats.simps) (simp add: w)
qed

definition log_id_nats :: "LogIdMessage \<Rightarrow> nat list" where
  "log_id_nats m = [unat (lm_term m), unat (lm_node_id m), unat (lm_index m)]"

fun nats_log_id :: "nat list \<Rightarrow> LogIdMessage" where
  "nats_log_id (t # n # i # _) = \<lparr>lm_term = of_nat t, lm_node_id = of_nat n, lm_index = of_nat i\<rparr>"
| "nats_log_id _ = \<lparr>lm_term = 0, lm_node_id = 0, lm_index = 0\<rparr>"

definition prost_of :: "('a \<Rightarrow> nat list) \<Rightarrow> (nat list \<Rightarrow> 'a) \<Rightarrow> 'a prost" where
  "prost_of f g = \<lparr>encode_to_vec = (\<lambda>x. write_nats (f x)), encode_buf = (\<lambda>x. Inr (write_nats (f x))),
     decode_msg = (\<lambda>bs. Inr (g (read_nats bs)))\<rparr>"

lemma prost_of_ok: "(\<And>x. g (f x) = x) \<Longrightarrow> prost_ok (prost_of f g)"
  by (simp add: prost_ok_def prost_of_def read_nats_write)

fun chunk_nats :: "u64 list list \<Rightarrow> nat list" where
  "chunk_nats [] = []"
| "chunk_nats (vs # vss) = length vs # map unat vs @ chunk_nats vss"

function nats_chunk :: "nat list \<Rightarrow> u64 list list" where
  "nats_chunk [] = []"
| "nats_chunk (n # ns) = map of_nat (take n ns) # nats_chunk (drop n ns)"
  by pat_completeness auto
termination by (relation "measure length") auto

lemma nats_chunk_nats: "nats_chunk (chunk_nats vss) = vss"
  by (induction vss) (simp_all add: o_def)

definition membership_nats :: "MembershipMessage \<Rightarrow> nat list" where
  "membership_nats m =
     (case mm_log_id m of None \<Rightarrow> [0] | Some l \<Rightarrow> 1 # log_id_nats l) @ chunk_nats (mm_learners m # mm_voters m)"

fun nats_membership :: "nat list \<Rightarrow> MembershipMessage" where
  "nats_membership (0 # ns) =
     \<lparr>mm_log_id = None, mm_voters = drop 1 (nats_chunk ns), mm_learners = concat (take 1 (nats_chunk ns))\<rparr>"
| "nats_membership (Suc _ # ns) =
     \<lparr>mm_log_id = Some (nats_log_id ns), mm_voters = drop 1 (nats_chunk (drop 3 ns)),
      mm_learners = concat (take 1 (nats_chunk (drop 3 ns)))\<rparr>"
| "nats_membership [] = \<lparr>mm_log_id = None, mm_voters = [], mm_learners = []\<rparr>"

lemma nats_membership_nats: "nats_membership (membership_nats m) = m"
proof (cases "mm_log_id m")
  case None
  then show ?thesis by (simp add: membership_nats_def nats_chunk_nats del: chunk_nats.simps)
next
  case (Some l)
  then show ?thesis by (simp add: membership_nats_def nats_chunk_nats log_id_nats_def del: chunk_nats.simps)
qed

definition comma_messages :: messages where
  "comma_messages =
     \<lparr>vote_coding = prost_of (\<lambda>m. [unat (vm_term m), unat (vm_node_id m), unat (vm_voted_for m)])
        (\<lambda>ns. \<lparr>vm_term = of_nat (ns ! 0), vm_node_id = of_nat (ns ! 1), vm_voted_for = of_nat (ns ! 2)\<rparr>),
      log_id_coding = prost_of log_id_nats nats_log_id,
      membership_coding = prost_of membership_nats nats_membership\<rparr>"

lemma comma_messages_ok: "messages_ok comma_messages"
  by (simp add: messages_ok_def comma_messages_def prost_of_ok nats_membership_nats log_id_nats_def)

text \<open>Votes as term and node, memberships as voters and learners.\<close>

definition pair_api :: "(u64 \<times> u64, u64 list \<times> u64 list) openraft_api" where
  "pair_api =
     \<lparr>vote_term = fst, vote_node_id = snd, vote_voted_for = (\<lambda>v. Some (snd v)), vote_new = Pair,
      voter_ids = fst, learner_ids = snd,
      membership_new = (\<lambda>vss ls. (sorted_list_of_set (\<Union> (set vss)),
        sorted_list_of_set ((case ls of None \<Rightarrow> {} | Some l \<Rightarrow> l) - \<Union> (set vss)))),
      membership_default = ([], [])\<rparr>"

lemma pair_api_ok: "api_ok pair_api"
  by (auto simp: api_ok_def pair_api_def)

end
