(* ===== verification/Rocks_Openraft_Log.thy ===== *)
theory Rocks_Openraft_Log
  imports Openraft_Instance
begin

text \<open>
  What openraft's log storage on RocksDB does to the entries, the vote and its metadata. Reading by
  index and reading through an iterator are both compared with \<open>decode_all\<close>, which decodes a
  list of numbered values. Log keys and metadata keys share a column family: the metadata sorts
  below the entries.
\<close>

section \<open>Messages\<close>

lemma log_id_message_round_trip [simp]: "to_log_id (from_log_id l) = l"
  by (simp add: to_log_id_def from_log_id_def)

lemma from_stored_membership_eq: "from_stored_membership = from_membership"
  by (simp add: fun_eq_iff from_stored_membership_def from_membership_def)

lemma membership_message_log_id:
  "membership_log_id (to_membership A (from_membership A sm)) = membership_log_id sm"
  by (cases "membership_log_id sm") (simp_all add: to_membership_def from_membership_def Let_def)

lemma membership_message_voters:
  "api_ok A \<Longrightarrow> set (voter_ids A (membership (to_membership A (from_membership A sm)))) =
     set (voter_ids A (membership sm))"
  by (simp add: to_membership_def from_membership_def Let_def api_ok_def flip: union_set_fold)

lemma membership_message_learners:
  "api_ok A \<Longrightarrow> set (voter_ids A (membership sm)) \<inter> set (learner_ids A (membership sm)) = {} \<Longrightarrow>
     set (learner_ids A (membership (to_membership A (from_membership A sm)))) =
     set (learner_ids A (membership sm))"
  by (auto simp: to_membership_def from_membership_def Let_def api_ok_def simp flip: union_set_fold)

section \<open>Entries\<close>

fun stored_payload :: "('vote, 'm) openraft_api \<Rightarrow> LogId \<Rightarrow> 'm EntryPayload \<Rightarrow> 'm EntryPayload" where
  "stored_payload A lid (Membership m) =
     Membership (membership (to_membership A (from_membership A \<lparr>membership_log_id = Some lid, membership = m\<rparr>)))"
| "stored_payload A lid p = p"

lemma entry_payload_round_trip:
  "messages_ok M \<Longrightarrow>
     deserialize_entry_payload A M (serialize_entry_payload A M p lid) = SOk (stored_payload A lid p)"
  by (cases p) (simp_all add: messages_ok_def prost_ok_def from_stored_membership_eq
      ENTRY_TYPE_BLANK_def ENTRY_TYPE_NORMAL_def ENTRY_TYPE_MEMBERSHIP_def)

lemma parse_log_key_format [simp]: "parse_log_key (format_log_key i) = Some i"
  by (simp add: parse_log_key_def)

lemma bstr_Cons: "bstr (c # cs) = of_char c # bstr cs"
  by (simp add: bstr_def)

lemma metadata_not_log_keys [simp]:
  "parse_log_key LAST_LOG_ID_KEY = None" "parse_log_key LAST_PURGED_LOG_ID_KEY = None"
  "take 4 LAST_PURGED_LOG_ID_KEY \<noteq> bstr ''log:''"
  by (simp_all add: parse_log_key_def LAST_LOG_ID_KEY_def LAST_PURGED_LOG_ID_KEY_def bstr_def)

lemma metadata_keys_distinct [simp]:
  "format_log_key i \<noteq> LAST_LOG_ID_KEY" "format_log_key i \<noteq> LAST_PURGED_LOG_ID_KEY"
  "LAST_LOG_ID_KEY \<noteq> LAST_PURGED_LOG_ID_KEY"
proof -
  show "format_log_key i \<noteq> LAST_LOG_ID_KEY"
    using parse_log_key_format [of i] metadata_not_log_keys(1) by (metis option.distinct(1))
  show "format_log_key i \<noteq> LAST_PURGED_LOG_ID_KEY"
    using parse_log_key_format [of i] metadata_not_log_keys(2) by (metis option.distinct(1))
  show "LAST_LOG_ID_KEY \<noteq> LAST_PURGED_LOG_ID_KEY"
    by (simp add: LAST_LOG_ID_KEY_def LAST_PURGED_LOG_ID_KEY_def bstr_def)
qed

lemmas metadata_keys_distinct' [simp] = metadata_keys_distinct [symmetric]

lemma metadata_key_order: "blt LAST_LOG_ID_KEY LAST_PURGED_LOG_ID_KEY" "from_utf8_ok LAST_PURGED_LOG_ID_KEY"
proof -
  show "blt LAST_LOG_ID_KEY LAST_PURGED_LOG_ID_KEY"
    by (simp add: LAST_LOG_ID_KEY_def LAST_PURGED_LOG_ID_KEY_def bstr_def)
  show "from_utf8_ok LAST_PURGED_LOG_ID_KEY"
    by (rule from_utf8_ok_ascii) (auto simp: LAST_PURGED_LOG_ID_KEY_def bstr_def)
qed

section \<open>Reading\<close>

text \<open>Decoding numbered values, in order, up to the first that does not decode.\<close>

fun decode_all ::
    "('vote, 'm) openraft_api \<Rightarrow> messages \<Rightarrow> LogId option \<Rightarrow> (u64 \<times> bytes) list \<Rightarrow> 'm Entry list \<Rightarrow> 'm Entry list ores" where
  "decode_all A M lst [] acc = SOk acc"
| "decode_all A M lst ((i, v) # ivs) acc =
     (case deserialize_entry_payload A M v of
        SOk p \<Rightarrow> decode_all A M lst ivs (acc @ [\<lparr>log_id = entry_log_id lst i, payload = p\<rparr>])
      | SErr e \<Rightarrow> SErr e
      | SPanic \<Rightarrow> SPanic)"

text \<open>The numbered values of a column family at given indices.\<close>

definition values_at :: "(bytes \<rightharpoonup> bytes) \<Rightarrow> u64 list \<Rightarrow> (u64 \<times> bytes) list" where
  "values_at m is = List.map_filter (\<lambda>i. map_option (Pair i) (m (format_log_key i))) is"

lemma values_at_simps [simp]:
  "values_at m [] = []"
  "values_at m (i # is) = (case m (format_log_key i) of None \<Rightarrow> [] | Some v \<Rightarrow> [(i, v)]) @ values_at m is"
  by (simp_all add: values_at_def map_filter_def split: option.split)

lemma read_entries_spec:
  assumes "rocks_ok R store cursor" "handles_ok R (db s)"
  shows "read_entries R A M g s lst is acc =
    decode_all A M lst (values_at (store (db s) (as_str (LOG_CF g))) is) acc"
proof (induction "is" arbitrary: acc)
  case (Cons i "is")
  then show ?case
    using get_spec [OF assms, of "LOG_CF g" "format_log_key i"]
    by (cases "store (db s) (as_str (LOG_CF g)) (format_log_key i)") (simp_all split: outcome.split)
qed simp

lemma decode_all_Some:
  assumes "\<And>i v. (i, v) \<in> set ivs \<Longrightarrow> deserialize_entry_payload A M v = SOk (f i)"
  shows "decode_all A M lst ivs acc =
    SOk (acc @ map (\<lambda>(i, v). \<lparr>log_id = entry_log_id lst i, payload = f i\<rparr>) ivs)"
  using assms
proof (induction ivs arbitrary: acc)
  case (Cons iv ivs)
  obtain i v where iv: "iv = (i, v)" by force
  then have "deserialize_entry_payload A M v = SOk (f i)" using Cons.prems by simp
  moreover have "decode_all A M lst ivs acc' =
      SOk (acc' @ map (\<lambda>(i, v). \<lparr>log_id = entry_log_id lst i, payload = f i\<rparr>) ivs)" for acc'
    using Cons by simp
  ultimately show ?case by (simp add: iv)
qed simp

section \<open>Appending\<close>

abbreviation entry_key :: "'m Entry \<Rightarrow> bytes" where
  "entry_key e \<equiv> format_log_key (index (log_id e))"

abbreviation entry_bytes :: "('vote, 'm) openraft_api \<Rightarrow> messages \<Rightarrow> 'm Entry \<Rightarrow> bytes" where
  "entry_bytes A M e \<equiv> serialize_entry_payload A M (payload e) (log_id e)"

lemma append_batch_operations:
  "operations (append_batch A M g es) = map (\<lambda>e. Put (LOG_CF g) (entry_key e) (entry_bytes A M e)) es"
proof -
  have "operations (fold (\<lambda>e b. batch_put b (LOG_CF g) (entry_key e) (entry_bytes A M e)) es b) =
      operations b @ map (\<lambda>e. Put (LOG_CF g) (entry_key e) (entry_bytes A M e)) es" for b
    by (induction es arbitrary: b) (simp_all add: batch_put_def)
  then show ?thesis by (simp add: append_batch_def batch_new_def)
qed

lemma fold_puts:
  "fold op_effect (map (\<lambda>e. RocksPut h (k e) (v e)) es) m = m(h := m h ++ map_of (rev (map (\<lambda>e. (k e, v e)) es)))"
  by (induction es arbitrary: m) (auto simp: fun_eq_iff map_add_def split: option.split)

lemma rocks_append_spec:
  assumes "rocks_ok R store cursor" "handles_ok R (db (storage ls))" "length es \<le> MAX_BATCH_OPERATIONS" "es \<noteq> []"
  obtains d where
    "rocks_append R A M g ls es = (SOk (), Some (Inr ()), ls\<lparr>storage := (storage ls)\<lparr>db := d,
       last_log_index_cache := (last_log_index_cache (storage ls))(LOG_CF g \<mapsto> index (log_id (last es)))\<rparr>\<rparr>)"
    "handles_ok R d"
    "store d = (store (db (storage ls)))(as_str (LOG_CF g) :=
       (store (db (storage ls)) (as_str (LOG_CF g)) ++ map_of (rev (map (\<lambda>e. (entry_key e, entry_bytes A M e)) es)))
         (LAST_LOG_ID_KEY \<mapsto> encode_to_vec (log_id_coding M) (from_log_id (log_id (last es)))))"
proof -
  let ?b = "append_batch A M g es" and ?s = "storage ls"
  have len: "length (operations ?b) \<le> MAX_BATCH_OPERATIONS" using assms(3) by (simp add: append_batch_operations)
  obtain d1 where d1: "batch_write R ?s ?b = (SOk (), ?s\<lparr>db := d1\<rparr>)" "handles_ok R d1"
    "store d1 = fold op_effect (map rocks_of (operations ?b)) (store (db ?s))"
    using batch_write_spec [OF assms(1,2) len] by blast
  have h: "handles_ok R (db (?s\<lparr>db := d1\<rparr>))" using d1(2) by simp
  obtain d where d: "put R (?s\<lparr>db := d1\<rparr>) (LOG_CF g) LAST_LOG_ID_KEY
      (encode_to_vec (log_id_coding M) (from_log_id (log_id (last es)))) = (SOk (), (?s\<lparr>db := d1\<rparr>)\<lparr>db := d\<rparr>)"
    "handles_ok R d"
    "store d = op_effect (RocksPut (as_str (LOG_CF g)) LAST_LOG_ID_KEY
      (encode_to_vec (log_id_coding M) (from_log_id (log_id (last es))))) (store (db (?s\<lparr>db := d1\<rparr>)))"
    using put_spec [OF assms(1) h] by blast
  show thesis
  proof (rule that [of d])
    show "rocks_append R A M g ls es = (SOk (), Some (Inr ()), ls\<lparr>storage := ?s\<lparr>db := d,
        last_log_index_cache := (last_log_index_cache ?s)(LOG_CF g \<mapsto> index (log_id (last es)))\<rparr>\<rparr>)"
      using d1(1) d(1) assms(4)
      by (simp add: rocks_append_def save_log_id_metadata_def update_cached_last_log_index_def Let_def)
  qed (use d d1(3) in \<open>simp_all add: append_batch_operations o_def fold_puts\<close>)
qed

text \<open>Entries with consecutive indices.\<close>

definition consecutive :: "'m Entry list \<Rightarrow> bool" where
  "consecutive es \<longleftrightarrow> (\<forall>j < length es. unat (index (log_id (es ! j))) = unat (index (log_id (hd es))) + j)"

lemma consecutive_indices:
  assumes "consecutive es" "es \<noteq> []"
  shows "map of_nat [unat (index (log_id (hd es)))..<unat (index (log_id (last es))) + 1] = map (\<lambda>e. index (log_id e)) es"
    "distinct (map (\<lambda>e. index (log_id e)) es)"
    "\<And>e. e \<in> set es \<Longrightarrow> index (log_id e) \<le> index (log_id (last es))"
proof -
  let ?i = "\<lambda>e. index (log_id e)"
  have last: "unat (?i (last es)) = unat (?i (hd es)) + (length es - 1)"
    using assms by (simp add: consecutive_def last_conv_nth)
  have nth: "of_nat (unat (?i (hd es)) + j) = ?i (es ! j)" if "j < length es" for j
  proof -
    have "of_nat (unat (?i (es ! j))) = ?i (es ! j)" by simp
    then show ?thesis using assms(1) that by (metis consecutive_def)
  qed
  show "map of_nat [unat (?i (hd es))..<unat (?i (last es)) + 1] = map ?i es"
    using last assms(2) nth by (intro nth_equalityI) (auto simp del: of_nat_add)
  show "distinct (map ?i es)"
    using assms(1) by (auto simp: distinct_conv_nth consecutive_def dest: arg_cong [of _ _ unat])
  show "?i e \<le> ?i (last es)" if "e \<in> set es" for e
    using that last assms(1) by (auto simp: in_set_conv_nth consecutive_def word_le_nat_alt)
qed

lemma appended_values:
  assumes "distinct (map (\<lambda>e. index (log_id e)) es)" "\<And>i. m (format_log_key i) =
      (m' ++ map_of (rev (map (\<lambda>e. (entry_key e, f e)) es))) (format_log_key i)"
  shows "values_at m (map (\<lambda>e. index (log_id e)) es) = map (\<lambda>e. (index (log_id e), f e)) es"
proof -
  have "distinct (map fst (rev (map (\<lambda>e. (entry_key e, f e)) es)))"
    using assms(1) by (simp add: o_def distinct_map inj_on_def rev_map [symmetric])
  then have "map_of (rev (map (\<lambda>e. (entry_key e, f e)) es)) (entry_key e) = Some (f e)" if "e \<in> set es" for e
    using that by (intro map_of_is_SomeI) auto
  then have "m (entry_key e) = Some (f e)" if "e \<in> set es" for e
    using that assms(2) by (simp add: map_add_Some_iff)
  then show ?thesis by (induction es) simp_all
qed

text \<open>An entry as the log storage returns it: with the term and node of the last log id.\<close>

definition as_read :: "('vote, 'm) openraft_api \<Rightarrow> LogId \<Rightarrow> 'm Entry \<Rightarrow> 'm Entry" where
  "as_read A lid e =
     \<lparr>log_id = log_id_new (id_term lid) (node_id lid) (index (log_id e)),
      payload = stored_payload A (log_id e) (payload e)\<rparr>"

lemma decode_appended:
  assumes "messages_ok M" "\<And>e. e \<in> set es \<Longrightarrow> index (log_id e) \<le> index lid"
  shows "decode_all A M (Some lid) (map (\<lambda>e. (index (log_id e), entry_bytes A M e)) es) acc =
    SOk (acc @ map (as_read A lid) es)"
  using assms(2)
proof (induction es arbitrary: acc)
  case (Cons e es)
  have "as_read A lid e = \<lparr>log_id = entry_log_id (Some lid) (index (log_id e)),
      payload = stored_payload A (log_id e) (payload e)\<rparr>"
    using Cons.prems [of e] by (simp add: as_read_def entry_log_id_def)
  with Cons show ?case by (simp add: entry_payload_round_trip [OF assms(1)])
qed simp

lemma last_log_id_read:
  assumes "rocks_ok R store cursor" "handles_ok R (db s)" "messages_ok M"
    "store (db s) (as_str cf) LAST_LOG_ID_KEY = Some (encode_to_vec (log_id_coding M) (from_log_id lid))"
  shows "get_last_log_id R M s cf = SOk (Some lid)" "reader_get_last_log_id R M s cf = SOk (Some lid)"
  using assms by (simp_all add: get_last_log_id_def reader_get_last_log_id_def get_spec decode_log_id_def
      messages_ok_def prost_ok_def)

section \<open>Reading through an iterator\<close>

definition log_values :: "(bytes \<times> bytes) list \<Rightarrow> (u64 \<times> bytes) list" where
  "log_values ps = List.map_filter (\<lambda>(k, v). map_option (\<lambda>i. (i, v)) (parse_log_key k)) ps"

lemma log_values_simps [simp]:
  "log_values [] = []"
  "log_values ((k, v) # ps) = (case parse_log_key k of None \<Rightarrow> [] | Some i \<Rightarrow> [(i, v)]) @ log_values ps"
  by (simp_all add: log_values_def map_filter_def split: option.split)

lemma log_values_append [simp]: "log_values (ps @ qs) = log_values ps @ log_values qs"
  by (simp add: log_values_def map_filter_def)

lemma set_log_values: "(i, v) \<in> set (log_values ps) \<longleftrightarrow> (\<exists>k. (k, v) \<in> set ps \<and> parse_log_key k = Some i)"
  by (induction ps) (auto split: option.splits)

text \<open>Every key that reads as a log index is the key of that index.\<close>

definition canonical :: "(bytes \<rightharpoonup> bytes) \<Rightarrow> bool" where
  "canonical m \<longleftrightarrow> (\<forall>k i. k \<in> dom m \<longrightarrow> parse_log_key k = Some i \<longrightarrow> k = format_log_key i)"

lemma reader_loop_spec:
  assumes "rocks_ok R store cursor"
  shows "cursor (inner it) = (ps, n) \<Longrightarrow> n \<le> length ps \<Longrightarrow>
    reader_loop R A M lst stop it acc =
      Some (decode_all A M lst (takeWhile (\<lambda>(i, _). i \<le> stop) (log_values (drop n ps))) acc)"
proof (induction "length ps - n" arbitrary: n it acc)
  case 0
  then have "step_forward R it = (SOk None, it)"
    using rocks_iter_simps(3,4) [OF assms] by (simp add: step_forward_def end_or_error_def)
  with 0 show ?case by (subst reader_loop.simps) simp
next
  case (Suc d)
  then have n: "n < length ps" by simp
  obtain k v where kv: "ps ! n = (k, v)" by force
  note at = rocks_iter_at [OF assms Suc.prems(1) n]
  let ?it = "it\<lparr>inner := iter_next R (inner it)\<rparr>"
  have step: "step_forward R it = (SOk (Some (k, v)), ?it)" using at kv by (simp add: step_forward_def)
  have drop: "drop n ps = (k, v) # drop (Suc n) ps" using n kv by (metis Cons_nth_drop_Suc)
  have IH: "reader_loop R A M lst stop ?it acc' =
      Some (decode_all A M lst (takeWhile (\<lambda>(i, _). i \<le> stop) (log_values (drop (Suc n) ps))) acc')" for acc'
    using Suc.hyps(2) n at(4) by (intro Suc.hyps(1)) simp_all
  show ?case
    using step IH by (subst reader_loop.simps)
      (auto simp: drop not_le split: option.split outcome.split)
qed

lemma log_values_sorted:
  assumes "key_sorted ps" "\<And>k v i. (k, v) \<in> set ps \<Longrightarrow> parse_log_key k = Some i \<Longrightarrow> k = format_log_key i"
  shows "sorted_wrt (<) (map fst (log_values ps))"
  using assms
proof (induction ps)
  case (Cons p ps)
  obtain k v where p: "p = (k, v)" by force
  have IH: "sorted_wrt (<) (map fst (log_values ps))"
    using Cons.prems(1) p by (intro Cons.IH Cons.prems(2)) (auto simp: key_sorted_Cons)
  show ?case
  proof (cases "parse_log_key k")
    case (Some i)
    have "i < j" if mem: "(j, w) \<in> set (log_values ps)" for j w
    proof -
      obtain k' where k': "(k', w) \<in> set ps" "parse_log_key k' = Some j" 
        using mem unfolding set_log_values by blast
      then have "k' = format_log_key j" "k = format_log_key i"
        using Cons.prems(2) [OF _ k'(2), of w] Cons.prems(2) [OF _ Some, of v] k'(1) p by simp_all
      moreover have "blt k k'" using Cons.prems(1) p k'(1) by (auto simp: key_sorted_Cons)
      ultimately show ?thesis by (simp add: log_key_less)
    qed
    with IH p Some show ?thesis by auto
  qed (use IH p in simp)
qed simp

lemma takeWhile_sorted:
  "sorted_wrt (<) (map fst xs) \<Longrightarrow> takeWhile (\<lambda>(i, _). i \<le> stop) xs = filter (\<lambda>(i, _). i \<le> stop) xs"
  for xs :: "(u64 \<times> 'v) list"
proof (induction xs)
  case (Cons x xs)
  have "filter (\<lambda>(i, _). i \<le> stop) xs = []" if "stop < fst x"
    using Cons.prems that by (auto simp: filter_empty_conv dest!: bspec)
  with Cons show ?case by (cases x) auto
qed simp

lemma sorted_pairs_unique:
  fixes xs ys :: "(u64 \<times> 'v) list"
  assumes "sorted_wrt (<) (map fst xs)" "sorted_wrt (<) (map fst ys)" "set xs = set ys"
  shows "xs = ys"
proof -
  have "map fst xs = map fst ys"
    using assms by (intro strict_sorted_equal) simp_all
  moreover have "inj_on fst (set xs \<union> set ys)"
    using assms(1,3) by (simp add: strict_sorted_iff distinct_map)
  ultimately show ?thesis by (rule map_inj_on)
qed

lemma values_at_sorted:
  "sorted_wrt (<) is \<Longrightarrow> sorted_wrt (<) (map fst (values_at m is))"
  "(i, v) \<in> set (values_at m is) \<longleftrightarrow> i \<in> set is \<and> m (format_log_key i) = Some v"
proof -
  show mem: "(i, v) \<in> set (values_at m is) \<longleftrightarrow> i \<in> set is \<and> m (format_log_key i) = Some v" for i v "is"
    by (induction "is") (auto split: option.splits)
  show "sorted_wrt (<) is \<Longrightarrow> sorted_wrt (<) (map fst (values_at m is))"
    by (induction "is") (auto simp: mem split: option.splits)
qed

lemma index_range:
  fixes a b :: u64
  shows "sorted_wrt (<) (map of_nat [unat a..<unat b + 1] :: u64 list)"
    "set (map of_nat [unat a..<unat b + 1] :: u64 list) = {a..b}"
proof -
  have u: "unat (of_nat n :: u64) = n" if "n \<le> unat b" for n
    using that unsigned_less [of b, where 'a = nat] by (intro unat_u64) simp
  show "sorted_wrt (<) (map of_nat [unat a..<unat b + 1] :: u64 list)"
    unfolding sorted_wrt_map by (rule sorted_wrt_mono_rel [OF _ sorted_wrt_upt]) (auto simp: u word_less_nat_alt)
  show "set (map of_nat [unat a..<unat b + 1] :: u64 list) = {a..b}"
    using u by (force simp: word_le_nat_alt image_iff)
qed

text \<open>The log entries an iterator has ahead of it that was opened at the key of an index.\<close>

lemma log_values_from:
  fixes start :: u64
  assumes "key_sorted ps" "canonical (map_of ps)"
  defines "rest \<equiv> filter (\<lambda>p. \<not> blt (fst p) (format_log_key start)) ps"
  shows "sorted_wrt (<) (map fst (log_values rest))"
    and "(i, v) \<in> set (log_values rest) \<longleftrightarrow> start \<le> i \<and> map_of ps (format_log_key i) = Some v"
proof -
  have can: "k = format_log_key j" if "(k, w) \<in> set ps" "parse_log_key k = Some j" for k w j
    using assms(2) that key_sorted_distinct [OF assms(1)] by (auto simp: canonical_def dom_def)
  have "key_sorted rest"
    using assms(1) by (simp add: rest_def key_sorted_def sorted_wrt_map sorted_wrt_filter)
  then show "sorted_wrt (<) (map fst (log_values rest))"
    using can by (intro log_values_sorted) (auto simp: rest_def)
  show "(i, v) \<in> set (log_values rest) \<longleftrightarrow> start \<le> i \<and> map_of ps (format_log_key i) = Some v"
  proof
    assume "(i, v) \<in> set (log_values rest)"
    then obtain k where k: "(k, v) \<in> set ps" "\<not> blt k (format_log_key start)" "parse_log_key k = Some i"
      by (auto simp: set_log_values rest_def)
    then show "start \<le> i \<and> map_of ps (format_log_key i) = Some v"
      using can [OF k(1,3)] key_sorted_distinct [OF assms(1)] by (simp add: log_key_less)
  next
    assume "start \<le> i \<and> map_of ps (format_log_key i) = Some v"
    then have "(format_log_key i, v) \<in> set rest" by (auto simp: rest_def log_key_less dest: map_of_SomeD)
    then show "(i, v) \<in> set (log_values rest)"
      unfolding set_log_values using parse_log_key_format by blast
  qed
qed

lemma values_between:
  assumes "key_sorted ps" "canonical (map_of ps)"
  shows "takeWhile (\<lambda>(i, _). i \<le> stop)
      (log_values (drop (length (takeWhile (\<lambda>p. blt (fst p) (format_log_key start)) ps)) ps)) =
    values_at (map_of ps) (map of_nat [unat start..<unat stop + 1])"
proof -
  define js where "js = (map of_nat [unat start..<unat stop + 1] :: u64 list)"
  have js: "sorted_wrt (<) js" "set js = {start..stop}" unfolding js_def by (rule index_range)+
  note from_start = log_values_from [OF assms, where start = start]
  show ?thesis
    unfolding dropWhile_eq_drop [symmetric] key_sorted_from [OF assms(1)] takeWhile_sorted [OF from_start(1)]
      js_def [symmetric]
  proof (rule sorted_pairs_unique)
    show "sorted_wrt (<) (map fst (filter (\<lambda>(i, _). i \<le> stop)
        (log_values (filter (\<lambda>p. \<not> blt (fst p) (format_log_key start)) ps))))"
      using from_start(1) by (simp add: sorted_wrt_map sorted_wrt_filter)
    show "sorted_wrt (<) (map fst (values_at (map_of ps) js))"
      using js(1) by (rule values_at_sorted(1))
    show "set (filter (\<lambda>(i, _). i \<le> stop) (log_values (filter (\<lambda>p. \<not> blt (fst p) (format_log_key start)) ps))) =
        set (values_at (map_of ps) js)"
      using from_start(2) by (auto simp: values_at_sorted(2) js(2))
  qed
qed

lemma reader_entries_spec:
  assumes "rocks_ok R store cursor" "handles_ok R (db s)" "canonical (store (db s) (as_str (LOG_CF g)))"
    "range_start lo = SOk start" "range_end hi = SOk stop"
  shows "rocks_reader_entries R A M g s lo hi =
    Some (decode_all A M (ok_flatten (reader_get_last_log_id R M s (LOG_CF g)))
      (values_at (store (db s) (as_str (LOG_CF g))) (map of_nat [unat start..<unat stop + 1])) [])"
proof -
  let ?raw = "raw_iterator_cf R (db s) (as_str (LOG_CF g))"
  let ?ps = "fst (cursor ?raw)"
  let ?it = "\<lparr>inner = iter_seek R ?raw (format_log_key start), iter_cf = LOG_CF g\<rparr>"
  have ps: "key_sorted ?ps" "map_of ?ps = store (db s) (as_str (LOG_CF g))"
    using assms(1) by (auto simp: rocks_ok_def rocks_iterators_def)
  have "storage_iterator R s (LOG_CF g) (From (format_log_key start) Forward) = SOk ?it"
    using assms(2) by (simp add: storage_iterator_def Let_def)
  moreover have "cursor (inner ?it) = (?ps, length (takeWhile (\<lambda>p. blt (fst p) (format_log_key start)) ?ps))"
    using rocks_iter_simps(1) [OF assms(1)] by simp
  ultimately show ?thesis
    using reader_loop_spec [OF assms(1), of ?it ?ps _ A M _ stop "[]"] values_between [OF ps(1)] ps(2) assms(3-5)
    by (simp add: rocks_reader_entries_def Let_def length_takeWhile_le)
qed

lemma storage_entries_spec:
  assumes "rocks_ok R store cursor" "handles_ok R (db (storage ls))"
    "range_start lo = SOk start" "range_end hi = SOk stop"
  shows "rocks_try_get_log_entries R A M g ls lo hi =
    decode_all A M (ok_flatten (get_last_log_id R M (storage ls) (LOG_CF g)))
      (values_at (store (db (storage ls)) (as_str (LOG_CF g))) (map of_nat [unat start..<unat stop + 1])) []"
  using assms by (simp add: rocks_try_get_log_entries_def Let_def read_entries_spec)

section \<open>Truncating and purging\<close>

text \<open>With the last index cached, truncation deletes the log keys below its index.\<close>

lemma truncate_cached:
  assumes "rocks_ok R store cursor" "handles_ok R (db s)" "is_log_cf cf" "last_log_index_cache s cf = Some i"
  obtains d where "truncate_log_before R s cf t =
      (SOk (), s\<lparr>db := d, last_log_index_cache := (last_log_index_cache s)(cf := None)\<rparr>)" "handles_ok R d"
    "store d = (store (db s))(as_str cf := (store (db s) (as_str cf)) |`
       (- nat_key ` {1..<min (unat t) (unat i + 1)}))"
proof -
  define stop where "stop = (if i < t then unat i + 1 else unat t)"
  have stop: "stop = min (unat t) (unat i + 1)" by (auto simp: stop_def word_less_nat_alt)
  obtain d where "write_opt R (db s) (delete_log_keys (as_str cf) stop) False = (Inr (), d)"
    "store d = fold op_effect (delete_log_keys (as_str cf) stop) (store (db s))" "cf_handle R d = cf_handle R (db s)"
    using assms(1) unfolding rocks_ok_def rocks_writes_def by blast
  with assms(2-4) stop that show thesis
    by (auto simp: truncate_log_before_def get_cached_last_log_index_def Let_def handles_ok_def
        get_cf_handle_def delete_log_keys_effect stop_def split: if_splits)
qed

lemma format_log_key_nat_keys:
  "n \<le> 2 ^ 64 \<Longrightarrow> format_log_key i \<in> nat_key ` {1..<n} \<longleftrightarrow> 1 \<le> i \<and> unat i < n"
proof -
  assume n: "n \<le> 2 ^ 64"
  have "format_log_key i = nat_key j \<longleftrightarrow> unat i = j" if "j < n" for j
    using nat_key_inj [of "unat i" j] that n unsigned_less [of i, where 'a = nat] by simp
  then have "format_log_key i \<in> nat_key ` {1..<n} \<longleftrightarrow> unat i \<in> {1..<n}" unfolding image_iff by (metis atLeastLessThan_iff)
  then show ?thesis by (simp add: word_le_nat_alt)
qed

text \<open>An iterator at the end is at the greatest key.\<close>

lemma last_key:
  assumes "rocks_ok R store cursor" "k \<in> dom (store d cf)" "\<And>k'. k' \<in> dom (store d cf) \<Longrightarrow> k' = k \<or> blt k' k"
  shows "iter_valid R (iter_seek_to_last R (raw_iterator_cf R d cf))"
    "iter_key R (iter_seek_to_last R (raw_iterator_cf R d cf)) = Some k"
proof -
  let ?it = "iter_seek_to_last R (raw_iterator_cf R d cf)" and ?ps = "fst (cursor (raw_iterator_cf R d cf))"
  have ps: "key_sorted ?ps" "map_of ?ps = store d cf"
    using assms(1) by (auto simp: rocks_ok_def rocks_iterators_def)
  have keys: "fst ` set ?ps = dom (store d cf)" using ps(2) dom_map_of_conv_image_fst by metis
  then have "?ps \<noteq> []" using assms(2) by force
  then obtain qs k' v where qs: "?ps = qs @ [(k', v)]" by (metis append_butlast_last_id surj_pair)
  have "k' = k"
  proof (rule ccontr)
    assume ne: "k' \<noteq> k"
    have dom: "insert k' (fst ` set qs) = dom (store d cf)" using keys qs by simp
    then have "k \<in> insert k' (fst ` set qs)" using assms(2) by simp
    with ne have "k \<in> fst ` set qs" by simp
    then have "blt k k'" using ps(1) qs by (auto simp: key_sorted_def sorted_wrt_append)
    moreover have "k' \<in> dom (store d cf)" using dom by (metis insertI1)
    then have "blt k' k" using assms(3) [of k'] ne by simp
    ultimately show False using blt_trans blt_irrefl by blast
  qed
  moreover have "cursor ?it = (?ps, length ?ps - 1)" by (simp add: rocks_iter_simps(2) [OF assms(1)])
  ultimately show "iter_valid R ?it" "iter_key R ?it = Some k"
    using rocks_iter_at(1,2) [OF assms(1), of ?it ?ps "length ?ps - 1"] qs by simp_all
qed

lemma last_key_metadata:
  assumes "rocks_ok R store cursor" "handles_ok R (db s)" "is_log_cf cf"
    "dom (store (db s) (as_str cf)) \<subseteq> {LAST_LOG_ID_KEY, LAST_PURGED_LOG_ID_KEY}"
    "LAST_PURGED_LOG_ID_KEY \<in> dom (store (db s) (as_str cf))"
  shows "\<exists>reason. get_last_log_index_from_db R s cf = SErr (CorruptedData (as_str cf) LAST_PURGED_LOG_ID_KEY reason)"
proof -
  have "k = LAST_PURGED_LOG_ID_KEY \<or> blt k LAST_PURGED_LOG_ID_KEY" if "k \<in> dom (store (db s) (as_str cf))" for k
    using that assms(4) metadata_key_order(1) by auto
  then show ?thesis
    using assms(2,3) metadata_key_order(2) last_key [OF assms(1,5)]
    by (simp add: get_last_log_index_from_db_def Let_def)
qed

lemma metadata_below_log_keys: "blt LAST_LOG_ID_KEY (format_log_key i)" "blt LAST_PURGED_LOG_ID_KEY (format_log_key i)"
  by (simp_all add: LAST_LOG_ID_KEY_def LAST_PURGED_LOG_ID_KEY_def format_log_key_def bstr_def)

lemma last_key_log:
  assumes "rocks_ok R store cursor" "handles_ok R (db s)" "is_log_cf cf"
    "dom (store (db s) (as_str cf)) \<subseteq> format_log_key ` I \<union> {LAST_LOG_ID_KEY, LAST_PURGED_LOG_ID_KEY}"
    "format_log_key i \<in> dom (store (db s) (as_str cf))" "\<And>j. j \<in> I \<Longrightarrow> j \<le> i"
  shows "get_last_log_index_from_db R s cf = SOk (Some i)"
proof -
  have "k = format_log_key i \<or> blt k (format_log_key i)" if k: "k \<in> dom (store (db s) (as_str cf))" for k
  proof -
    consider j where "j \<in> I" "k = format_log_key j" | "k \<in> {LAST_LOG_ID_KEY, LAST_PURGED_LOG_ID_KEY}"
      using k assms(4) by blast
    then show ?thesis
      using assms(6) metadata_below_log_keys by cases (auto simp: log_key_less order_le_less)
  qed
  then show ?thesis
    using assms(2,3) last_key [OF assms(1,5)] by (simp add: get_last_log_index_from_db_def Let_def)
qed

lemma get_last_log_index_from_db_db:
  "db s = db s' \<Longrightarrow> get_last_log_index_from_db R s cf = get_last_log_index_from_db R s' cf"
  by (simp add: get_last_log_index_from_db_def get_cf_handle_def)

lemma warm_up_cfs_error:
  "cf \<in> set cfs \<Longrightarrow> (\<And>s'. db s' = db s \<Longrightarrow> get_last_log_index_from_db R s' cf = SErr e) \<Longrightarrow>
     fst (warm_up_cfs R cfs s) \<noteq> SOk ()"
proof (induction cfs arbitrary: s)
  case (Cons c cfs)
  then show ?case
    by (cases "get_last_log_index_from_db R s c") (auto split: option.splits)
qed simp

section \<open>Properties\<close>

text \<open>C29: the two ways to read a log agree. Reading index by index through the log storage and walking an
  iterator through a log reader return the same entries for every range, or panic alike, whenever
  the last log id is recorded and the keys that look like log keys are log keys.\<close>

theorem reader_agrees_with_storage:
  assumes "rocks_ok R store cursor" "handles_ok R (db (storage ls))" "messages_ok M"
    "canonical (store (db (storage ls)) (as_str (LOG_CF g)))"
    "store (db (storage ls)) (as_str (LOG_CF g)) LAST_LOG_ID_KEY =
       Some (encode_to_vec (log_id_coding M) (from_log_id lid))"
  shows "rocks_reader_entries R A M g (rocks_get_log_reader ls) lo hi =
    Some (rocks_try_get_log_entries R A M g ls lo hi)"
proof (cases "range_start lo"; cases "range_end hi")
  fix start stop
  assume "range_start lo = SOk start" "range_end hi = SOk stop"
  with assms show ?thesis
    using last_log_id_read [OF assms(1,2,3,5)]
    by (simp add: rocks_get_log_reader_def reader_entries_spec storage_entries_spec)
qed (simp_all add: rocks_reader_entries_def rocks_try_get_log_entries_def split: outcome.split)

text \<open>The entries at the indices from the first to the last of a list of entries.\<close>

abbreviation read_span ::
    "('d, 'i) rocksdb \<Rightarrow> ('vote, 'm) openraft_api \<Rightarrow> messages \<Rightarrow> RaftGroup \<Rightarrow> ('d, 'vote) RocksDBLogStorage \<Rightarrow>
     'm Entry list \<Rightarrow> 'm Entry list ores" where
  "read_span R A M g ls es \<equiv>
     rocks_try_get_log_entries R A M g ls (Included (index (log_id (hd es)))) (Included (index (log_id (last es))))"

lemma appended_entries_read:
  assumes "rocks_ok R store cursor" "handles_ok R (db (storage ls))" "messages_ok M" "es \<noteq> []" "consecutive es"
    "store (db (storage ls)) (as_str (LOG_CF g)) = (old ++ map_of (rev (map (\<lambda>e. (entry_key e, entry_bytes A M e)) es)))
       (LAST_LOG_ID_KEY \<mapsto> encode_to_vec (log_id_coding M) (from_log_id (log_id (last es))))"
  shows "get_last_log_id R M (storage ls) (LOG_CF g) = SOk (Some (log_id (last es)))"
    "read_span R A M g ls es = SOk (map (as_read A (log_id (last es))) es)"
proof -
  show last: "get_last_log_id R M (storage ls) (LOG_CF g) = SOk (Some (log_id (last es)))"
    using assms(6) by (intro last_log_id_read [OF assms(1-3)]) simp
  have "values_at (store (db (storage ls)) (as_str (LOG_CF g))) (map (\<lambda>e. index (log_id e)) es) =
      map (\<lambda>e. (index (log_id e), entry_bytes A M e)) es"
    using consecutive_indices(2) [OF assms(5,4)] assms(6) by (intro appended_values) simp_all
  moreover have "read_span R A M g ls es =
      decode_all A M (ok_flatten (get_last_log_id R M (storage ls) (LOG_CF g)))
        (values_at (store (db (storage ls)) (as_str (LOG_CF g)))
          (map of_nat [unat (index (log_id (hd es)))..<unat (index (log_id (last es))) + 1])) []"
    by (intro storage_entries_spec [OF assms(1,2)]) simp_all
  ultimately have "read_span R A M g ls es =
      decode_all A M (Some (log_id (last es))) (map (\<lambda>e. (index (log_id e), entry_bytes A M e)) es) []"
    unfolding consecutive_indices(1) [OF assms(5,4)] by (simp add: last)
  with consecutive_indices(3) [OF assms(5,4)] show "read_span R A M g ls es = SOk (map (as_read A (log_id (last es))) es)"
    by (simp add: decode_appended [OF assms(3)])
qed

text \<open>C28: entries appended with consecutive indices are read back, all of them and in order, with their
  payloads; what is stored of a membership is its voters and learners. Every entry comes back with
  the term and the node of the last entry appended, whatever its own were. The last log id is
  recorded and the callback is told of success.\<close>

theorem rocks_append_read_back:
  assumes "rocks_ok R store cursor" "handles_ok R (db (storage ls))" "messages_ok M"
    "length es \<le> MAX_BATCH_OPERATIONS" "es \<noteq> []" "consecutive es"
    "rocks_append R A M g ls es = (r, cb, ls')"
  shows "r = SOk () \<and> cb = Some (Inr ()) \<and>
    rocks_try_get_log_entries R A M g ls' (Included (index (log_id (hd es)))) (Included (index (log_id (last es)))) =
      SOk (map (as_read A (log_id (last es))) es) \<and>
    get_last_log_id R M (storage ls') (LOG_CF g) = SOk (Some (log_id (last es)))"
proof -
  obtain d where d: "rocks_append R A M g ls es = (SOk (), Some (Inr ()), ls\<lparr>storage := (storage ls)\<lparr>db := d,
       last_log_index_cache := (last_log_index_cache (storage ls))(LOG_CF g \<mapsto> index (log_id (last es)))\<rparr>\<rparr>)"
    "handles_ok R d"
    "store d = (store (db (storage ls)))(as_str (LOG_CF g) :=
       (store (db (storage ls)) (as_str (LOG_CF g)) ++ map_of (rev (map (\<lambda>e. (entry_key e, entry_bytes A M e)) es)))
         (LAST_LOG_ID_KEY \<mapsto> encode_to_vec (log_id_coding M) (from_log_id (log_id (last es)))))"
    using rocks_append_spec [OF assms(1,2,4,5)] by blast
  have ls': "r = SOk ()" "cb = Some (Inr ())" "db (storage ls') = d" using assms(7) d(1) by auto
  then show ?thesis
    using d(2,3) appended_entries_read [OF assms(1) _ assms(3,5,6), of ls' g "store (db (storage ls)) (as_str (LOG_CF g))" A]
    by simp
qed

definition example_entries :: "(u64 list \<times> u64 list) Entry list" where
  "example_entries =
     [\<lparr>log_id = log_id_new 1 1 1, payload = Blank\<rparr>,
      \<lparr>log_id = log_id_new 2 1 2, payload = Normal \<lparr>operation_bytes = [9]\<rparr>\<rparr>]"

definition fresh_log :: "(rocks_op list, u64 \<times> u64) RocksDBLogStorage" where
  "fresh_log = log_storage_new fresh_storage"

lemma fresh_handles_ok: "handles_ok log_db (db (storage fresh_log))"
  using all_cfs_complete(1) by (auto simp: handles_ok_def log_db_def)

lemma example_consecutive: "consecutive example_entries" "example_entries \<noteq> []"
    "length example_entries \<le> MAX_BATCH_OPERATIONS"
  by (auto simp: consecutive_def example_entries_def MAX_BATCH_OPERATIONS_def less_Suc_eq)

definition example_log :: "(rocks_op list, u64 \<times> u64) RocksDBLogStorage" where
  "example_log = snd (snd (rocks_append log_db pair_api comma_messages DataRaft fresh_log example_entries))"

theorem rocks_append_read_back_witness:
  "rocks_try_get_log_entries log_db pair_api comma_messages DataRaft example_log (Included 1) (Included 2) =
     SOk [\<lparr>log_id = log_id_new 2 1 1, payload = Blank\<rparr>,
          \<lparr>log_id = log_id_new 2 1 2, payload = Normal \<lparr>operation_bytes = [9]\<rparr>\<rparr>]"
  using rocks_append_read_back [OF log_db_ok fresh_handles_ok comma_messages_ok example_consecutive(3,2,1),
      of pair_api DataRaft "fst (rocks_append log_db pair_api comma_messages DataRaft fresh_log example_entries)"
        "fst (snd (rocks_append log_db pair_api comma_messages DataRaft fresh_log example_entries))" example_log]
  by (simp add: example_log_def, simp add: example_entries_def as_read_def)

lemma example_log_store:
  "handles_ok log_db (db (storage example_log))"
  "last_log_index_cache (storage example_log) DataRaftLog = Some 2"
  "log_db_store (db (storage example_log)) (as_str DataRaftLog) =
     [format_log_key 1 \<mapsto> [0], format_log_key 2 \<mapsto> [1, 9],
      LAST_LOG_ID_KEY \<mapsto> encode_to_vec (log_id_coding comma_messages) (from_log_id (log_id_new 2 1 2))]"
proof -
  obtain d where d: "rocks_append log_db pair_api comma_messages DataRaft fresh_log example_entries =
      (SOk (), Some (Inr ()), fresh_log\<lparr>storage := (storage fresh_log)\<lparr>db := d,
        last_log_index_cache := (last_log_index_cache (storage fresh_log))(LOG_CF DataRaft \<mapsto>
          index (log_id (last example_entries)))\<rparr>\<rparr>)" "handles_ok log_db d"
    "log_db_store d = (log_db_store (db (storage fresh_log)))(as_str (LOG_CF DataRaft) :=
       (log_db_store (db (storage fresh_log)) (as_str (LOG_CF DataRaft)) ++
          map_of (rev (map (\<lambda>e. (entry_key e, entry_bytes pair_api comma_messages e)) example_entries)))
         (LAST_LOG_ID_KEY \<mapsto> encode_to_vec (log_id_coding comma_messages) (from_log_id (log_id (last example_entries)))))"
    using rocks_append_spec [OF log_db_ok fresh_handles_ok example_consecutive(3,2)] by blast
  have fresh: "log_db_store (db (storage fresh_log)) = (\<lambda>_. Map.empty)"
    by (simp add: fun_eq_iff fresh_log_def log_storage_new_def fresh_storage_def log_db_store_def log_db_pairs_def)
  show "handles_ok log_db (db (storage example_log))" using d(1,2) by (simp add: example_log_def)
  show "last_log_index_cache (storage example_log) DataRaftLog = Some 2"
    using d(1) by (simp add: example_log_def example_entries_def)
  show "log_db_store (db (storage example_log)) (as_str DataRaftLog) =
     [format_log_key 1 \<mapsto> [0], format_log_key 2 \<mapsto> [1, 9],
      LAST_LOG_ID_KEY \<mapsto> encode_to_vec (log_id_coding comma_messages) (from_log_id (log_id_new 2 1 2))]"
    using d(1,3) fresh by (simp add: example_log_def example_entries_def ENTRY_TYPE_BLANK_def ENTRY_TYPE_NORMAL_def)
qed

theorem reader_agrees_with_storage_witness:
  "rocks_reader_entries log_db pair_api comma_messages DataRaft (rocks_get_log_reader example_log) Unbounded (Excluded 2) =
     Some (rocks_try_get_log_entries log_db pair_api comma_messages DataRaft example_log Unbounded (Excluded 2))"
  by (rule reader_agrees_with_storage [OF log_db_ok example_log_store(1) comma_messages_ok, of _ "log_id_new 2 1 2"])
    (auto simp: example_log_store(3) [simplified] canonical_def split: if_splits)

text \<open>A vote survives a restart: after it is saved, the running storage returns it from its cache, and a
  storage opened anew on the same data returns a vote of the same term and node.\<close>

theorem rocks_vote_survives_restart:
  assumes "rocks_ok R store cursor" "handles_ok R (db (storage ls))" "messages_ok M" "api_ok A"
    "rocks_save_vote R A M g ls v = (r, ls')"
  shows "r = SOk () \<and> fst (rocks_read_vote R A M g ls') = SOk (Some v) \<and>
    (\<exists>v'. fst (rocks_read_vote R A M g (log_storage_new (storage ls'))) = SOk (Some v') \<and>
       vote_term A v' = vote_term A v \<and> vote_node_id A v' = vote_node_id A v)"
proof -
  obtain d where d: "put R (storage ls) (STATE_CF g) VOTE_KEY (encode_to_vec (vote_coding M) (from_vote A v)) =
      (SOk (), (storage ls)\<lparr>db := d\<rparr>)" "handles_ok R d"
    "store d = op_effect (RocksPut (as_str (STATE_CF g)) VOTE_KEY (encode_to_vec (vote_coding M) (from_vote A v)))
      (store (db (storage ls)))"
    using put_spec [OF assms(1,2)] by blast
  then have ls': "r = SOk ()" "ls' = ls\<lparr>storage := (storage ls)\<lparr>db := d\<rparr>, cached_vote := Some v\<rparr>"
    using assms(5) by (simp_all add: rocks_save_vote_def)
  have "get R ((storage ls)\<lparr>db := d\<rparr>) (STATE_CF g) VOTE_KEY =
      (SOk (Some (encode_to_vec (vote_coding M) (from_vote A v))), (storage ls)\<lparr>db := d\<rparr>)"
    using get_spec [OF assms(1)] d(2,3) by simp
  with ls' assms(3,4) show ?thesis
    by (simp add: rocks_read_vote_def log_storage_new_def messages_ok_def prost_ok_def to_vote_def from_vote_def api_ok_def)
qed

theorem rocks_vote_survives_restart_witness:
  "\<exists>v'. fst (rocks_read_vote log_db pair_api comma_messages DataRaft
       (log_storage_new (storage (snd (rocks_save_vote log_db pair_api comma_messages DataRaft fresh_log (7, 3)))))) =
     SOk (Some v') \<and> vote_term pair_api v' = 7"
  using rocks_vote_survives_restart [OF log_db_ok fresh_handles_ok comma_messages_ok pair_api_ok,
      of DataRaft "(7, 3)" "fst (rocks_save_vote log_db pair_api comma_messages DataRaft fresh_log (7, 3))"
        "snd (rocks_save_vote log_db pair_api comma_messages DataRaft fresh_log (7, 3))"]
  by (auto simp: pair_api_def)

text \<open>Truncating at a log id removes the entries before it and keeps it and everything after it; openraft
  asks for the opposite, the removal of the entry and of all that follow.\<close>

theorem rocks_truncate_deletes_prefix:
  assumes "rocks_ok R store cursor" "handles_ok R (db (storage ls))"
    "last_log_index_cache (storage ls) (LOG_CF g) = Some lst" "rocks_truncate R g ls lid = (r, ls')"
  shows "r = SOk () \<and> store (db (storage ls')) (as_str (LOG_CF g)) (format_log_key i) =
    (if 1 \<le> i \<and> i < index lid \<and> i \<le> lst then None
     else store (db (storage ls)) (as_str (LOG_CF g)) (format_log_key i))"
proof -
  have cf: "is_log_cf (LOG_CF g)" by (cases g) simp_all
  obtain d where d: "truncate_log_before R (storage ls) (LOG_CF g) (index lid) = (SOk (), (storage ls)\<lparr>db := d,
      last_log_index_cache := (last_log_index_cache (storage ls))(LOG_CF g := None)\<rparr>)"
    "store d = (store (db (storage ls)))(as_str (LOG_CF g) := (store (db (storage ls)) (as_str (LOG_CF g))) |`
       (- nat_key ` {1..<min (unat (index lid)) (unat lst + 1)}))"
    using truncate_cached [OF assms(1,2) cf assms(3)] by metis
  then have "r = SOk ()" "db (storage ls') = d" using assms(4) by (auto simp: rocks_truncate_def)
  moreover have "min (unat (index lid)) (unat lst + 1) \<le> 2 ^ 64"
    using unsigned_less [of lst, where 'a = nat] by simp
  ultimately show ?thesis
    using d(2) format_log_key_nat_keys [of "min (unat (index lid)) (unat lst + 1)" i]
    by (auto simp: restrict_map_def word_less_nat_alt word_le_nat_alt less_Suc_eq_le)
qed

theorem rocks_truncate_deletes_prefix_witness:
  "log_db_store (db (storage (snd (rocks_truncate log_db DataRaft example_log (log_id_new 2 1 2)))))
     (as_str DataRaftLog) (format_log_key 1) = None"
  using rocks_truncate_deletes_prefix [OF log_db_ok example_log_store(1), of DataRaft 2 "log_id_new 2 1 2"
      "fst (rocks_truncate log_db DataRaft example_log (log_id_new 2 1 2))"
      "snd (rocks_truncate log_db DataRaft example_log (log_id_new 2 1 2))" 1] example_log_store(2)
  by simp

text \<open>What a purge does to the database when the last index is cached.\<close>

lemma purge_cached:
  assumes "rocks_ok R store cursor" "handles_ok R (db (storage ls))"
    "last_log_index_cache (storage ls) (LOG_CF g) = Some lst" "index lid \<noteq> - 1"
  obtains d where "rocks_purge R M g ls lid = (SOk (), ls\<lparr>storage := (storage ls)\<lparr>db := d,
       last_log_index_cache := (last_log_index_cache (storage ls))(LOG_CF g := None)\<rparr>\<rparr>)" "handles_ok R d"
    "store d = (store (db (storage ls)))(as_str (LOG_CF g) := (store (db (storage ls)) (as_str (LOG_CF g)) |`
       (- nat_key ` {1..<min (unat (index lid)) (unat lst) + 1}))
         (LAST_PURGED_LOG_ID_KEY \<mapsto> encode_to_vec (log_id_coding M) (from_log_id lid)))"
proof -
  let ?cf = "LOG_CF g" and ?m = "store (db (storage ls)) (as_str (LOG_CF g))"
  have cf: "is_log_cf ?cf" by (cases g) simp_all
  have "1 + index lid \<noteq> 0" using assms(4) by (metis add.commute add_eq_0_iff)
  then have t: "min (unat (index lid + 1)) (unat lst + 1) = min (unat (index lid)) (unat lst) + 1"
    using unatSuc [of "index lid"] by (simp add: add.commute)
  obtain d1 where d1: "truncate_log_before R (storage ls) ?cf (index lid + 1) = (SOk (), (storage ls)\<lparr>db := d1,
      last_log_index_cache := (last_log_index_cache (storage ls))(?cf := None)\<rparr>)" "handles_ok R d1"
    "store d1 = (store (db (storage ls)))(as_str ?cf := ?m |` (- nat_key ` {1..<min (unat (index lid)) (unat lst) + 1}))"
    using truncate_cached [OF assms(1,2) cf assms(3), of "index lid + 1"] t by metis
  let ?s1 = "(storage ls)\<lparr>db := d1, last_log_index_cache := (last_log_index_cache (storage ls))(?cf := None)\<rparr>"
  let ?v = "encode_to_vec (log_id_coding M) (from_log_id lid)"
  obtain d where d: "put R ?s1 ?cf LAST_PURGED_LOG_ID_KEY ?v = (SOk (), ?s1\<lparr>db := d\<rparr>)" "handles_ok R d"
    "store d = op_effect (RocksPut (as_str ?cf) LAST_PURGED_LOG_ID_KEY ?v) (store (db ?s1))"
    using put_spec [OF assms(1), of ?s1 ?cf LAST_PURGED_LOG_ID_KEY ?v] d1(2) by auto
  show thesis
  proof (rule that [of d])
    show "rocks_purge R M g ls lid = (SOk (), ls\<lparr>storage := (storage ls)\<lparr>db := d,
       last_log_index_cache := (last_log_index_cache (storage ls))(?cf := None)\<rparr>\<rparr>)"
      using assms(4) d1(1) d(1) by (simp add: rocks_purge_def save_last_purged_log_id_def)
  qed (use d d1(3) in simp_all)
qed

lemma purge_whole_log:
  assumes "rocks_ok R store cursor" "handles_ok R (db (storage ls))"
    "last_log_index_cache (storage ls) (LOG_CF g) = Some lst"
    "dom (store (db (storage ls)) (as_str (LOG_CF g))) \<subseteq>
       format_log_key ` {1..lst} \<union> {LAST_LOG_ID_KEY, LAST_PURGED_LOG_ID_KEY}"
    "lst \<le> index lid" "index lid \<noteq> - 1" "rocks_purge R M g ls lid = (r, ls')"
  shows "r = SOk ()" "last_log_index_cache (storage ls') (LOG_CF g) = None" "handles_ok R (db (storage ls'))"
    "dom (store (db (storage ls')) (as_str (LOG_CF g))) \<subseteq> {LAST_LOG_ID_KEY, LAST_PURGED_LOG_ID_KEY}"
    "LAST_PURGED_LOG_ID_KEY \<in> dom (store (db (storage ls')) (as_str (LOG_CF g)))"
proof -
  have min: "min (unat (index lid)) (unat lst) = unat lst" using assms(5) by (simp add: word_le_nat_alt)
  obtain d where d: "rocks_purge R M g ls lid = (SOk (), ls\<lparr>storage := (storage ls)\<lparr>db := d,
       last_log_index_cache := (last_log_index_cache (storage ls))(LOG_CF g := None)\<rparr>\<rparr>)" "handles_ok R d"
    "store d = (store (db (storage ls)))(as_str (LOG_CF g) := (store (db (storage ls)) (as_str (LOG_CF g)) |`
       (- nat_key ` {1..<unat lst + 1}))
         (LAST_PURGED_LOG_ID_KEY \<mapsto> encode_to_vec (log_id_coding M) (from_log_id lid)))"
    using purge_cached [OF assms(1-3,6), where M = M] unfolding min by blast
  then show "r = SOk ()" "last_log_index_cache (storage ls') (LOG_CF g) = None" "handles_ok R (db (storage ls'))"
    "LAST_PURGED_LOG_ID_KEY \<in> dom (store (db (storage ls')) (as_str (LOG_CF g)))"
    using assms(7) by auto
  have "format_log_key i \<in> nat_key ` {1..<unat lst + 1}" if "i \<in> {1..lst}" for i
    using that format_log_key_nat_keys [of "unat lst + 1" i] unsigned_less [of lst, where 'a = nat]
    by (simp add: word_le_nat_alt less_Suc_eq_le)
  then have "dom (store d (as_str (LOG_CF g))) \<subseteq> {LAST_LOG_ID_KEY, LAST_PURGED_LOG_ID_KEY}"
    using assms(4) by (auto simp: d(3))
  then show "dom (store (db (storage ls')) (as_str (LOG_CF g))) \<subseteq> {LAST_LOG_ID_KEY, LAST_PURGED_LOG_ID_KEY}"
    using assms(7) d(1) by force
qed

text \<open>C38: an append that ends below the last index hides the entries after it from the next purge. The append
  overwrites the entries it carries and sets the last index back to the index of its last entry,
  without removing what follows; a purge beyond that index reports success and records its log id as
  purged, and every entry above the end of the append that the append did not write stays in the
  database as it was, purged index or not.\<close>

theorem short_append_stops_purge:
  assumes "rocks_ok R store cursor" "handles_ok R (db (storage ls))" "length es \<le> MAX_BATCH_OPERATIONS" "es \<noteq> []"
    and "rocks_append R A M g ls es = (r1, cb, ls1)" "rocks_purge R M g ls1 lid = (r2, ls2)" "index lid \<noteq> - 1"
    and "index (log_id (last es)) < i" "i \<notin> (index \<circ> log_id) ` set es"
  shows "r1 = SOk () \<and> r2 = SOk () \<and>
    store (db (storage ls2)) (as_str (LOG_CF g)) LAST_PURGED_LOG_ID_KEY =
      Some (encode_to_vec (log_id_coding M) (from_log_id lid)) \<and>
    store (db (storage ls2)) (as_str (LOG_CF g)) (format_log_key i) =
      store (db (storage ls)) (as_str (LOG_CF g)) (format_log_key i)"
proof -
  let ?cf = "LOG_CF g" and ?lst = "index (log_id (last es))"
  let ?new = "map_of (rev (map (\<lambda>e. (entry_key e, entry_bytes A M e)) es))"
  obtain d1 where app: "rocks_append R A M g ls es = (SOk (), Some (Inr ()), ls\<lparr>storage := (storage ls)\<lparr>db := d1,
       last_log_index_cache := (last_log_index_cache (storage ls))(?cf \<mapsto> ?lst)\<rparr>\<rparr>)" "handles_ok R d1"
    "store d1 = (store (db (storage ls)))(as_str ?cf := (store (db (storage ls)) (as_str ?cf) ++ ?new)
         (LAST_LOG_ID_KEY \<mapsto> encode_to_vec (log_id_coding M) (from_log_id (log_id (last es)))))"
    using rocks_append_spec [OF assms(1-4), of A M g] by blast
  then have d1: "r1 = SOk ()" "db (storage ls1) = d1" "handles_ok R (db (storage ls1))"
    "last_log_index_cache (storage ls1) ?cf = Some ?lst" using assms(5) by simp_all
  obtain d where pur: "rocks_purge R M g ls1 lid = (SOk (), ls1\<lparr>storage := (storage ls1)\<lparr>db := d,
       last_log_index_cache := (last_log_index_cache (storage ls1))(?cf := None)\<rparr>\<rparr>)"
    "store d = (store (db (storage ls1)))(as_str ?cf :=
      (store (db (storage ls1)) (as_str ?cf) |` (- nat_key ` {1..<min (unat (index lid)) (unat ?lst) + 1}))
         (LAST_PURGED_LOG_ID_KEY \<mapsto> encode_to_vec (log_id_coding M) (from_log_id lid)))"
    using purge_cached [OF assms(1) d1(3,4) assms(7), where M = M] by blast
  then have d: "r2 = SOk ()" "db (storage ls2) = d" using assms(6) by simp_all
  have "?new (format_log_key i) = None"
    using assms(9) by (auto simp: map_of_eq_None_iff image_image)
  moreover have "format_log_key i \<notin> nat_key ` {1..<min (unat (index lid)) (unat ?lst) + 1}"
    using assms(8) format_log_key_nat_keys [of "min (unat (index lid)) (unat ?lst) + 1" i]
      unsigned_less [of ?lst, where 'a = nat] by (auto simp: word_less_nat_alt)
  ultimately show ?thesis
    using d1(1,2) d app(3) pur(2) by (simp add: map_add_def)
qed

theorem short_append_stops_purge_witness:
  "\<exists>r1 cb ls1 r2 ls2.
     rocks_append log_db pair_api comma_messages DataRaft example_log [\<lparr>log_id = log_id_new 3 1 1, payload = Blank\<rparr>] =
       (r1, cb, ls1) \<and>
     rocks_purge log_db comma_messages DataRaft ls1 (log_id_new 3 1 2) = (r2, ls2) \<and> r2 = SOk () \<and>
     log_db_store (db (storage ls2)) (as_str DataRaftLog) (format_log_key 2) = Some [1, 9]"
proof -
  let ?e = "[\<lparr>log_id = log_id_new 3 1 1, payload = Blank\<rparr>]"
  obtain r1 cb ls1 where app: "rocks_append log_db pair_api comma_messages DataRaft example_log ?e = (r1, cb, ls1)"
    by (metis prod_cases3)
  obtain r2 ls2 where pur: "rocks_purge log_db comma_messages DataRaft ls1 (log_id_new 3 1 2) = (r2, ls2)"
    by fastforce
  have "r2 = SOk () \<and> log_db_store (db (storage ls2)) (as_str DataRaftLog) (format_log_key 2) =
      log_db_store (db (storage example_log)) (as_str DataRaftLog) (format_log_key 2)"
    using short_append_stops_purge [OF log_db_ok example_log_store(1) _ _ app pur, of 2]
    by (simp add: MAX_BATCH_OPERATIONS_def)
  then show ?thesis using app pur by (auto simp: example_log_store(3) [simplified])
qed

lemma storage_new_corrupt:
  assumes "get_last_log_index_from_db R s0 cf = SErr e" "cf \<in> set [SystemRaftLog, DataRaftLog]"
    "open_cf (db_options opts) (data_dir opts) (map (cf_descriptor opts) all_cfs) = Inr (db s0)"
  shows "storage_new R open_cf opts \<noteq> SOk s"
proof -
  have "fst (warm_up_index_cache R \<lparr>db = db s0, last_log_index_cache = Map.empty, path = p\<rparr>) \<noteq> SOk ()" for p
    unfolding warm_up_index_cache_def
    by (rule warm_up_cfs_error [OF assms(2)])
      (simp add: assms(1) get_last_log_index_from_db_db [of _ s0])
  then show ?thesis
    using assms(3) by (auto simp: storage_new_def split: sum.split prod.split outcome.split) (metis fst_conv)+
qed

text \<open>C31: purging a whole log makes the database unusable. Once every entry is purged, the last key of the log's
  column family is the record of the purge, which does not read as a log index: looking up the last
  index fails as corrupted data, the next purge fails, and the database cannot be opened
  again.\<close>

theorem purged_log_cannot_be_reopened:
  assumes "rocks_ok R store cursor" "handles_ok R (db (storage ls))"
    "last_log_index_cache (storage ls) (LOG_CF g) = Some lst"
    "dom (store (db (storage ls)) (as_str (LOG_CF g))) \<subseteq>
       format_log_key ` {1..lst} \<union> {LAST_LOG_ID_KEY, LAST_PURGED_LOG_ID_KEY}"
    "lst \<le> index lid" "index lid \<noteq> - 1" "rocks_purge R M g ls lid = (r, ls')"
    "open_cf (db_options opts) (data_dir opts) (map (cf_descriptor opts) all_cfs) = Inr (db (storage ls'))"
  shows "r = SOk () \<and> fst (rocks_purge R M g ls' lid') \<noteq> SOk () \<and> storage_new R open_cf opts \<noteq> SOk s"
proof -
  let ?cf = "LOG_CF g"
  have cf: "is_log_cf ?cf" "?cf \<in> set [SystemRaftLog, DataRaftLog]" by (cases g; simp)+
  note purged = purge_whole_log [OF assms(1-7)]
  obtain reason where corrupt: "get_last_log_index_from_db R (storage ls') ?cf =
      SErr (CorruptedData (as_str ?cf) LAST_PURGED_LOG_ID_KEY reason)"
    using last_key_metadata [OF assms(1) purged(3) cf(1)] purged(4,5) by auto
  then have "fst (rocks_purge R M g ls' lid') \<noteq> SOk ()"
    using purged(2) cf(1) by (simp add: rocks_purge_def truncate_log_before_def get_cached_last_log_index_def)
  then show ?thesis using purged(1) storage_new_corrupt [OF corrupt cf(2), of open_cf opts s] assms(8) by blast
qed

theorem purged_log_cannot_be_reopened_witness:
  "storage_new log_db (\<lambda>_ _ _. Inr (db (storage (snd (rocks_purge log_db comma_messages DataRaft example_log
     (log_id_new 2 1 2)))))) options_default \<noteq> SOk fresh_storage"
  using purged_log_cannot_be_reopened [OF log_db_ok example_log_store(1), of DataRaft 2 "log_id_new 2 1 2" comma_messages
      "fst (rocks_purge log_db comma_messages DataRaft example_log (log_id_new 2 1 2))"
      "snd (rocks_purge log_db comma_messages DataRaft example_log (log_id_new 2 1 2))"
      "\<lambda>_ _ _. Inr (db (storage (snd (rocks_purge log_db comma_messages DataRaft example_log (log_id_new 2 1 2)))))"
      options_default "log_id_new 2 1 2" fresh_storage]
  by (auto simp: example_log_store(2,3) [simplified])

end
