(* ===== verification/Rocks_Machine.thy ===== *)
theory Rocks_Machine
  imports Rocks_Openraft_Log
begin

text \<open>
  The state machine openraft applies entries to, \<open>RocksDBStateMachine\<close> of
  \<open>crates/storage/src/openraft_rocksdb.rs\<close>, with its snapshot builder. The clock and the check that
  a path exists are arguments. The locks of the caches do not poison.
\<close>

section \<open>The machine\<close>

record ('d, 'm) RocksDBStateMachine =
  machine_storage :: "'d Storage"
  cached_applied :: "LogId option"
  cached_membership :: "'m StoredMembership"
  current_snapshot :: "'m Snapshot option"

definition machine_new :: "('vote, 'm) openraft_api \<Rightarrow> 'd Storage \<Rightarrow> ('d, 'm) RocksDBStateMachine" where
  "machine_new A s =
     \<lparr>machine_storage = s, cached_applied = None, cached_membership = default_membership (membership_default A),
      current_snapshot = None\<rparr>"

record 'd RocksDBSnapshotBuilder =
  builder_storage :: "'d Storage"
  builder_id :: bytes

text \<open>\<open>now\<close> is the time since the epoch in seconds, \<open>None\<close> for a clock before it.\<close>

definition snapshot_builder_new :: "nat option \<Rightarrow> 'd Storage \<Rightarrow> 'd RocksDBSnapshotBuilder ores" where
  "snapshot_builder_new now s =
     (case now of
        None \<Rightarrow> SPanic
      | Some secs \<Rightarrow> SOk \<lparr>builder_storage = s, builder_id = bstr ''snapshot-'' @ dec_string secs\<rparr>)"

abbreviation machine_read_error :: "rocks_error \<Rightarrow> rocks_error StorageError" where
  "machine_read_error e \<equiv> io_error Subject_StateMachine Verb_Read e"

abbreviation machine_write_error :: "rocks_error \<Rightarrow> rocks_error StorageError" where
  "machine_write_error e \<equiv> io_error Subject_StateMachine Verb_Write e"

definition read_applied :: "('d, 'i) rocksdb \<Rightarrow> messages \<Rightarrow> RaftGroup \<Rightarrow> 'd Storage \<Rightarrow> LogId option ores" where
  "read_applied R M g s =
     (case fst (get R s (STATE_CF g) APPLIED_KEY) of
        SOk (Some bs) \<Rightarrow>
          (case decode_msg (log_id_coding M) bs of
             Inl e \<Rightarrow> SErr (machine_read_error (FromProst e))
           | Inr msg \<Rightarrow> SOk (Some (to_log_id msg)))
      | SOk None \<Rightarrow> SOk None
      | SErr e \<Rightarrow> SErr (machine_read_error (FromStore e))
      | SPanic \<Rightarrow> SPanic)"

definition read_membership ::
    "('d, 'i) rocksdb \<Rightarrow> ('vote, 'm) openraft_api \<Rightarrow> messages \<Rightarrow> RaftGroup \<Rightarrow> 'd Storage \<Rightarrow> 'm StoredMembership ores" where
  "read_membership R A M g s =
     (case fst (get R s (STATE_CF g) MEMBERSHIP_KEY) of
        SOk (Some bs) \<Rightarrow>
          (case decode_msg (membership_coding M) bs of
             Inl e \<Rightarrow> SErr (machine_read_error (FromProst e))
           | Inr msg \<Rightarrow> SOk (to_membership A msg))
      | SOk None \<Rightarrow> SOk (default_membership (membership_default A))
      | SErr e \<Rightarrow> SErr (machine_read_error (FromStore e))
      | SPanic \<Rightarrow> SPanic)"

definition rocks_build_snapshot ::
    "('d, 'i) rocksdb \<Rightarrow> ('vote, 'm) openraft_api \<Rightarrow> messages \<Rightarrow> RaftGroup \<Rightarrow> 'd RocksDBSnapshotBuilder \<Rightarrow>
     'm Snapshot ores" where
  "rocks_build_snapshot R A M g b =
     fst (sbind (read_applied R M g (builder_storage b), ()) (\<lambda>applied _.
          sbind (read_membership R A M g (builder_storage b), ()) (\<lambda>membership _.
            (SOk \<lparr>meta = \<lparr>snap_last_log_id = applied, snap_last_membership = membership,
                            snapshot_id = builder_id b\<rparr>,
                   snapshot_data = builder_id b\<rparr>, ()))))"

definition rocks_applied_state ::
    "('d, 'i) rocksdb \<Rightarrow> ('vote, 'm) openraft_api \<Rightarrow> messages \<Rightarrow> RaftGroup \<Rightarrow> ('d, 'm) RocksDBStateMachine \<Rightarrow>
     (LogId option \<times> 'm StoredMembership) ores \<times> ('d, 'm) RocksDBStateMachine" where
  "rocks_applied_state R A M g m =
     sbind (read_applied R M g (machine_storage m), m) (\<lambda>applied m.
     sbind (read_membership R A M g (machine_storage m), m) (\<lambda>membership m.
       (SOk (applied, membership), m\<lparr>cached_applied := applied, cached_membership := membership\<rparr>)))"

section \<open>Applying entries\<close>

text \<open>A call of the storage, its error wrapped as a write error of the state machine.\<close>

definition machine_write ::
    "unit sres \<times> 'd Storage \<Rightarrow> ('d, 'm) RocksDBStateMachine \<Rightarrow> unit ores \<times> ('d, 'm) RocksDBStateMachine" where
  "machine_write w m =
     (case w of (r, s) \<Rightarrow> (map_err (\<lambda>e. machine_write_error (FromStore e)) r, m\<lparr>machine_storage := s\<rparr>))"

definition rocks_apply_entry ::
    "('d, 'i) rocksdb \<Rightarrow> Operation bincode \<Rightarrow> ('vote, 'm) openraft_api \<Rightarrow> messages \<Rightarrow> RaftGroup \<Rightarrow> 'm Entry \<Rightarrow>
     ('d, 'm) RocksDBStateMachine \<Rightarrow> Response ores \<times> ('d, 'm) RocksDBStateMachine" where
  "rocks_apply_entry R B A M g e m =
     (case payload e of
        Normal req \<Rightarrow>
          (case KV_CF g of
             None \<Rightarrow> (SOk \<lparr>result = bstr ''OK''\<rparr>, m)
           | Some kv_cf \<Rightarrow>
               (case operation_deserialize B (operation_bytes req) of
                  Inr (Set key val) \<Rightarrow>
                    sbind (machine_write (put R (machine_storage m) kv_cf key val) m) (\<lambda>_ m.
                      (SOk \<lparr>result = bstr ''OK''\<rparr>, m))
                | Inr (Del key) \<Rightarrow>
                    sbind (machine_write (delete R (machine_storage m) kv_cf key) m) (\<lambda>_ m.
                      (SOk \<lparr>result = bstr ''OK''\<rparr>, m))
                | Inl err \<Rightarrow> (SErr (machine_read_error (FromOperation err)), m)))
      | Blank \<Rightarrow> (SOk \<lparr>result = []\<rparr>, m)
      | Membership mem \<Rightarrow>
          (let stored = \<lparr>membership_log_id = Some (log_id e), membership = mem\<rparr> in
           sbind (machine_write (put R (machine_storage m) (STATE_CF g) MEMBERSHIP_KEY
                     (encode_to_vec (membership_coding M) (from_membership A stored))) m) (\<lambda>_ m.
             (SOk \<lparr>result = []\<rparr>, m\<lparr>cached_membership := stored\<rparr>))))"

fun rocks_apply_entries ::
    "('d, 'i) rocksdb \<Rightarrow> Operation bincode \<Rightarrow> ('vote, 'm) openraft_api \<Rightarrow> messages \<Rightarrow> RaftGroup \<Rightarrow> 'm Entry list \<Rightarrow>
     Response list \<Rightarrow> ('d, 'm) RocksDBStateMachine \<Rightarrow> Response list ores \<times> ('d, 'm) RocksDBStateMachine" where
  "rocks_apply_entries R B A M g [] responses m = (SOk responses, m)"
| "rocks_apply_entries R B A M g (e # es) responses m =
     sbind (rocks_apply_entry R B A M g e m) (\<lambda>response m.
       rocks_apply_entries R B A M g es (responses @ [response]) m)"

definition rocks_apply ::
    "('d, 'i) rocksdb \<Rightarrow> Operation bincode \<Rightarrow> ('vote, 'm) openraft_api \<Rightarrow> messages \<Rightarrow> RaftGroup \<Rightarrow> 'm Entry list \<Rightarrow>
     ('d, 'm) RocksDBStateMachine \<Rightarrow> Response list ores \<times> ('d, 'm) RocksDBStateMachine" where
  "rocks_apply R B A M g entries m =
     sbind (rocks_apply_entries R B A M g entries [] m) (\<lambda>responses m.
       if entries = [] then (SOk responses, m)
       else let lid = log_id (last entries) in
         sbind (machine_write (put R (machine_storage m) (STATE_CF g) APPLIED_KEY
                   (encode_to_vec (log_id_coding M) (from_log_id lid))) m) (\<lambda>_ m.
           (SOk responses, m\<lparr>cached_applied := Some lid\<rparr>)))"

section \<open>Snapshots\<close>

definition rocks_begin_receiving_snapshot :: "bytes ores" where
  "rocks_begin_receiving_snapshot = SOk []"

definition rocks_install_snapshot ::
    "('d, 'i) rocksdb \<Rightarrow> ('vote, 'm) openraft_api \<Rightarrow> messages \<Rightarrow> (bytes \<Rightarrow> bool) \<Rightarrow> RaftGroup \<Rightarrow> 'm SnapshotMeta \<Rightarrow> bytes \<Rightarrow>
     ('d, 'm) RocksDBStateMachine \<Rightarrow> unit ores \<times> ('d, 'm) RocksDBStateMachine" where
  "rocks_install_snapshot R A M path_exists g mt bs m =
     (if snapshot_id mt = [] then (SErr (StorageIO Subject_Snapshot Verb_Read (Inl ''Empty snapshot ID'')), m)
      else if \<not> path_exists (snapshot_id mt) then
        (SErr (StorageIO Subject_Snapshot Verb_Read (Inl ''Checkpoint directory does not exist'')), m)
      else if bs = [] then (SErr (StorageIO Subject_Snapshot Verb_Read (Inl ''Empty snapshot data'')), m)
      else
        sbind (case snap_last_log_id mt of
                 None \<Rightarrow> (SOk (), m)
               | Some lid \<Rightarrow>
                   sbind (machine_write (put R (machine_storage m) (STATE_CF g) APPLIED_KEY
                             (encode_to_vec (log_id_coding M) (from_log_id lid))) m) (\<lambda>_ m.
                     (SOk (), m\<lparr>cached_applied := Some lid\<rparr>))) (\<lambda>_ m.
        sbind (machine_write (put R (machine_storage m) (STATE_CF g) MEMBERSHIP_KEY
                  (encode_to_vec (membership_coding M) (from_membership A (snap_last_membership mt)))) m) (\<lambda>_ m.
          (SOk (), m\<lparr>cached_membership := snap_last_membership mt,
                     current_snapshot := Some \<lparr>meta = mt, snapshot_data = bs\<rparr>\<rparr>))))"

definition rocks_get_current_snapshot :: "('d, 'm) RocksDBStateMachine \<Rightarrow> 'm Snapshot option ores" where
  "rocks_get_current_snapshot m = SOk (current_snapshot m)"

definition rocks_get_snapshot_builder ::
    "nat option \<Rightarrow> ('d, 'm) RocksDBStateMachine \<Rightarrow> 'd RocksDBSnapshotBuilder ores" where
  "rocks_get_snapshot_builder now m = snapshot_builder_new now (machine_storage m)"

end
