(* ===== verification/Rocks_Machine_Props.thy ===== *)
theory Rocks_Machine_Props
  imports Rocks_Machine Entry_Ops
begin

text \<open>
  What applying entries does to the database: each entry is a list of writes, a batch is their
  concatenation, and the contents afterwards are those of the key-value map of the operations. A
  crash inside a batch loses the record of what was applied but not the writes; applying the batch
  again gives the same contents.
\<close>

section \<open>Sequences of writes\<close>

fun written_at :: "string \<Rightarrow> bytes \<Rightarrow> rocks_op \<Rightarrow> bytes option option" where
  "written_at cf k (RocksPut cf' k' v) = (if cf' = cf \<and> k' = k then Some (Some v) else None)"
| "written_at cf k (RocksDelete cf' k') = (if cf' = cf \<and> k' = k then Some None else None)"

fun last_write_at :: "string \<Rightarrow> bytes \<Rightarrow> rocks_op list \<Rightarrow> bytes option option" where
  "last_write_at cf k [] = None"
| "last_write_at cf k (w # ws) = (case last_write_at cf k ws of Some v \<Rightarrow> Some v | None \<Rightarrow> written_at cf k w)"

lemma op_effect_at: "op_effect w m cf k = (case written_at cf k w of Some v \<Rightarrow> v | None \<Rightarrow> m cf k)"
  by (cases w) auto

lemma fold_op_effect_at:
  "fold op_effect ws m cf k = (case last_write_at cf k ws of Some v \<Rightarrow> v | None \<Rightarrow> m cf k)"
  by (induction ws arbitrary: m) (auto simp: op_effect_at split: option.split)

lemma last_write_at_append:
  "last_write_at cf k (ws @ ws') = (case last_write_at cf k ws' of Some v \<Rightarrow> Some v | None \<Rightarrow> last_write_at cf k ws)"
  by (induction ws) (auto split: option.split)

text \<open>Writes that have begun may be done again from the start.\<close>

lemma rewrite_prefix: "fold op_effect (ws @ ws') (fold op_effect ws m) = fold op_effect (ws @ ws') m"
  by (intro ext) (simp add: fold_op_effect_at last_write_at_append split: option.split)

section \<open>The writes of an entry\<close>

fun operation_write :: "Operation \<Rightarrow> rocks_op" where
  "operation_write (Set k v) = RocksPut (as_str DataKv) k v"
| "operation_write (Del k) = RocksDelete (as_str DataKv) k"

definition entry_writes ::
    "Operation bincode \<Rightarrow> ('vote, 'm) openraft_api \<Rightarrow> messages \<Rightarrow> 'm Entry \<Rightarrow> rocks_op list" where
  "entry_writes B A M e = map operation_write (entry_ops B e) @
     (case payload e of
        Membership mem \<Rightarrow> [RocksPut (as_str DataRaftState) MEMBERSHIP_KEY (encode_to_vec (membership_coding M)
          (from_membership A \<lparr>membership_log_id = Some (log_id e), membership = mem\<rparr>))]
      | _ \<Rightarrow> [])"

abbreviation batch_writes ::
    "Operation bincode \<Rightarrow> ('vote, 'm) openraft_api \<Rightarrow> messages \<Rightarrow> 'm Entry list \<Rightarrow> rocks_op list" where
  "batch_writes B A M es \<equiv> concat (map (entry_writes B A M) es)"

lemma machine_put:
  assumes "rocks_ok R store cursor" "handles_ok R (db (machine_storage m))"
  obtains d where "machine_write (put R (machine_storage m) cf k v) m =
      (SOk (), m\<lparr>machine_storage := (machine_storage m)\<lparr>db := d\<rparr>\<rparr>)" "handles_ok R d"
    "store d = op_effect (RocksPut (as_str cf) k v) (store (db (machine_storage m)))"
proof -
  obtain d where d: "put R (machine_storage m) cf k v = (SOk (), (machine_storage m)\<lparr>db := d\<rparr>)" "handles_ok R d"
    "store d = op_effect (RocksPut (as_str cf) k v) (store (db (machine_storage m)))"
    using put_spec [OF assms] by blast
  show thesis by (rule that [OF _ d(2,3)]) (simp add: machine_write_def d(1))
qed

lemma machine_delete:
  assumes "rocks_ok R store cursor" "handles_ok R (db (machine_storage m))"
  obtains d where "machine_write (delete R (machine_storage m) cf k) m =
      (SOk (), m\<lparr>machine_storage := (machine_storage m)\<lparr>db := d\<rparr>\<rparr>)" "handles_ok R d"
    "store d = op_effect (RocksDelete (as_str cf) k) (store (db (machine_storage m)))"
proof -
  obtain d where d: "delete R (machine_storage m) cf k = (SOk (), (machine_storage m)\<lparr>db := d\<rparr>)" "handles_ok R d"
    "store d = op_effect (RocksDelete (as_str cf) k) (store (db (machine_storage m)))"
    using delete_spec [OF assms] by blast
  show thesis by (rule that [OF _ d(2,3)]) (simp add: machine_write_def d(1))
qed

lemma apply_entry_spec:
  assumes "rocks_ok R store cursor" "handles_ok R (db (machine_storage m))" "decodable B e"
  obtains m' where "rocks_apply_entry R B A M DataRaft e m = (SOk (entry_response e), m')"
    "handles_ok R (db (machine_storage m'))"
    "store (db (machine_storage m')) = fold op_effect (entry_writes B A M e) (store (db (machine_storage m)))"
proof (cases "payload e")
  case Blank
  show thesis
    by (rule that [of m])
      (use Blank assms(2) in \<open>simp_all add: rocks_apply_entry_def entry_writes_def entry_ops_def entry_response_def\<close>)
next
  case (Normal req)
  then obtain op where op: "operation_deserialize B (operation_bytes req) = Inr op"
    using assms(3) by (auto simp: decodable_def)
  show thesis
  proof (cases op)
    case (Set k v)
    obtain d where d: "machine_write (put R (machine_storage m) DataKv k v) m =
        (SOk (), m\<lparr>machine_storage := (machine_storage m)\<lparr>db := d\<rparr>\<rparr>)" "handles_ok R d"
      "store d = op_effect (RocksPut (as_str DataKv) k v) (store (db (machine_storage m)))"
      using machine_put [OF assms(1,2)] by blast
    show thesis
      by (rule that [of "m\<lparr>machine_storage := (machine_storage m)\<lparr>db := d\<rparr>\<rparr>"])
        (use Normal op Set d in \<open>simp_all add: rocks_apply_entry_def entry_writes_def entry_ops_def entry_response_def\<close>)
  next
    case (Del k)
    obtain d where d: "machine_write (delete R (machine_storage m) DataKv k) m =
        (SOk (), m\<lparr>machine_storage := (machine_storage m)\<lparr>db := d\<rparr>\<rparr>)" "handles_ok R d"
      "store d = op_effect (RocksDelete (as_str DataKv) k) (store (db (machine_storage m)))"
      using machine_delete [OF assms(1,2)] by blast
    show thesis
      by (rule that [of "m\<lparr>machine_storage := (machine_storage m)\<lparr>db := d\<rparr>\<rparr>"])
        (use Normal op Del d in \<open>simp_all add: rocks_apply_entry_def entry_writes_def entry_ops_def entry_response_def\<close>)
  qed
next
  case (Membership mem)
  let ?v = "encode_to_vec (membership_coding M) (from_membership A \<lparr>membership_log_id = Some (log_id e), membership = mem\<rparr>)"
  obtain d where d: "machine_write (put R (machine_storage m) DataRaftState MEMBERSHIP_KEY ?v) m =
      (SOk (), m\<lparr>machine_storage := (machine_storage m)\<lparr>db := d\<rparr>\<rparr>)" "handles_ok R d"
    "store d = op_effect (RocksPut (as_str DataRaftState) MEMBERSHIP_KEY ?v) (store (db (machine_storage m)))"
    using machine_put [OF assms(1,2)] by blast
  show thesis
    by (rule that [of "m\<lparr>machine_storage := (machine_storage m)\<lparr>db := d\<rparr>,
          cached_membership := \<lparr>membership_log_id = Some (log_id e), membership = mem\<rparr>\<rparr>"])
      (use Membership d in \<open>simp_all add: rocks_apply_entry_def entry_writes_def entry_ops_def entry_response_def Let_def\<close>)
qed

lemma apply_entries_spec:
  assumes "rocks_ok R store cursor"
  shows "handles_ok R (db (machine_storage m)) \<Longrightarrow> list_all (decodable B) es \<Longrightarrow>
    \<exists>m'. rocks_apply_entries R B A M DataRaft es acc m = (SOk (acc @ map entry_response es), m') \<and>
      handles_ok R (db (machine_storage m')) \<and>
      store (db (machine_storage m')) = fold op_effect (batch_writes B A M es) (store (db (machine_storage m)))"
proof (induction es arbitrary: m acc)
  case (Cons e es)
  then obtain m1 where m1: "rocks_apply_entry R B A M DataRaft e m = (SOk (entry_response e), m1)"
    "handles_ok R (db (machine_storage m1))"
    "store (db (machine_storage m1)) = fold op_effect (entry_writes B A M e) (store (db (machine_storage m)))"
    using apply_entry_spec [OF assms Cons.prems(1)] by (metis list.pred_inject(2))
  then show ?case using Cons.IH [OF m1(2), of "acc @ [entry_response e]"] Cons.prems(2) by auto
qed simp

lemma apply_spec:
  assumes "rocks_ok R store cursor" "handles_ok R (db (machine_storage m))" "list_all (decodable B) es" "es \<noteq> []"
  obtains m' where "rocks_apply R B A M DataRaft es m = (SOk (map entry_response es), m')"
    "handles_ok R (db (machine_storage m'))"
    "store (db (machine_storage m')) = fold op_effect (batch_writes B A M es @
       [RocksPut (as_str DataRaftState) APPLIED_KEY (encode_to_vec (log_id_coding M) (from_log_id (log_id (last es))))])
       (store (db (machine_storage m)))"
proof -
  obtain m1 where m1: "rocks_apply_entries R B A M DataRaft es [] m = (SOk (map entry_response es), m1)"
    "handles_ok R (db (machine_storage m1))"
    "store (db (machine_storage m1)) = fold op_effect (batch_writes B A M es) (store (db (machine_storage m)))"
    using apply_entries_spec [OF assms(1-3), of A M "[]"] by auto
  let ?v = "encode_to_vec (log_id_coding M) (from_log_id (log_id (last es)))"
  obtain d where d: "machine_write (put R (machine_storage m1) DataRaftState APPLIED_KEY ?v) m1 =
      (SOk (), m1\<lparr>machine_storage := (machine_storage m1)\<lparr>db := d\<rparr>\<rparr>)" "handles_ok R d"
    "store d = op_effect (RocksPut (as_str DataRaftState) APPLIED_KEY ?v) (store (db (machine_storage m1)))"
    using machine_put [OF assms(1) m1(2)] by blast
  show thesis
    by (rule that [of "m1\<lparr>machine_storage := (machine_storage m1)\<lparr>db := d\<rparr>,
          cached_applied := Some (log_id (last es))\<rparr>"])
      (use m1 d assms(4) in \<open>simp_all add: rocks_apply_def Let_def\<close>)
qed

text \<open>The key-value family sees the operations of the batch and nothing else.\<close>

lemma kv_of_writes:
  "fold op_effect (batch_writes B A M es) m (as_str DataKv) =
     fold (\<lambda>op s. snd (operation_apply op s)) (concat (map (entry_ops B) es)) (m (as_str DataKv))"
proof -
  have op: "op_effect (operation_write op) m (as_str DataKv) = snd (operation_apply op (m (as_str DataKv)))" for op m
    by (cases op) (simp_all add: fun_eq_iff)
  have ops: "fold op_effect (map operation_write ops) m (as_str DataKv) =
      fold (\<lambda>op s. snd (operation_apply op s)) ops (m (as_str DataKv))" for ops m
    by (induction ops arbitrary: m) (simp_all add: op del: as_str.simps)
  have "fold op_effect (entry_writes B A M e) m (as_str DataKv) =
      fold (\<lambda>op s. snd (operation_apply op s)) (entry_ops B e) (m (as_str DataKv))" for e m
    by (cases "payload e") (simp_all add: entry_writes_def entry_ops_def ops [simplified])
  then show ?thesis by (induction es arbitrary: m) simp_all
qed

text \<open>Other keys are left alone, but for the membership.\<close>

lemma other_writes:
  assumes "cf \<noteq> as_str DataKv" "cf = as_str DataRaftState \<Longrightarrow> k \<noteq> MEMBERSHIP_KEY"
  shows "last_write_at cf k (batch_writes B A M es) = None"
proof (induction es)
  case (Cons e es)
  have "last_write_at cf k (map operation_write ops) = None" for ops
  proof (induction ops)
    case (Cons op ops)
    then show ?case using assms(1) by (cases op) auto
  qed simp
  then have "last_write_at cf k (entry_writes B A M e) = None"
    using assms(2) by (cases "payload e") (auto simp: entry_writes_def last_write_at_append)
  with Cons show ?case by (simp add: last_write_at_append)
qed simp

lemma applied_of_writes:
  "last_write_at (as_str DataRaftState) APPLIED_KEY (batch_writes B A M es) = None"
  by (rule other_writes) (simp_all add: APPLIED_KEY_def MEMBERSHIP_KEY_def bstr_def)

lemma applied_kv:
  assumes "rocks_ok R store cursor" "handles_ok R (db (machine_storage m))" "list_all (decodable B) es" "es \<noteq> []"
    "rocks_apply R B A M DataRaft es m = (r, m')"
  shows "r = SOk (map entry_response es)" "handles_ok R (db (machine_storage m'))"
    "store (db (machine_storage m')) (as_str DataKv) =
       fold (\<lambda>op s. snd (operation_apply op s)) (entries_ops B es) (store (db (machine_storage m)) (as_str DataKv))"
    "store (db (machine_storage m')) (as_str DataRaftState) APPLIED_KEY =
       Some (encode_to_vec (log_id_coding M) (from_log_id (log_id (last es))))"
    "store (db (machine_storage m')) (as_str DataRaftLog) = store (db (machine_storage m)) (as_str DataRaftLog)"
proof -
  let ?a = "RocksPut (as_str DataRaftState) APPLIED_KEY (encode_to_vec (log_id_coding M) (from_log_id (log_id (last es))))"
  have rs: "r = SOk (map entry_response es)" "handles_ok R (db (machine_storage m'))"
    "store (db (machine_storage m')) = fold op_effect (batch_writes B A M es @ [?a]) (store (db (machine_storage m)))"
    using apply_spec [OF assms(1-4), of A M] assms(5) by (metis prod.inject)+
  then show "r = SOk (map entry_response es)" "handles_ok R (db (machine_storage m'))" by blast+
  show "store (db (machine_storage m')) (as_str DataKv) =
      fold (\<lambda>op s. snd (operation_apply op s)) (entries_ops B es) (store (db (machine_storage m)) (as_str DataKv))"
    unfolding rs(3) by (simp add: kv_of_writes [simplified])
  show "store (db (machine_storage m')) (as_str DataRaftState) APPLIED_KEY =
      Some (encode_to_vec (log_id_coding M) (from_log_id (log_id (last es))))"
    unfolding rs(3) by simp
  show "store (db (machine_storage m')) (as_str DataRaftLog) = store (db (machine_storage m)) (as_str DataRaftLog)"
    unfolding rs(3) by (simp add: fun_eq_iff fold_op_effect_at other_writes [of "as_str DataRaftLog", simplified])
qed

lemma read_applied_spec:
  assumes "rocks_ok R store cursor" "handles_ok R (db s)" "messages_ok M"
    "store (db s) (as_str (STATE_CF g)) APPLIED_KEY = map_option (\<lambda>l. encode_to_vec (log_id_coding M) (from_log_id l)) lid"
  shows "read_applied R M g s = SOk lid"
  using assms by (cases lid) (simp_all add: read_applied_def get_spec messages_ok_def prost_ok_def)

section \<open>Properties\<close>

text \<open>Applying a batch of entries whose operations decode succeeds, answers every operation with OK and every other entry with nothing; every
  key of the key-value family then holds what the last operation on it left there, keys no
  operation names keep their values, and the log id of the last entry is recorded as applied, so
  that it is still known after a restart.\<close>

theorem rocks_apply_batch:
  assumes "rocks_ok R store cursor" "handles_ok R (db (machine_storage m))" "messages_ok M"
    "list_all (decodable B) es" "es \<noteq> []" "rocks_apply R B A M DataRaft es m = (r, m')"
  shows "r = SOk (map entry_response es) \<and>
    store (db (machine_storage m')) (as_str DataKv) k =
      (case last_write k (concat (map (entry_ops B) es)) of
         Some w \<Rightarrow> w | None \<Rightarrow> store (db (machine_storage m)) (as_str DataKv) k) \<and>
    read_applied R M DataRaft (machine_storage m') = SOk (Some (log_id (last es)))"
  using applied_kv(1,3) [OF assms(1,2,4-6)]
    read_applied_spec [OF assms(1) applied_kv(2) [OF assms(1,2,4-6)] assms(3), of DataRaft "Some (log_id (last es))"]
    applied_kv(4) [OF assms(1,2,4-6)]
  by (simp add: hashmap.lookup_fold split: option.split)

definition example_machine :: "(rocks_op list, u64 list \<times> u64 list) RocksDBStateMachine" where
  "example_machine = machine_new pair_api fresh_storage"

definition example_batch :: "(u64 list \<times> u64 list) Entry list" where
  "example_batch =
     [\<lparr>log_id = log_id_new 1 1 1, payload = Normal \<lparr>operation_bytes = [0, 7, 8]\<rparr>\<rparr>,
      \<lparr>log_id = log_id_new 1 1 2, payload = Membership ([1, 2], [3])\<rparr>,
      \<lparr>log_id = log_id_new 2 1 3, payload = Normal \<lparr>operation_bytes = [1, 7]\<rparr>\<rparr>]"

lemma example_machine_ok: "handles_ok log_db (db (machine_storage example_machine))"
  using fresh_handles_ok by (simp add: example_machine_def machine_new_def fresh_log_def log_storage_new_def)

lemma example_batch_ok: "list_all (decodable sample_bincode) example_batch" "example_batch \<noteq> []"
  by (simp_all add: example_batch_def decodable_def operation_deserialize_def MAX_OPERATION_SIZE_def
      sample_bincode_def map_bincode_err_def)

lemma example_batch_last: "log_id (last example_batch) = log_id_new 2 1 3"
  by (simp add: example_batch_def)

lemma example_batch_ops: "concat (map (entry_ops sample_bincode) example_batch) = [Set [7] [8], Del [7]]"
  by (simp add: example_batch_def entry_ops_def operation_deserialize_def MAX_OPERATION_SIZE_def
      sample_bincode_def map_bincode_err_def)

theorem rocks_apply_batch_witness:
  "read_applied log_db comma_messages DataRaft (machine_storage (snd (rocks_apply log_db sample_bincode pair_api
     comma_messages DataRaft example_batch example_machine))) = SOk (Some (log_id_new 2 1 3)) \<and>
   log_db_store (db (machine_storage (snd (rocks_apply log_db sample_bincode pair_api
     comma_messages DataRaft example_batch example_machine)))) (as_str DataKv) [7] = None"
  using rocks_apply_batch [OF log_db_ok example_machine_ok comma_messages_ok example_batch_ok, of pair_api
      "fst (rocks_apply log_db sample_bincode pair_api comma_messages DataRaft example_batch example_machine)"
      "snd (rocks_apply log_db sample_bincode pair_api comma_messages DataRaft example_batch example_machine)" "[7]"]
  by (simp add: example_batch_last example_batch_ops)

text \<open>A crash while a batch is applied does no harm. If the process stops after any number of entries,
  before the applied log id is recorded, the record still shows what it showed before the batch, and
  applying the whole batch to the reopened machine gives the same database as applying it once.\<close>

theorem crash_replay_same_database:
  assumes "rocks_ok R store cursor" "handles_ok R (db (machine_storage m))"
    "list_all (decodable B) (pre @ post)" "pre @ post \<noteq> []"
    "rocks_apply_entries R B A M DataRaft pre [] m = (r1, m1)"
    "rocks_apply R B A M DataRaft (pre @ post) (machine_new A (machine_storage m1)) = (r2, m2)"
    "rocks_apply R B A M DataRaft (pre @ post) m = (r, m')"
  shows "store (db (machine_storage m2)) = store (db (machine_storage m')) \<and> r2 = r \<and>
    store (db (machine_storage m1)) (as_str DataRaftState) APPLIED_KEY =
      store (db (machine_storage m)) (as_str DataRaftState) APPLIED_KEY"
proof -
  let ?a = "RocksPut (as_str DataRaftState) APPLIED_KEY
    (encode_to_vec (log_id_coding M) (from_log_id (log_id (last (pre @ post)))))"
  have pre: "list_all (decodable B) pre" using assms(3) by simp
  have m1: "handles_ok R (db (machine_storage m1))"
    "store (db (machine_storage m1)) = fold op_effect (batch_writes B A M pre) (store (db (machine_storage m)))"
    using apply_entries_spec [OF assms(1,2) pre, of A M "[]"] assms(5) by auto
  have h: "handles_ok R (db (machine_storage (machine_new A (machine_storage m1))))"
    using m1(1) by (simp add: machine_new_def)
  have 2: "r2 = SOk (map entry_response (pre @ post))"
    "store (db (machine_storage m2)) = fold op_effect (batch_writes B A M (pre @ post) @ [?a])
       (store (db (machine_storage (machine_new A (machine_storage m1)))))"
    using apply_spec [OF assms(1) h assms(3,4), of A M] assms(6) by (metis prod.inject)+
  have 3: "r = SOk (map entry_response (pre @ post))"
    "store (db (machine_storage m')) = fold op_effect (batch_writes B A M (pre @ post) @ [?a]) (store (db (machine_storage m)))"
    using apply_spec [OF assms(1,2,3,4), of A M] assms(7) by (metis prod.inject)+
  have "store (db (machine_storage m2)) = store (db (machine_storage m'))"
    using rewrite_prefix [of "batch_writes B A M pre" "batch_writes B A M post @ [?a]"]
    unfolding 2(2) 3(2) by (simp add: machine_new_def m1(2))
  moreover have "store (db (machine_storage m1)) (as_str DataRaftState) APPLIED_KEY =
      store (db (machine_storage m)) (as_str DataRaftState) APPLIED_KEY"
    unfolding m1(2) by (simp only: fold_op_effect_at applied_of_writes option.case)
  ultimately show ?thesis using 2(1) 3(1) by simp
qed

theorem crash_replay_same_database_witness:
  "log_db_store (db (machine_storage (snd (rocks_apply log_db sample_bincode pair_api comma_messages DataRaft example_batch
      (machine_new pair_api (machine_storage (snd (rocks_apply_entries log_db sample_bincode pair_api comma_messages DataRaft
        (take 1 example_batch) [] example_machine)))))))) =
   log_db_store (db (machine_storage (snd (rocks_apply log_db sample_bincode pair_api comma_messages DataRaft
     example_batch example_machine))))"
  using crash_replay_same_database [OF log_db_ok example_machine_ok, of sample_bincode "take 1 example_batch"
      "drop 1 example_batch", unfolded append_take_drop_id, OF example_batch_ok surjective_pairing surjective_pairing
      surjective_pairing] by blast

text \<open>Installing a snapshot moves no data. Whatever the snapshot holds, only the state family is written:
  the key-value pairs stay as they were, while the log id of the snapshot is recorded as applied.\<close>

theorem rocks_snapshot_moves_no_data:
  assumes "rocks_ok R store cursor" "handles_ok R (db (machine_storage m))" "messages_ok M"
    "snap_last_log_id mt = Some lid" "rocks_install_snapshot R A M path_exists g mt bs m = (SOk (), m')"
    "cf \<noteq> STATE_CF g"
  shows "store (db (machine_storage m')) (as_str cf) = store (db (machine_storage m)) (as_str cf) \<and>
    read_applied R M g (machine_storage m') = SOk (Some lid)"
proof -
  let ?v = "encode_to_vec (log_id_coding M) (from_log_id lid)"
  let ?w = "encode_to_vec (membership_coding M) (from_membership A (snap_last_membership mt))"
  obtain d1 where d1: "machine_write (put R (machine_storage m) (STATE_CF g) APPLIED_KEY ?v) m =
      (SOk (), m\<lparr>machine_storage := (machine_storage m)\<lparr>db := d1\<rparr>\<rparr>)" "handles_ok R d1"
    "store d1 = op_effect (RocksPut (as_str (STATE_CF g)) APPLIED_KEY ?v) (store (db (machine_storage m)))"
    using machine_put [OF assms(1,2)] by blast
  let ?m1 = "m\<lparr>machine_storage := (machine_storage m)\<lparr>db := d1\<rparr>, cached_applied := Some lid\<rparr>"
  have h: "handles_ok R (db (machine_storage ?m1))" using d1(2) by simp
  obtain d where d: "machine_write (put R (machine_storage ?m1) (STATE_CF g) MEMBERSHIP_KEY ?w) ?m1 =
      (SOk (), ?m1\<lparr>machine_storage := (machine_storage ?m1)\<lparr>db := d\<rparr>\<rparr>)" "handles_ok R d"
    "store d = op_effect (RocksPut (as_str (STATE_CF g)) MEMBERSHIP_KEY ?w) (store (db (machine_storage ?m1)))"
    using machine_put [OF assms(1) h] by blast
  have m': "machine_storage m' = (machine_storage m)\<lparr>db := d\<rparr>"
    using assms(4,5) d1(1) d(1) by (auto simp: rocks_install_snapshot_def split: if_splits)
  have "APPLIED_KEY \<noteq> MEMBERSHIP_KEY" by (simp add: APPLIED_KEY_def MEMBERSHIP_KEY_def bstr_def)
  then have "read_applied R M g (machine_storage m') = SOk (Some lid)"
    using d(2,3) d1(3) m' by (intro read_applied_spec [OF assms(1) _ assms(3)]) simp_all
  then show ?thesis using assms(6) d(3) d1(3) m' as_str_inj by simp
qed

theorem rocks_snapshot_moves_no_data_witness:
  "read_applied log_db comma_messages DataRaft (machine_storage (snd (rocks_install_snapshot log_db pair_api comma_messages
     (\<lambda>_. True) DataRaft \<lparr>snap_last_log_id = Some (log_id_new 1 1 9), snap_last_membership = default_membership ([], []),
       snapshot_id = [1]\<rparr> [1] example_machine))) = SOk (Some (log_id_new 1 1 9))"
proof -
  let ?mt = "\<lparr>snap_last_log_id = Some (log_id_new 1 1 9), snap_last_membership = default_membership ([], []),
    snapshot_id = [1]\<rparr> :: (u64 list \<times> u64 list) SnapshotMeta"
  let ?r = "rocks_install_snapshot log_db pair_api comma_messages (\<lambda>_. True) DataRaft ?mt [1] example_machine"
  have "fst ?r = SOk ()"
    by (simp add: rocks_install_snapshot_def machine_write_def put_def get_cf_handle_def log_db_def all_cfs_def)
  then have "?r = (SOk (), snd ?r)" by (metis prod.collapse)
  then show ?thesis
    using rocks_snapshot_moves_no_data [OF log_db_ok example_machine_ok comma_messages_ok, of ?mt "log_id_new 1 1 9"
        pair_api "\<lambda>_. True" DataRaft "[1]" "snd ?r" DataKv] by simp
qed

end
