(* ===== verification/Replication.thy ===== *)
theory Replication
  imports Openraft_Mem_Apply Rocks_Machine_Props
begin

text \<open>
  How the components work together: the two state machines that can stand behind a Raft node hold
  the same data after the same entries, and entries that went through the RocksDB log and back have
  the effect of the entries appended, while applying them leaves the log in the same database alone.
\<close>

section \<open>Two state machines\<close>

text \<open>C30: the in-memory state machine and the RocksDB state machine agree. If they hold the same
  key-value pairs and are given the same entries, at indices the first has not seen, both accept
  them and hold the same pairs again. Their answers are the same exactly when the entries delete
  nothing: RocksDB answers a deletion with OK, the other with the number of keys it removed.\<close>

theorem stores_agree:
  assumes "rocks_ok R store cursor" "handles_ok R (db (machine_storage m))" "mem_sm_ok s"
    "list_all (decodable B) es" "es \<noteq> []"
    "sorted_wrt (<) (last_applied (lock_value (sm s)) # map fst (normals es))"
    "store (db (machine_storage m)) (as_str DataKv) = kv_lookup s"
    "rocks_apply R B A M DataRaft es m = (r, m')" "mem_apply B s es = (q, s')"
  shows "store (db (machine_storage m')) (as_str DataKv) = kv_lookup s' \<and>
    (\<exists>rs rs'. r = SOk rs \<and> q = Inr rs' \<and> (rs = rs' \<longleftrightarrow> (\<forall>op \<in> set (entries_ops B es). \<not> is_del op)))"
proof -
  let ?w = "\<lambda>ops. fold (\<lambda>op s. snd (operation_apply op s)) ops"
  have kv: "r = SOk (map entry_response es)" "store (db (machine_storage m')) (as_str DataKv) =
      ?w (entries_ops B es) (store (db (machine_storage m)) (as_str DataKv))"
    using applied_kv [OF assms(1,2,4,5,8)] by blast+
  obtain sm' where sm': "apply_entries B es (lock_value (sm s)) = (Inr (answers B es (data (lock_value (sm s)))), sm')"
    "data sm' = ?w (entries_ops B es) (data (lock_value (sm s)))"
    using apply_entries_decodable [OF assms(4,6)] by blast
  then have mem: "q = Inr (answers B es (data (lock_value (sm s))))" "data (lock_value (sm s')) = data sm'"
    using assms(3,9) by (auto simp: mem_apply_def mem_sm_ok_def)
  have "kv_lookup s = data (lock_value (sm s))" "kv_lookup s' = data (lock_value (sm s'))"
    by (simp_all add: fun_eq_iff sm_get_def)
  then show ?thesis
    using kv mem sm'(2) assms(7) answers_OK_iff [OF assms(4), of "data (lock_value (sm s))"] by auto
qed

theorem stores_agree_witness:
  "log_db_store (db (machine_storage (snd (rocks_apply log_db sample_bincode pair_api comma_messages DataRaft
     example_batch example_machine)))) (as_str DataKv) =
   kv_lookup (snd (mem_apply sample_bincode (mem_sm_new ([], [])) example_batch)) \<and>
   fst (rocks_apply log_db sample_bincode pair_api comma_messages DataRaft example_batch example_machine) \<noteq>
   SOk (projr (fst (mem_apply sample_bincode (mem_sm_new ([], [])) example_batch)))"
proof -
  let ?r = "rocks_apply log_db sample_bincode pair_api comma_messages DataRaft example_batch example_machine"
  let ?q = "mem_apply sample_bincode (mem_sm_new ([], [])) example_batch"
  have "log_db_store (db (machine_storage example_machine)) (as_str DataKv) = kv_lookup (mem_sm_new ([], []))"
    by (simp add: fun_eq_iff sm_get_def mem_sm_new_def sm_new_def example_machine_def machine_new_def
        fresh_storage_def log_db_store_def log_db_pairs_def)
  moreover have "sorted_wrt (<) (last_applied (lock_value (sm (mem_sm_new ([], [])))) # map fst (normals example_batch))"
    by (simp add: example_batch_def mem_sm_new_def sm_new_def)
  ultimately show ?thesis
    using stores_agree [OF log_db_ok example_machine_ok mem_sm_ok_new example_batch_ok, of "([], [])" pair_api
        comma_messages "fst ?r" "snd ?r" "fst ?q" "snd ?q"]
    by (auto simp: example_batch_ops is_del_def)
qed

section \<open>From the log to the state machine\<close>

lemma entry_ops_as_read: "entry_ops B (as_read A lid e) = entry_ops B e"
  by (cases "payload e") (simp_all add: entry_ops_def as_read_def)

lemma decodable_as_read: "decodable B (as_read A lid e) = decodable B e"
  by (cases "payload e") (simp_all add: decodable_def as_read_def)

lemma entry_response_as_read: "entry_response (as_read A lid e) = entry_response e"
  by (cases "payload e") (simp_all add: entry_response_def as_read_def)

lemmas as_read_simps = entry_ops_as_read decodable_as_read entry_response_as_read

lemma last_as_read: "es \<noteq> [] \<Longrightarrow> log_id (last (map (as_read A (log_id (last es))) es)) = log_id (last es)"
  by (simp add: last_map as_read_def)

text \<open>The way of a batch through a node on RocksDB. Entries are appended to the log, read back from
  it and applied to the state machine on the same database. The reading and the applying succeed,
  every key holds what the last of the operations appended wrote to it, the last entry is recorded
  as applied, and the log still returns the same entries.\<close>

theorem log_to_machine:
  assumes "rocks_ok R store cursor" "handles_ok R (db (storage ls))" "messages_ok M"
    "length es \<le> MAX_BATCH_OPERATIONS" "es \<noteq> []" "consecutive es" "list_all (decodable B) es"
    "rocks_append R A M DataRaft ls es = (r, cb, ls')" "machine_storage m = storage ls'"
  shows "\<exists>es' m'. read_span R A M DataRaft ls' es = SOk es' \<and>
    rocks_apply R B A M DataRaft es' m = (SOk (map entry_response es), m') \<and>
    (\<forall>k. store (db (machine_storage m')) (as_str DataKv) k =
      (case last_write k (entries_ops B es) of Some w \<Rightarrow> w | None \<Rightarrow> store (db (storage ls)) (as_str DataKv) k)) \<and>
    read_applied R M DataRaft (machine_storage m') = SOk (Some (log_id (last es))) \<and>
    read_span R A M DataRaft (ls'\<lparr>storage := machine_storage m'\<rparr>) es = SOk es'"
proof -
  let ?es = "map (as_read A (log_id (last es))) es" and ?kv = "as_str DataKv"
  obtain d where d: "rocks_append R A M DataRaft ls es = (SOk (), Some (Inr ()), ls\<lparr>storage := (storage ls)\<lparr>db := d,
       last_log_index_cache := (last_log_index_cache (storage ls))(LOG_CF DataRaft \<mapsto> index (log_id (last es)))\<rparr>\<rparr>)"
    "handles_ok R d"
    "store d = (store (db (storage ls)))(as_str (LOG_CF DataRaft) :=
       (store (db (storage ls)) (as_str (LOG_CF DataRaft)) ++ map_of (rev (map (\<lambda>e. (entry_key e, entry_bytes A M e)) es)))
         (LAST_LOG_ID_KEY \<mapsto> encode_to_vec (log_id_coding M) (from_log_id (log_id (last es)))))"
    using rocks_append_spec [OF assms(1,2,4,5)] by blast
  have ls': "db (storage ls') = d" using assms(8) d(1) by auto
  then have m: "handles_ok R (db (machine_storage m))" "store (db (machine_storage m)) = store d"
    using assms(9) d(2) by simp_all
  have dec: "list_all (decodable B) ?es" "?es \<noteq> []"
    using assms(5,7) by (simp_all add: list.pred_map comp_def decodable_as_read)
  obtain r' m' where run: "rocks_apply R B A M DataRaft ?es m = (r', m')" by fastforce
  note applied = applied_kv [OF assms(1) m(1) dec run]
  have ops: "entries_ops B ?es = entries_ops B es" "map entry_response ?es = map entry_response es"
    by (simp_all add: comp_def as_read_simps)
  have kv: "store (db (machine_storage m')) ?kv k =
      (case last_write k (entries_ops B es) of Some w \<Rightarrow> w | None \<Rightarrow> store (db (storage ls)) ?kv k)" for k
    using applied(3) hashmap.lookup_fold [of "entries_ops B es" "store (db (storage ls)) ?kv" k]
    unfolding ops(1) m(2) d(3) by simp
  have "read_applied R M DataRaft (machine_storage m') = SOk (Some (log_id (last es)))"
    using applied(4) unfolding last_as_read [OF assms(5)]
    by (intro read_applied_spec [OF assms(1) applied(2) assms(3)]) simp
  moreover have "read_span R A M DataRaft ls' es = SOk ?es"
    using d(2,3) ls' by (intro appended_entries_read(2) [OF assms(1) _ assms(3,5,6)]) simp_all
  moreover have "read_span R A M DataRaft (ls'\<lparr>storage := machine_storage m'\<rparr>) es = SOk ?es"
    using applied(2,5) m(2) d(3) by (intro appended_entries_read(2) [OF assms(1) _ assms(3,5,6)]) simp_all
  ultimately show ?thesis using run applied(1) ops(2) kv by auto
qed

definition filled_log :: "(rocks_op list, u64 \<times> u64) RocksDBLogStorage" where
  "filled_log = snd (snd (rocks_append log_db pair_api comma_messages DataRaft fresh_log example_batch))"

theorem log_to_machine_witness:
  "\<exists>es' m'. read_span log_db pair_api comma_messages DataRaft filled_log example_batch = SOk es' \<and>
     rocks_apply log_db sample_bincode pair_api comma_messages DataRaft es'
       (machine_new pair_api (storage filled_log)) = (SOk (map entry_response example_batch), m') \<and>
     log_db_store (db (machine_storage m')) (as_str DataKv) [7] = None \<and>
     read_applied log_db comma_messages DataRaft (machine_storage m') = SOk (Some (log_id_new 2 1 3))"
proof -
  let ?a = "rocks_append log_db pair_api comma_messages DataRaft fresh_log example_batch"
  have batch: "length example_batch \<le> MAX_BATCH_OPERATIONS" "consecutive example_batch"
    by (auto simp: consecutive_def example_batch_def MAX_BATCH_OPERATIONS_def less_Suc_eq nth_Cons')
  have run: "?a = (fst ?a, fst (snd ?a), filled_log)" by (simp add: filled_log_def)
  have "machine_storage (machine_new pair_api (storage filled_log)) = storage filled_log"
    by (simp add: machine_new_def)
  from log_to_machine [OF log_db_ok fresh_handles_ok comma_messages_ok batch(1) example_batch_ok(2) batch(2)
      example_batch_ok(1) run this]
  obtain es' m' where "read_span log_db pair_api comma_messages DataRaft filled_log example_batch = SOk es'"
    "rocks_apply log_db sample_bincode pair_api comma_messages DataRaft es'
       (machine_new pair_api (storage filled_log)) = (SOk (map entry_response example_batch), m')"
    "log_db_store (db (machine_storage m')) (as_str DataKv) [7] = None"
    "read_applied log_db comma_messages DataRaft (machine_storage m') = SOk (Some (log_id (last example_batch)))"
    by (force simp: example_batch_ops)
  then show ?thesis by (auto simp: example_batch_last)
qed

end
