(* ===== verification/Raft_Node.thy ===== *)
theory Raft_Node
  imports Openraft_Mem
begin

text \<open>
  The Raft node of the key-value service, \<open>crates/kv/src/raft_node.rs\<close>. The consensus itself is
  openraft's \<open>Raft\<close>, a parameter (\<open>raft_lib\<close>): validating a configuration, creating an instance,
  initializing it, submitting a write and reading the metrics. Errors of openraft are their
  messages. \<open>wait_for_leader\<close> polls an instance that changes while the node waits; the instance
  and the clock at each poll are arguments, and that a sleep lasts at least as long as asked is the
  hypothesis \<open>clock_ok\<close>.
\<close>

section \<open>Types\<close>

datatype RaftNodeError = NotImplemented | OpenRaft bytes | NodeStorage bytes | NodeInvalidConfig bytes

record 'c RaftConfig =
  heartbeat_interval :: u64
  election_timeout_min :: u64
  election_timeout_max :: u64
  other_settings :: 'c

record RaftMetrics =
  current_leader :: "u64 option"
  current_term :: u64
  metrics_last_applied :: "LogId option"
  last_log_index :: "u64 option"

record StubNetworkFactory =
  stub_node_id :: u64

record ('raft, 'c, 'm, 'vote) raft_lib =
  default_settings :: 'c
  config_validate :: "'c RaftConfig \<Rightarrow> bytes + 'c RaftConfig"
  raft_new :: "u64 \<Rightarrow> 'c RaftConfig \<Rightarrow> StubNetworkFactory \<Rightarrow> ('m, 'vote) OpenRaftMemLog \<Rightarrow>
    'm OpenRaftMemStateMachine \<Rightarrow> bytes + 'raft"
  raft_initialize :: "'raft \<Rightarrow> u64 set \<Rightarrow> (bytes + unit) \<times> 'raft"
  raft_client_write :: "'raft \<Rightarrow> Request \<Rightarrow> (bytes + Response) \<times> 'raft"
  raft_metrics :: "'raft \<Rightarrow> RaftMetrics"
  debug_log_id :: "LogId \<Rightarrow> bytes"

record ('raft, 'm, 'vote) RaftNode =
  rn_node_id :: u64
  raft :: 'raft
  log_storage :: "('m, 'vote) OpenRaftMemLog"
  state_machine :: "'m OpenRaftMemStateMachine"

section \<open>The node\<close>

definition stub_factory_new :: "u64 \<Rightarrow> StubNetworkFactory" where
  "stub_factory_new nid = \<lparr>stub_node_id = nid\<rparr>"

definition node_config :: "('raft, 'c, 'm, 'vote) raft_lib \<Rightarrow> 'c RaftConfig" where
  "node_config L = \<lparr>heartbeat_interval = 500, election_timeout_min = 1500, election_timeout_max = 3000,
     other_settings = default_settings L\<rparr>"

definition node_new ::
    "('raft, 'c, 'm, 'vote) raft_lib \<Rightarrow> 'm \<Rightarrow> u64 \<Rightarrow> u64 list \<Rightarrow> RaftNodeError + ('raft, 'm, 'vote) RaftNode" where
  "node_new L m0 nid peers =
     (case config_validate L (node_config L) of
        Inl e \<Rightarrow> Inl (NodeInvalidConfig e)
      | Inr config \<Rightarrow>
          (case raft_new L nid config (stub_factory_new nid) mem_log_new (mem_sm_new m0) of
             Inl e \<Rightarrow> Inl (OpenRaft e)
           | Inr rf \<Rightarrow>
               (case (if peers = [] then raft_initialize L rf {nid} else (Inr (), rf)) of
                  (Inl e, _) \<Rightarrow> Inl (OpenRaft e)
                | (Inr _, rf) \<Rightarrow>
                    Inr \<lparr>rn_node_id = nid, raft = rf, log_storage = mem_log_new, state_machine = mem_sm_new m0\<rparr>)))"

definition propose ::
    "('raft, 'c, 'm, 'vote) raft_lib \<Rightarrow> ('raft, 'm, 'vote) RaftNode \<Rightarrow> bytes \<Rightarrow>
     (RaftNodeError + bytes) \<times> ('raft, 'm, 'vote) RaftNode" where
  "propose L n bs =
     (case raft_client_write L (raft n) \<lparr>operation_bytes = bs\<rparr> of
        (Inl e, rf) \<Rightarrow> (Inl (OpenRaft (bstr ''client_write failed: '' @ e)), n\<lparr>raft := rf\<rparr>)
      | (Inr response, rf) \<Rightarrow> (Inr (result response), n\<lparr>raft := rf\<rparr>))"

definition is_leader ::
    "('raft, 'c, 'm, 'vote) raft_lib \<Rightarrow> ('raft, 'm, 'vote) RaftNode \<Rightarrow> RaftNodeError + bool" where
  "is_leader L n = Inr (current_leader (raft_metrics L (raft n)) = Some (rn_node_id n))"

definition get_leader_id ::
    "('raft, 'c, 'm, 'vote) raft_lib \<Rightarrow> ('raft, 'm, 'vote) RaftNode \<Rightarrow> RaftNodeError + u64 option" where
  "get_leader_id L n = Inr (current_leader (raft_metrics L (raft n)))"

fun debug_option :: "('a \<Rightarrow> bytes) \<Rightarrow> 'a option \<Rightarrow> bytes" where
  "debug_option f None = bstr ''None''"
| "debug_option f (Some x) = bstr ''Some('' @ f x @ bstr '')''"

definition get_metrics ::
    "('raft, 'c, 'm, 'vote) raft_lib \<Rightarrow> ('raft, 'm, 'vote) RaftNode \<Rightarrow> RaftNodeError + bytes" where
  "get_metrics L n =
     (let metrics = raft_metrics L (raft n) in
      Inr (bstr ''id='' @ dec_string (unat (rn_node_id n)) @
        bstr '' leader='' @ debug_option (\<lambda>w. dec_string (unat w)) (current_leader metrics) @
        bstr '' term='' @ dec_string (unat (current_term metrics)) @
        bstr '' last_applied='' @ debug_option (debug_log_id L) (metrics_last_applied metrics) @
        bstr '' last_log='' @ debug_option (\<lambda>w. dec_string (unat w)) (last_log_index metrics)))"

section \<open>Waiting for leadership\<close>

text \<open>Times are in nanoseconds. \<open>elapsed k\<close> is the time since the start at the \<open>k\<close>-th poll, \<open>rafts k\<close> the
  instance then.\<close>

definition clock_ok :: "(nat \<Rightarrow> nat) \<Rightarrow> bool" where
  "clock_ok elapsed \<longleftrightarrow> (\<forall>k. elapsed k + 10 * 1000000 \<le> elapsed (Suc k))"

partial_function (option) wait_loop ::
    "('raft, 'c, 'm, 'vote) raft_lib \<Rightarrow> ('raft, 'm, 'vote) RaftNode \<Rightarrow> (nat \<Rightarrow> nat) \<Rightarrow> (nat \<Rightarrow> 'raft) \<Rightarrow> u64 \<Rightarrow> nat \<Rightarrow>
     (RaftNodeError + unit) option" where
  "wait_loop L n elapsed rafts timeout_ms k =
     (if elapsed k < unat timeout_ms * 1000000 then
        (case is_leader L (n\<lparr>raft := rafts k\<rparr>) of
           Inl e \<Rightarrow> Some (Inl e)
         | Inr leads \<Rightarrow> if leads then Some (Inr ()) else wait_loop L n elapsed rafts timeout_ms (k + 1))
      else Some (Inl (OpenRaft (bstr ''Leader election timeout after '' @ dec_string (unat timeout_ms) @ bstr ''ms''))))"

definition wait_for_leader ::
    "('raft, 'c, 'm, 'vote) raft_lib \<Rightarrow> ('raft, 'm, 'vote) RaftNode \<Rightarrow> (nat \<Rightarrow> nat) \<Rightarrow> (nat \<Rightarrow> 'raft) \<Rightarrow> u64 \<Rightarrow>
     (RaftNodeError + unit) option" where
  "wait_for_leader L n elapsed rafts timeout_ms = wait_loop L n elapsed rafts timeout_ms 0"

section \<open>The stub network\<close>

datatype StubNetworkConnection = StubNetworkConnection

definition stub_new_client :: "StubNetworkFactory \<Rightarrow> u64 \<Rightarrow> 'node \<Rightarrow> StubNetworkConnection \<times> StubNetworkFactory" where
  "stub_new_client factory target node = (StubNetworkConnection, factory)"

datatype AppendEntriesResponse = Success | OtherAppendResponse

record 'vote VoteRequest =
  rpc_vote :: 'vote
  rpc_last_log_id :: "LogId option"

record 'vote VoteResponse =
  response_vote :: 'vote
  response_last_log_id :: "LogId option"
  vote_granted :: bool

definition stub_append_entries :: "'rpc \<Rightarrow> 'e + AppendEntriesResponse" where
  "stub_append_entries rpc = Inr Success"

definition stub_vote :: "'vote VoteRequest \<Rightarrow> 'e + 'vote VoteResponse" where
  "stub_vote rpc = Inr \<lparr>response_vote = rpc_vote rpc, response_last_log_id = rpc_last_log_id rpc, vote_granted = True\<rparr>"

text \<open>The response to a snapshot carries the vote of the request.\<close>

definition stub_install_snapshot :: "('rpc \<Rightarrow> 'vote) \<Rightarrow> 'rpc \<Rightarrow> 'e + 'vote" where
  "stub_install_snapshot snapshot_vote rpc = Inr (snapshot_vote rpc)"

section \<open>Waiting ends\<close>

lemma clock_grows: "clock_ok elapsed \<Longrightarrow> elapsed j + 10 * 1000000 * i \<le> elapsed (j + i)"
proof (induction i)
  case (Suc i)
  then have "elapsed (j + i) + 10 * 1000000 \<le> elapsed (Suc (j + i))" by (simp only: clock_ok_def)
  with Suc show ?case by simp
qed simp

lemma wait_loop_spec:
  assumes "clock_ok elapsed" "\<And>j. leads j \<longleftrightarrow> current_leader (raft_metrics L (rafts j)) = Some (rn_node_id n)"
  shows "\<exists>r. wait_loop L n elapsed rafts timeout_ms k = Some r \<and>
    (r = Inr () \<longleftrightarrow> (\<exists>j \<ge> k. leads j \<and> elapsed j < unat timeout_ms * 1000000))"
proof (induction "unat timeout_ms * 1000000 - elapsed k" arbitrary: k rule: less_induct)
  case less
  have mono: "elapsed k \<le> elapsed j" if "k \<le> j" for j
    using clock_grows [OF assms(1), of k "j - k"] that by simp
  show ?case
  proof (cases "elapsed k < unat timeout_ms * 1000000")
    case False
    then have "\<not> elapsed j < unat timeout_ms * 1000000" if "k \<le> j" for j using mono [OF that] by linarith
    with False show ?thesis by (subst wait_loop.simps) auto
  next
    case True
    show ?thesis
    proof (cases "leads k")
      case leads: True
      then show ?thesis using True assms(2) by (subst wait_loop.simps) (auto simp: is_leader_def)
    next
      case False
      have "elapsed k + 10 * 1000000 \<le> elapsed (Suc k)" using assms(1) by (simp only: clock_ok_def)
      then have "unat timeout_ms * 1000000 - elapsed (k + 1) < unat timeout_ms * 1000000 - elapsed k" using True by simp
      then obtain r where r: "wait_loop L n elapsed rafts timeout_ms (k + 1) = Some r"
        "r = Inr () \<longleftrightarrow> (\<exists>j \<ge> k + 1. leads j \<and> elapsed j < unat timeout_ms * 1000000)"
        using less by blast
      have "wait_loop L n elapsed rafts timeout_ms k = wait_loop L n elapsed rafts timeout_ms (k + 1)"
        using True False assms(2) [of k] by (subst wait_loop.simps) (simp add: is_leader_def)
      moreover have "(\<exists>j \<ge> k + 1. leads j \<and> elapsed j < unat timeout_ms * 1000000) \<longleftrightarrow>
          (\<exists>j \<ge> k. leads j \<and> elapsed j < unat timeout_ms * 1000000)"
        using False by (metis Suc_eq_plus1 Suc_leD le_neq_implies_less Suc_leI)
      ultimately show ?thesis using r by auto
    qed
  qed
qed

section \<open>Properties\<close>

text \<open>C32: waiting for leadership always ends, and it succeeds exactly when the node is the leader at one of
  its polls before the timeout.\<close>

theorem wait_for_leader_returns:
  assumes "clock_ok elapsed"
  shows "\<exists>r. wait_for_leader L n elapsed rafts timeout_ms = Some r \<and>
    (r = Inr () \<longleftrightarrow> (\<exists>j. current_leader (raft_metrics L (rafts j)) = Some (rn_node_id n) \<and>
       elapsed j < unat timeout_ms * 1000000))"
  using wait_loop_spec [OF assms refl, where k = 0 and L = L and n = n and rafts = rafts and timeout_ms = timeout_ms] by (simp add: wait_for_leader_def)

definition leading_lib :: "(bool, unit, unit, unit) raft_lib" where
  "leading_lib =
     \<lparr>default_settings = (), config_validate = Inr, raft_new = (\<lambda>_ _ _ _ _. Inr False),
      raft_initialize = (\<lambda>_ _. (Inr (), True)), raft_client_write = (\<lambda>b _. (Inr \<lparr>result = []\<rparr>, b)),
      raft_metrics = (\<lambda>b. \<lparr>current_leader = (if b then Some 1 else None), current_term = 1,
        metrics_last_applied = None, last_log_index = None\<rparr>),
      debug_log_id = (\<lambda>_. [])\<rparr>"

theorem wait_for_leader_returns_witness:
  "\<exists>r. wait_for_leader leading_lib
      \<lparr>rn_node_id = 1, raft = False, log_storage = mem_log_new, state_machine = mem_sm_new ()\<rparr>
      (\<lambda>k. k * 20000000) (\<lambda>k. 3 \<le> k) 500 = Some r \<and> r = Inr ()"
  using wait_for_leader_returns [of "\<lambda>k. k * 20000000" leading_lib
      "\<lparr>rn_node_id = 1, raft = False, log_storage = mem_log_new, state_machine = mem_sm_new ()\<rparr>" "\<lambda>k. 3 \<le> k" 500]
  by (auto simp: clock_ok_def leading_lib_def intro!: exI [of _ 3])

end
