(* ===== verification/Resp_Grammar.thy ===== *)
theory Resp_Grammar
  imports Resp_Round_Trip "HOL-Library.Sublist"
begin

text \<open>
  The language the parser accepts, as a grammar. A frame is described by its bytes and the value
  they stand for, with the size limits and the number of levels that may still be opened as
  parameters, and with a dialect: which byte a boolean may have, how long the line of a simple string
  or an error may be, and what the text of a big number is. In the documented dialect
  (\<open>docs/specs/resp/spec.md\<close>, the comments of \<open>parser.rs\<close> and \<open>types.rs\<close>) these are \<open>t\<close> and \<open>f\<close>, one
  megabyte, and digits; the parser checks none of the three, which makes the lenient dialect. A call
  of the parser between frames returns a value exactly when its buffer starts with a frame of that
  value in the lenient dialect, and the frames it takes beyond the documented ones are those
  in which one of the three differs. Both dialects have more frames than the encoder writes: lengths
  and integers may have leading zeros and a plus sign, doubles every spelling, and the null forms of
  several types are one value. Collections have at most as many elements as a vector holds.
\<close>

section \<open>The grammar\<close>

definition length_text :: "bytes \<Rightarrow> i64 \<Rightarrow> bool" where
  "length_text s n \<longleftrightarrow> find_crlf s = None \<and> line_i64 s = Some n"

text \<open>The text of a size: a length that is not negative.\<close>

definition size_text :: "bytes \<Rightarrow> nat \<Rightarrow> bool" where
  "size_text s k \<longleftrightarrow> (\<exists>n. length_text s n \<and> 0 \<le> sint n \<and> unat n = k)"

abbreviation flat_pairs :: "('a \<times> 'a) list \<Rightarrow> 'a list" where
  "flat_pairs ps \<equiv> concat (map (\<lambda>(k, v). [k, v]) ps)"

record dialect =
  bool_byte :: "u8 \<Rightarrow> bool"
  line_fits :: "nat \<Rightarrow> bool"
  big_text :: "bytes \<Rightarrow> bool"

text \<open>Digits after an optional sign.\<close>

definition big_digits :: "bytes \<Rightarrow> bool" where
  "big_digits s \<longleftrightarrow> (\<exists>sign ds. s = sign @ ds \<and> sign \<in> {[], [43], [45]} \<and> ds \<noteq> [] \<and> set ds \<subseteq> {48..57})"

definition documented :: dialect where
  "documented = \<lparr>bool_byte = (\<lambda>c. c = 116 \<or> c = 102), line_fits = (\<lambda>n. n \<le> 1024 * 1024),
     big_text = big_digits\<rparr>"

definition lenient :: dialect where
  "lenient = \<lparr>bool_byte = (\<lambda>_. True), line_fits = (\<lambda>_. True), big_text = (\<lambda>_. True)\<rparr>"

lemma dialect_simps [simp]:
  "bool_byte lenient c" "line_fits lenient n" "big_text lenient s"
  "bool_byte documented c \<longleftrightarrow> c = 116 \<or> c = 102" "line_fits documented n \<longleftrightarrow> n \<le> 1024 * 1024"
  "big_text documented = big_digits"
  by (simp_all add: lenient_def documented_def)

inductive resp_frame :: "dialect \<Rightarrow> usize \<Rightarrow> usize \<Rightarrow> nat \<Rightarrow> RespValue \<Rightarrow> bytes \<Rightarrow> bool" for D b a where
  simple: "find_crlf s = None \<Longrightarrow> line_fits D (length s) \<Longrightarrow>
    resp_frame D b a d (SimpleString s) (43 # s @ CRLF)"
| error: "find_crlf s = None \<Longrightarrow> line_fits D (length s) \<Longrightarrow>
    resp_frame D b a d (Error s) (45 # s @ CRLF)"
| integer: "length_text s n \<Longrightarrow> resp_frame D b a d (Integer n) (58 # s @ CRLF)"
| double: "find_crlf s = None \<Longrightarrow> line_f64 s = Some x \<Longrightarrow> resp_frame D b a d (Double x) (44 # s @ CRLF)"
| big_number: "find_crlf s = None \<Longrightarrow> big_text D s \<Longrightarrow>
    resp_frame D b a d (BigNumber s) (40 # s @ CRLF)"
| null: "resp_frame D b a d Null (95 # CRLF)"
| boolean: "bool_byte D c \<Longrightarrow> resp_frame D b a d (Boolean (c = 116)) (35 # c # CRLF)"
| bulk: "size_text s (length data) \<Longrightarrow> length data \<le> b \<Longrightarrow>
    resp_frame D b a d (BulkString (Some data)) (36 # s @ CRLF @ data @ CRLF)"
| bulk_error: "size_text s (length data) \<Longrightarrow> length data \<le> b \<Longrightarrow>
    resp_frame D b a d (BulkError data) (33 # s @ CRLF @ data @ CRLF)"
| verbatim: "size_text s (length (f0 # f1 # f2 # 58 # t)) \<Longrightarrow> length (f0 # f1 # f2 # 58 # t) \<le> b \<Longrightarrow>
    resp_frame D b a d (VerbatimString (f0, f1, f2) t) (61 # s @ CRLF @ (f0 # f1 # f2 # 58 # t) @ CRLF)"
| array: "size_text s (length xs) \<Longrightarrow> length xs \<le> min a value_capacity \<Longrightarrow> (xs \<noteq> [] \<Longrightarrow> 0 < d) \<Longrightarrow>
    list_all2 (resp_frame D b a (d - 1)) xs ss \<Longrightarrow>
    resp_frame D b a d (Array (Some xs)) (42 # s @ CRLF @ concat ss)"
| set: "size_text s (length xs) \<Longrightarrow> length xs \<le> min a value_capacity \<Longrightarrow> (xs \<noteq> [] \<Longrightarrow> 0 < d) \<Longrightarrow>
    list_all2 (resp_frame D b a (d - 1)) xs ss \<Longrightarrow>
    resp_frame D b a d (Set xs) (126 # s @ CRLF @ concat ss)"
| push: "size_text s (length xs) \<Longrightarrow> length xs \<le> min a value_capacity \<Longrightarrow> (xs \<noteq> [] \<Longrightarrow> 0 < d) \<Longrightarrow>
    list_all2 (resp_frame D b a (d - 1)) xs ss \<Longrightarrow>
    resp_frame D b a d (Push xs) (62 # s @ CRLF @ concat ss)"
| map: "size_text s (length ps) \<Longrightarrow> length ps \<le> min a pair_capacity \<Longrightarrow> (ps \<noteq> [] \<Longrightarrow> 0 < d) \<Longrightarrow>
    list_all2 (resp_frame D b a (d - 1)) (flat_pairs ps) ss \<Longrightarrow>
    resp_frame D b a d (Map ps) (37 # s @ CRLF @ concat ss)"
| null_bulk: "length_text s (- 1) \<Longrightarrow> resp_frame D b a d (BulkString None) (36 # s @ CRLF)"
| null_array: "length_text s (- 1) \<Longrightarrow> resp_frame D b a d (Array None) (42 # s @ CRLF)"
| null_other: "length_text s (- 1) \<Longrightarrow> t \<in> {33, 61, 37, 126} \<Longrightarrow> resp_frame D b a d Null (t # s @ CRLF)"

inductive_simps resp_frame_byte:
  "resp_frame D b a d v (43 # s)" "resp_frame D b a d v (45 # s)" "resp_frame D b a d v (58 # s)"
  "resp_frame D b a d v (44 # s)" "resp_frame D b a d v (40 # s)" "resp_frame D b a d v (95 # s)"
  "resp_frame D b a d v (35 # s)" "resp_frame D b a d v (36 # s)" "resp_frame D b a d v (33 # s)"
  "resp_frame D b a d v (61 # s)" "resp_frame D b a d v (42 # s)" "resp_frame D b a d v (126 # s)"
  "resp_frame D b a d v (62 # s)" "resp_frame D b a d v (37 # s)"

section \<open>Lines, lengths and payloads\<close>

lemma take_line_iff: "take_line [] buf = Some (s, rest) \<longleftrightarrow> find_crlf s = None \<and> buf = s @ CRLF @ rest"
proof
  assume "take_line [] buf = Some (s, rest)"
  then obtain n where n: "find_crlf buf = Some n" "s = take n buf" "rest = drop (n + 2) buf"
    by (auto simp: take_line_def split: option.splits)
  then show "find_crlf s = None \<and> buf = s @ CRLF @ rest"
    using find_crlf_SomeD [OF n(1)] append_take_drop_id [of n buf] by simp
next
  assume "find_crlf s = None \<and> buf = s @ CRLF @ rest"
  then show "take_line [] buf = Some (s, rest)"
    using find_crlf_line [of s rest] by (simp add: take_line_def)
qed

lemma read_length_iff:
  "read_length [] buf = LenGot s n rest \<longleftrightarrow> length_text s n \<and> buf = s @ CRLF @ rest"
proof -
  have "read_length [] buf = LenGot s n rest \<longleftrightarrow> take_line [] buf = Some (s, rest) \<and> line_i64 s = Some n"
    by (auto simp: read_length_def split: option.splits)
  then show ?thesis by (auto simp: take_line_iff length_text_def)
qed

lemma read_payload_iff:
  "read_payload k [] buf = BulkDone data rest \<longleftrightarrow> length data = k \<and> buf = data @ CRLF @ rest"
proof
  assume "read_payload k [] buf = BulkDone data rest"
  then have k: "k + 2 \<le> length buf" "data = take k buf" "take 2 (drop k buf) = CRLF" "rest = drop (k + 2) buf"
    by (auto simp: read_payload_def Let_def split: if_splits)
  have "buf = take k buf @ take 2 (drop k buf) @ drop (k + 2) buf"
    by (metis add.commute append_take_drop_id drop_drop)
  with k show "length data = k \<and> buf = data @ CRLF @ rest" by simp
qed (use read_payload_wire in auto)

section \<open>Frames that hold no other frame\<close>

text \<open>A type byte leads to the state that reads the rest of the frame.\<close>

lemma parse_marker:
  assumes "state p = WaitingForType" "parse_type p (c # buf) = Continue (goto p s) buf"
    "step_state s (goto p s) buf = Iter it"
  shows "parse p (c # buf) = (case it of Return r p' buf' \<Rightarrow> (r, p', buf') | Continue p' buf' \<Rightarrow> parse p' buf')"
proof -
  have "parse p (c # buf) = parse (goto p s) buf" using assms(1,2) by (simp add: parse.simps [of p])
  also have "\<dots> = (case it of Return r p' buf' \<Rightarrow> (r, p', buf') | Continue p' buf' \<Rightarrow> parse p' buf')"
    using assms(3) by (simp add: parse.simps [of "goto p s"] split: iter.split)
  finally show ?thesis .
qed

lemma line_frames:
  assumes "state p = WaitingForType"
  shows "parse p (43 # buf) = (Ok (Some v), p', rest) \<longleftrightarrow>
      p' = p \<and> (\<exists>s. take_line [] buf = Some (s, rest) \<and> v = SimpleString s)"
    "parse p (45 # buf) = (Ok (Some v), p', rest) \<longleftrightarrow>
      p' = p \<and> (\<exists>s. take_line [] buf = Some (s, rest) \<and> v = Error s)"
    "parse p (40 # buf) = (Ok (Some v), p', rest) \<longleftrightarrow>
      p' = p \<and> (\<exists>s. take_line [] buf = Some (s, rest) \<and> v = BigNumber s)"
    "parse p (58 # buf) = (Ok (Some v), p', rest) \<longleftrightarrow>
      p' = p \<and> (\<exists>s n. take_line [] buf = Some (s, rest) \<and> line_i64 s = Some n \<and> v = Integer n)"
    "parse p (44 # buf) = (Ok (Some v), p', rest) \<longleftrightarrow>
      p' = p \<and> (\<exists>s x. take_line [] buf = Some (s, rest) \<and> line_f64 s = Some x \<and> v = Double x)"
  using assms by (auto simp: parse_marker line_defs split: option.splits)

lemma fixed_frames:
  assumes "state p = WaitingForType"
  shows "parse p (95 # buf) = (Ok (Some v), p', rest) \<longleftrightarrow> p' = p \<and> buf = CRLF @ rest \<and> v = Null"
    "parse p (35 # buf) = (Ok (Some v), p', rest) \<longleftrightarrow>
      p' = p \<and> (\<exists>c. buf = c # CRLF @ rest \<and> v = Boolean (c = 116))"
proof -
  have two: "length buf \<ge> 2 \<and> take 2 buf = CRLF \<longleftrightarrow> (\<exists>t. buf = CRLF @ t)" for buf
    by (auto simp: take_Suc_conv_app_nth numeral_2_eq_2 Suc_le_length_iff)
  show "parse p (95 # buf) = (Ok (Some v), p', rest) \<longleftrightarrow> p' = p \<and> buf = CRLF @ rest \<and> v = Null"
    using assms two [of buf] by (auto simp: parse.simps [of p] parse_type_def)
  show "parse p (35 # buf) = (Ok (Some v), p', rest) \<longleftrightarrow>
      p' = p \<and> (\<exists>c. buf = c # CRLF @ rest \<and> v = Boolean (c = 116))"
    using assms two [of "drop 1 buf"] by (cases buf) (auto simp: parse.simps [of p] parse_type_def)
qed

lemma payload_frames:
  assumes "state p = WaitingForType"
  shows "parse (goto p (BulkStringData k [])) buf = (Ok (Some v), p', rest) \<longleftrightarrow>
      p' = p \<and> (\<exists>data. read_payload k [] buf = BulkDone data rest \<and> v = BulkString (Some data))"
    "parse (goto p (BulkErrorData k [])) buf = (Ok (Some v), p', rest) \<longleftrightarrow>
      p' = p \<and> (\<exists>data. read_payload k [] buf = BulkDone data rest \<and> v = BulkError data)"
    "parse (goto p (VerbatimStringData k [])) buf = (Ok (Some v), p', rest) \<longleftrightarrow>
      p' = p \<and> (\<exists>data. read_payload k [] buf = BulkDone data rest \<and> 4 \<le> length data \<and> data ! 3 = 58 \<and>
        v = VerbatimString (data ! 0, data ! 1, data ! 2) (drop 4 data))"
  using assms
  by (auto simp: parse.simps [of "goto p _"] bulk_data_defs split: payload.splits)

text \<open>A size line and what follows it.\<close>

definition sized :: "bytes \<Rightarrow> nat \<Rightarrow> bytes \<Rightarrow> bool" where
  "sized buf k buf' \<longleftrightarrow> (\<exists>s n. read_length [] buf = LenGot s n buf' \<and> 0 \<le> sint n \<and> unat n = k)"

definition null_sized :: "bytes \<Rightarrow> bytes \<Rightarrow> bool" where
  "null_sized buf rest \<longleftrightarrow> (\<exists>s. read_length [] buf = LenGot s (- 1) rest)"

lemma sized_iff: "sized buf k buf' \<longleftrightarrow> (\<exists>s. size_text s k \<and> buf = s @ CRLF @ buf')"
  by (auto simp: sized_def size_text_def read_length_iff)

lemma null_sized_iff: "null_sized buf rest \<longleftrightarrow> (\<exists>s. length_text s (- 1) \<and> buf = s @ CRLF @ rest)"
  by (auto simp: null_sized_def read_length_iff)

lemma read_payload_0:
  "read_payload 0 [] buf =
     (if length buf < 2 then BulkMore buf else if take 2 buf \<noteq> CRLF then BulkBad [] else BulkDone [] (drop 2 buf))"
  by (simp add: read_payload_def numeral_2_eq_2)

lemma bulk_frames:
  assumes "state p = WaitingForType"
  shows "parse p (36 # buf) = (Ok (Some v), p', rest) \<longleftrightarrow>
      p' = p \<and> (null_sized buf rest \<and> v = BulkString None \<or>
        (\<exists>k buf' data. sized buf k buf' \<and> k \<le> max_bulk_size p \<and> read_payload k [] buf' = BulkDone data rest \<and>
           v = BulkString (Some data)))"
    "parse p (33 # buf) = (Ok (Some v), p', rest) \<longleftrightarrow>
      p' = p \<and> (null_sized buf rest \<and> v = Null \<or>
        (\<exists>k buf' data. sized buf k buf' \<and> k \<le> max_bulk_size p \<and> read_payload k [] buf' = BulkDone data rest \<and>
           v = BulkError data))"
    "parse p (61 # buf) = (Ok (Some v), p', rest) \<longleftrightarrow>
      p' = p \<and> (null_sized buf rest \<and> v = Null \<or>
        (\<exists>k buf' data. sized buf k buf' \<and> k \<le> max_bulk_size p \<and> read_payload k [] buf' = BulkDone data rest \<and>
           4 \<le> length data \<and> data ! 3 = 58 \<and> v = VerbatimString (data ! 0, data ! 1, data ! 2) (drop 4 data)))"
  using assms
  by (cases "read_length [] buf";
      auto simp: parse_marker bulk_len_defs Let_def sized_def null_sized_def payload_frames read_payload_0
        dest!: read_payload_iff [THEN iffD1])+

section \<open>Collections\<close>

text \<open>A run of calls between frames that return the given values.\<close>

fun runs :: "RespParser \<Rightarrow> RespValue list \<Rightarrow> bytes \<Rightarrow> bytes \<Rightarrow> bool" where
  "runs q [] buf rest \<longleftrightarrow> buf = rest"
| "runs q (x # xs) buf rest \<longleftrightarrow> (\<exists>buf'. parse q buf = (Ok (Some x), q, buf') \<and> runs q xs buf' rest)"

text \<open>A call that returns a value leaves the parser as it was, for buffers up to a length.\<close>

definition back_to :: "RespParser \<Rightarrow> nat \<Rightarrow> bool" where
  "back_to q l \<longleftrightarrow> state q = WaitingForType \<and>
     (\<forall>buf v q' rest. length buf \<le> l \<longrightarrow> parse q buf = (Ok (Some v), q', rest) \<longrightarrow> q' = q)"

lemma parse_Descend:
  assumes "step_state s (goto q s) buf = Descend fr q" "state q = WaitingForType"
  shows "parse (goto q s) buf =
    (case parse q buf of (r, q', buf') \<Rightarrow>
       (case resume fr r q' buf' of Return r p3 buf3 \<Rightarrow> (r, p3, buf3) | Continue p3 buf3 \<Rightarrow> parse p3 buf3))"
  using assms by (simp add: parse.simps [of "goto q s"])

text \<open>An element is read and the loop goes on, or there is no value.\<close>

lemma parse_element:
  assumes "step_state s (goto q s) buf = Descend fr q" "back_to q (length buf)"
  shows "parse (goto q s) buf = (Ok (Some v), p', rest) \<longleftrightarrow>
    (\<exists>x buf'. parse q buf = (Ok (Some x), q, buf') \<and>
       (case resume fr (Ok (Some x)) q buf' of Return r p3 buf3 \<Rightarrow> (r, p3, buf3) | Continue p3 buf3 \<Rightarrow> parse p3 buf3) =
         (Ok (Some v), p', rest))"
proof -
  obtain r q' buf' where sub: "parse q buf = (r, q', buf')" by (metis prod_cases3)
  have "state q = WaitingForType" using assms(2) by (simp add: back_to_def)
  then have run: "parse (goto q s) buf =
      (case resume fr r q' buf' of Return r p3 buf3 \<Rightarrow> (r, p3, buf3) | Continue p3 buf3 \<Rightarrow> parse p3 buf3)"
    using parse_Descend [OF assms(1)] sub by simp
  have "\<exists>x. r = Ok (Some x) \<and> q' = q" if "parse (goto q s) buf = (Ok (Some v), p', rest)"
  proof -
    have "\<exists>x. r = Ok (Some x)"
      using that resume_Some [of fr r q' buf'] resume_Continue [of fr r q' buf'] unfolding run
      by (auto split: iter.splits)
    then show ?thesis using assms(2) sub by (auto simp: back_to_def)
  qed
  then show ?thesis using run sub by auto
qed

lemma back_to_shorter: "back_to q l \<Longrightarrow> parse q buf = (r, q', buf') \<Longrightarrow> length buf \<le> l \<Longrightarrow> back_to q (length buf')"
  using parse_shorter [of q buf r q' buf'] unfolding back_to_def by (meson le_trans)

lemma back_to_le: "back_to q l \<Longrightarrow> l' \<le> l \<Longrightarrow> back_to q l'"
  unfolding back_to_def by (meson le_trans)

lemma ex_length_Suc: "(\<exists>xs. length xs = Suc n \<and> P xs) \<longleftrightarrow> (\<exists>x xs. length xs = n \<and> P (x # xs))"
  by (metis length_Suc_conv)

lemma by_size:
  "(\<exists>xs buf'. sized buf (length xs) buf' \<and> length xs \<le> m \<and> (xs \<noteq> [] \<longrightarrow> D) \<and> P xs buf') \<longleftrightarrow>
     (\<exists>buf'. sized buf 0 buf' \<and> P [] buf') \<or>
     (\<exists>k buf'. sized buf (Suc k) buf' \<and> Suc k \<le> m \<and> D \<and> (\<exists>xs. length xs = Suc k \<and> P xs buf'))" (is "?l \<longleftrightarrow> ?r")
proof
  assume ?l
  then obtain xs buf' where "sized buf (length xs) buf'" "length xs \<le> m" "xs \<noteq> [] \<longrightarrow> D" "P xs buf'" by blast
  then show ?r by (cases xs) fastforce+
next
  assume ?r
  then show ?l by (metis Zero_not_Suc length_0_conv list.size(3) zero_le)
qed

text \<open>The header of a collection: the type byte, the size line, and for a collection that is not empty
  the state that reads its elements, one level deeper.\<close>

abbreviation deeper :: "RespParser \<Rightarrow> RespParser" where
  "deeper p \<equiv> p\<lparr>current_depth := Suc (current_depth p)\<rparr>"

locale collection_header =
  fixes header_byte :: u8
    and length_state :: "bytes \<Rightarrow> ParseState"
    and start :: "usize \<Rightarrow> ParseState"
    and capacity :: usize
    and empty_value :: RespValue
    and null_value :: "RespValue option"
  assumes header_step: "parse_type p (header_byte # buf) = Continue (goto p (length_state [])) buf"
    and length_step: "step_state (length_state []) p buf =
     Iter (case read_length [] buf of
        LenMore acc \<Rightarrow> Return (Ok None) (goto p (length_state acc)) []
      | LenBad line buf \<Rightarrow> Return (Err InvalidLength) (goto p (length_state line)) buf
      | LenGot line len buf \<Rightarrow>
          if len = - 1 \<and> null_value \<noteq> None then Return (Ok null_value) (goto p WaitingForType) buf
          else if sint len < 0 then Return (Err InvalidLength) (goto p (length_state line)) buf
          else open_collection (goto p (length_state line)) capacity (unat len) empty_value (start (unat len)) buf)"
begin

lemma header_frames:
  assumes p: "state p = WaitingForType"
  shows "parse p (header_byte # buf) = (Ok (Some v), p', rest) \<longleftrightarrow>
    (null_sized buf rest \<and> null_value = Some v \<or> sized buf 0 rest \<and> v = empty_value) \<and> p' = p \<or>
    (\<exists>k buf'. sized buf (Suc k) buf' \<and> Suc k \<le> min (max_array_len p) capacity \<and> current_depth p < max_depth p \<and>
       parse (goto (deeper p) (start (Suc k))) buf' = (Ok (Some v), p', rest))"
proof (cases "\<exists>s n buf'. read_length [] buf = LenGot s n buf' \<and> 0 \<le> sint n \<and> unat n \<noteq> 0")
  case True
  then obtain s n buf' k where n: "read_length [] buf = LenGot s n buf'" "0 \<le> sint n" "unat n = Suc k"
    by (metis not0_implies_Suc)
  have "parse p (header_byte # buf) =
      (if max_array_len p < Suc k then (Err (ArrayTooLarge (Suc k) (max_array_len p)), goto p (length_state s), buf')
       else if max_depth p < Suc (current_depth p) then (Err NestingTooDeep, goto p (length_state s), buf')
       else if capacity < Suc k then (Panic, deeper (goto p (length_state s)), buf')
       else parse (goto (deeper p) (start (Suc k))) buf')"
    using n parse_marker [OF p header_step length_step] by (auto simp: open_collection_def)
  moreover have "sized buf j b \<longleftrightarrow> b = buf' \<and> j = Suc k" "\<not> null_sized buf b" for j b
    using n by (auto simp: sized_def null_sized_def)
  ultimately show ?thesis by auto
next
  case False
  then show ?thesis
    using p parse_marker [OF p header_step length_step]
    by (cases "read_length [] buf") (auto simp: open_collection_def sized_def null_sized_def)
qed

lemma sized_back:
  "back_to q (length buf) \<Longrightarrow> sized buf k buf' \<Longrightarrow> back_to q (length buf')"
  using read_length_shorter by (fastforce simp: sized_def intro: back_to_le)

end

locale sequence_grammar = sequence_state +
  fixes null_seq :: "RespValue option"
  assumes len_any: "step_state (len_state []) p buf =
     Iter (case read_length [] buf of
        LenMore acc \<Rightarrow> Return (Ok None) (goto p (len_state acc)) []
      | LenBad line buf \<Rightarrow> Return (Err InvalidLength) (goto p (len_state line)) buf
      | LenGot line len buf \<Rightarrow>
          if len = - 1 \<and> null_seq \<noteq> None then Return (Ok null_seq) (goto p WaitingForType) buf
          else if sint len < 0 then Return (Err InvalidLength) (goto p (len_state line)) buf
          else open_collection (goto p (len_state line)) value_capacity (unat len) (make []) (data_state (unat len) []) buf)"

sublocale sequence_grammar \<subseteq> hdr: collection_header type_byte len_state "\<lambda>k. data_state k []" value_capacity
  "make []" null_seq
  by unfold_locales (rule type_step, rule len_any)

context sequence_grammar
begin

lemma data_runs:
  assumes "back_to q (length buf)" "0 < current_depth q"
  shows "parse (goto q (data_state (Suc k) acc)) buf = (Ok (Some v), p', rest) \<longleftrightarrow>
    p' = q\<lparr>current_depth := current_depth q - 1\<rparr> \<and>
    (\<exists>xs. length xs = Suc k \<and> v = make (acc @ xs) \<and> runs q xs buf rest)"
  using assms
proof (induction k arbitrary: acc buf)
  case 0
  then have "state q = WaitingForType" by (simp add: back_to_def)
  then show ?case
    using 0 parse_element [OF _ 0(1), of "data_state (Suc 0) acc" "data_frame (Suc 0) acc"]
    by (auto simp: data_step element_step close_collection_def ex_length_Suc [of 0])
next
  case (Suc k)
  then have q: "state q = WaitingForType" by (simp add: back_to_def)
  have IH: "parse (goto q (data_state (Suc k) (acc @ [x]))) buf' = (Ok (Some v), p', rest) \<longleftrightarrow>
      p' = q\<lparr>current_depth := current_depth q - 1\<rparr> \<and>
      (\<exists>xs. length xs = Suc k \<and> v = make ((acc @ [x]) @ xs) \<and> runs q xs buf' rest)"
    if "parse q buf = (Ok (Some x), q, buf')" for x buf'
    using back_to_shorter [OF Suc.prems(1) that order_refl] Suc.prems(2) by (rule Suc.IH)
  show ?case
    using q parse_element [OF _ Suc.prems(1), of "data_state (Suc (Suc k)) acc" "data_frame (Suc (Suc k)) acc"] IH
    by (auto simp: data_step element_step ex_length_Suc [of "Suc k"])
qed

lemma collection_runs:
  assumes p: "state p = WaitingForType" and q: "back_to (deeper p) (length buf)"
  shows "parse p (type_byte # buf) = (Ok (Some v), p', rest) \<longleftrightarrow>
    p' = p \<and> (null_sized buf rest \<and> null_seq = Some v \<or>
      (\<exists>xs buf'. sized buf (length xs) buf' \<and> length xs \<le> min (max_array_len p) value_capacity \<and>
         (xs \<noteq> [] \<longrightarrow> current_depth p < max_depth p) \<and> v = make xs \<and> runs (deeper p) xs buf' rest))"
proof -
  have data: "parse (goto (deeper p) (data_state (Suc k) [])) buf' = (Ok (Some v), p', rest) \<longleftrightarrow>
      p' = p \<and> (\<exists>xs. length xs = Suc k \<and> v = make xs \<and> runs (deeper p) xs buf' rest)"
    if "sized buf (Suc k) buf'" for k buf'
    using data_runs [OF hdr.sized_back [OF q that], of k "[]"] by simp
  show ?thesis
    unfolding hdr.header_frames [OF p] by_size using data by auto
qed

end

interpretation array_grammar: sequence_grammar 42 ArrayLen ArrayData ArrayFrame "Array \<circ> Some" "Some (Array None)"
  by unfold_locales (simp add: parse_array_len_def Let_def split: length_line.split)

interpretation set_grammar: sequence_grammar 126 SetLen SetData SetFrame Set "Some Null"
  by unfold_locales (simp add: parse_set_len_def Let_def split: length_line.split)

interpretation push_grammar: sequence_grammar 62 PushLen PushData PushFrame Push None
  by unfold_locales (simp add: parse_push_len_def Let_def split: length_line.split)

interpretation map_header: collection_header 37 MapLen "\<lambda>k. MapData k [] None" pair_capacity "Map []" "Some Null"
  by unfold_locales (simp_all add: parse_map_len_def Let_def split: length_line.split)

text \<open>In a map every second element completes a pair.\<close>

lemma map_pair:
  assumes "back_to q (length buf)"
  shows "parse (goto q (MapData (Suc k) acc None)) buf = (Ok (Some v), p', rest) \<longleftrightarrow>
    (\<exists>x y buf1 buf2. parse q buf = (Ok (Some x), q, buf1) \<and> parse q buf1 = (Ok (Some y), q, buf2) \<and>
       (case map_element (Suc k) acc (Some x) (Some y) q buf2 of
          Return r p3 buf3 \<Rightarrow> (r, p3, buf3) | Continue p3 buf3 \<Rightarrow> parse p3 buf3) = (Ok (Some v), p', rest))"
proof -
  have q: "state q = WaitingForType" using assms by (simp add: back_to_def)
  have key: "parse (goto q (MapData (Suc k) acc None)) buf = (Ok (Some v), p', rest) \<longleftrightarrow>
      (\<exists>x buf1. parse q buf = (Ok (Some x), q, buf1) \<and>
         parse (goto q (MapData (Suc k) acc (Some x))) buf1 = (Ok (Some v), p', rest))"
    using q parse_element [OF _ assms, of "MapData (Suc k) acc None" "MapFrame (Suc k) acc None"]
    by (simp add: parse_map_data_def)
  have "parse (goto q (MapData (Suc k) acc (Some x))) buf1 = (Ok (Some v), p', rest) \<longleftrightarrow>
      (\<exists>y buf2. parse q buf1 = (Ok (Some y), q, buf2) \<and>
       (case map_element (Suc k) acc (Some x) (Some y) q buf2 of
          Return r p3 buf3 \<Rightarrow> (r, p3, buf3) | Continue p3 buf3 \<Rightarrow> parse p3 buf3) = (Ok (Some v), p', rest))"
    if "parse q buf = (Ok (Some x), q, buf1)" for x buf1
    using q parse_element [OF _ back_to_shorter [OF assms that order_refl],
        of "MapData (Suc k) acc (Some x)" "MapFrame (Suc k) acc (Some x)"]
    by (simp add: parse_map_data_def)
  then show ?thesis unfolding key by blast
qed

lemma map_runs:
  assumes "back_to q (length buf)" "0 < current_depth q"
  shows "parse (goto q (MapData (Suc k) acc None)) buf = (Ok (Some v), p', rest) \<longleftrightarrow>
    p' = q\<lparr>current_depth := current_depth q - 1\<rparr> \<and>
    (\<exists>ps. length ps = Suc k \<and> v = Map (acc @ ps) \<and> runs q (flat_pairs ps) buf rest)"
  using assms
proof (induction k arbitrary: acc buf)
  case 0
  then show ?case using map_pair [OF 0(1)] by (auto simp: close_collection_def ex_length_Suc [of 0])
next
  case (Suc k)
  have IH: "parse (goto q (MapData (Suc k) (acc @ [(x, y)]) None)) buf2 = (Ok (Some v), p', rest) \<longleftrightarrow>
      p' = q\<lparr>current_depth := current_depth q - 1\<rparr> \<and>
      (\<exists>ps. length ps = Suc k \<and> v = Map ((acc @ [(x, y)]) @ ps) \<and> runs q (flat_pairs ps) buf2 rest)"
    if "parse q buf = (Ok (Some x), q, buf1)" "parse q buf1 = (Ok (Some y), q, buf2)" for x y buf1 buf2
    using back_to_shorter [OF back_to_shorter [OF Suc.prems(1) that(1) order_refl] that(2) order_refl] Suc.prems(2)
    by (rule Suc.IH)
  show ?case
    using map_pair [OF Suc.prems(1), of "Suc k" acc] IH by (auto simp: Let_def ex_length_Suc [of "Suc k"])
qed

lemma map_collection_runs:
  assumes p: "state p = WaitingForType" and q: "back_to (deeper p) (length buf)"
  shows "parse p (37 # buf) = (Ok (Some v), p', rest) \<longleftrightarrow>
    p' = p \<and> (null_sized buf rest \<and> v = Null \<or>
      (\<exists>ps buf'. sized buf (length ps) buf' \<and> length ps \<le> min (max_array_len p) pair_capacity \<and>
         (ps \<noteq> [] \<longrightarrow> current_depth p < max_depth p) \<and> v = Map ps \<and> runs (deeper p) (flat_pairs ps) buf' rest))"
proof -
  have data: "parse (goto (deeper p) (MapData (Suc k) [] None)) buf' = (Ok (Some v), p', rest) \<longleftrightarrow>
      p' = p \<and> (\<exists>ps. length ps = Suc k \<and> v = Map ps \<and> runs (deeper p) (flat_pairs ps) buf' rest)"
    if "sized buf (Suc k) buf'" for k buf'
    using map_runs [OF map_header.sized_back [OF q that], of k "[]"] by simp
  show ?thesis
    unfolding map_header.header_frames [OF p] by_size using data by auto
qed

section \<open>The parser recognises the grammar\<close>

text \<open>A run between frames is a list of frames.\<close>

lemma runs_iff:
  assumes "\<And>x buf q' rest. length buf \<le> l \<Longrightarrow>
      parse q buf = (Ok (Some x), q', rest) \<longleftrightarrow> q' = q \<and> (\<exists>s. buf = s @ rest \<and> F x s)"
    and "length buf \<le> l"
  shows "runs q xs buf rest \<longleftrightarrow> (\<exists>ss. list_all2 F xs ss \<and> buf = concat ss @ rest)"
  using assms(2)
proof (induction xs arbitrary: buf)
  case (Cons x xs)
  have "runs q (x # xs) buf rest \<longleftrightarrow> (\<exists>s buf'. buf = s @ buf' \<and> F x s \<and> runs q xs buf' rest)"
    using assms(1) [OF Cons.prems] by auto
  also have "\<dots> \<longleftrightarrow> (\<exists>s buf' ss. buf = s @ buf' \<and> F x s \<and> list_all2 F xs ss \<and> buf' = concat ss @ rest)"
    using Cons.IH Cons.prems by (metis le_add2 le_trans length_append)
  also have "\<dots> \<longleftrightarrow> (\<exists>ss. list_all2 F (x # xs) ss \<and> buf = concat ss @ rest)"
    by (force simp: list_all2_Cons1)
  finally show ?case .
qed simp

text \<open>The rest of a frame after its type byte.\<close>

abbreviation after :: "usize \<Rightarrow> usize \<Rightarrow> nat \<Rightarrow> RespValue \<Rightarrow> u8 \<Rightarrow> bytes \<Rightarrow> bytes \<Rightarrow> bool" where
  "after b a d v c buf rest \<equiv> \<exists>t. buf = t @ rest \<and> resp_frame lenient b a d v (c # t)"

lemma after_line:
  "after b a d v 43 buf rest \<longleftrightarrow> (\<exists>s. take_line [] buf = Some (s, rest) \<and> v = SimpleString s)"
  "after b a d v 45 buf rest \<longleftrightarrow> (\<exists>s. take_line [] buf = Some (s, rest) \<and> v = Error s)"
  "after b a d v 40 buf rest \<longleftrightarrow> (\<exists>s. take_line [] buf = Some (s, rest) \<and> v = BigNumber s)"
  "after b a d v 58 buf rest \<longleftrightarrow> (\<exists>s n. take_line [] buf = Some (s, rest) \<and> line_i64 s = Some n \<and> v = Integer n)"
  "after b a d v 44 buf rest \<longleftrightarrow> (\<exists>s x. take_line [] buf = Some (s, rest) \<and> line_f64 s = Some x \<and> v = Double x)"
  "after b a d v 95 buf rest \<longleftrightarrow> buf = CRLF @ rest \<and> v = Null"
  "after b a d v 35 buf rest \<longleftrightarrow> (\<exists>c. buf = c # CRLF @ rest \<and> v = Boolean (c = 116))"
  by (auto simp: resp_frame_byte take_line_iff length_text_def)

lemma after_bulk:
  "after b a d v 36 buf rest \<longleftrightarrow> null_sized buf rest \<and> v = BulkString None \<or>
     (\<exists>k buf' data. sized buf k buf' \<and> k \<le> b \<and> read_payload k [] buf' = BulkDone data rest \<and> v = BulkString (Some data))"
  "after b a d v 33 buf rest \<longleftrightarrow> null_sized buf rest \<and> v = Null \<or>
     (\<exists>k buf' data. sized buf k buf' \<and> k \<le> b \<and> read_payload k [] buf' = BulkDone data rest \<and> v = BulkError data)"
  by (auto simp: resp_frame_byte sized_iff null_sized_iff read_payload_iff; blast)+

lemma verbatim_data:
  "4 \<le> length data \<and> data ! 3 = 58 \<and> v = VerbatimString (data ! 0, data ! 1, data ! 2) (drop 4 data) \<longleftrightarrow>
     (\<exists>f0 f1 f2 t. data = f0 # f1 # f2 # 58 # t \<and> v = VerbatimString (f0, f1, f2) t)"
  by (auto simp: numeral_eq_Suc Suc_le_length_iff)

lemma after_verbatim:
  "after b a d v 61 buf rest \<longleftrightarrow> null_sized buf rest \<and> v = Null \<or>
     (\<exists>k buf' data. sized buf k buf' \<and> k \<le> b \<and> read_payload k [] buf' = BulkDone data rest \<and>
        4 \<le> length data \<and> data ! 3 = 58 \<and> v = VerbatimString (data ! 0, data ! 1, data ! 2) (drop 4 data))"
  unfolding verbatim_data
  by (auto simp: resp_frame_byte sized_iff null_sized_iff read_payload_iff; blast)

lemma after_collection:
  "after b a d v 42 buf rest \<longleftrightarrow> null_sized buf rest \<and> v = Array None \<or>
     (\<exists>xs buf'. sized buf (length xs) buf' \<and> length xs \<le> min a value_capacity \<and> (xs \<noteq> [] \<longrightarrow> 0 < d) \<and> v = Array (Some xs) \<and>
        (\<exists>ss. list_all2 (resp_frame lenient b a (d - 1)) xs ss \<and> buf' = concat ss @ rest))"
  "after b a d v 126 buf rest \<longleftrightarrow> null_sized buf rest \<and> v = Null \<or>
     (\<exists>xs buf'. sized buf (length xs) buf' \<and> length xs \<le> min a value_capacity \<and> (xs \<noteq> [] \<longrightarrow> 0 < d) \<and> v = Set xs \<and>
        (\<exists>ss. list_all2 (resp_frame lenient b a (d - 1)) xs ss \<and> buf' = concat ss @ rest))"
  "after b a d v 62 buf rest \<longleftrightarrow>
     (\<exists>xs buf'. sized buf (length xs) buf' \<and> length xs \<le> min a value_capacity \<and> (xs \<noteq> [] \<longrightarrow> 0 < d) \<and> v = Push xs \<and>
        (\<exists>ss. list_all2 (resp_frame lenient b a (d - 1)) xs ss \<and> buf' = concat ss @ rest))"
  "after b a d v 37 buf rest \<longleftrightarrow> null_sized buf rest \<and> v = Null \<or>
     (\<exists>ps buf'. sized buf (length ps) buf' \<and> length ps \<le> min a pair_capacity \<and> (ps \<noteq> [] \<longrightarrow> 0 < d) \<and> v = Map ps \<and>
        (\<exists>ss. list_all2 (resp_frame lenient b a (d - 1)) (flat_pairs ps) ss \<and> buf' = concat ss @ rest))"
  by (auto simp: resp_frame_byte sized_iff null_sized_iff; blast)+

lemma frame_byte:
  assumes "resp_frame D b a d v s"
  obtains c t where "s = c # t" "c \<in> {43, 45, 58, 44, 40, 95, 35, 36, 33, 61, 42, 126, 62, 37}"
  using assms by (cases rule: resp_frame.cases) auto

lemma frame_after: "(\<exists>s. c # buf = s @ rest \<and> resp_frame lenient b a d v s) \<longleftrightarrow> after b a d v c buf rest"
proof
  assume "\<exists>s. c # buf = s @ rest \<and> resp_frame lenient b a d v s"
  then obtain s where s: "c # buf = s @ rest" "resp_frame lenient b a d v s" by blast
  obtain c' t where "s = c' # t" using frame_byte [OF s(2)] by blast
  with s show "after b a d v c buf rest" by auto
next
  assume "after b a d v c buf rest"
  then obtain t where "buf = t @ rest" "resp_frame lenient b a d v (c # t)" by blast
  then show "\<exists>s. c # buf = s @ rest \<and> resp_frame lenient b a d v s" by (intro exI [of _ "c # t"]) simp
qed

lemma no_frame_after:
  "c \<notin> {43, 45, 58, 44, 40, 95, 35, 36, 33, 61, 42, 126, 62, 37} \<Longrightarrow> \<not> after b a d v c buf rest"
  using frame_byte by blast

lemma runs_frames:
  assumes "\<forall>xs b k. sized buf k b \<longrightarrow> runs q xs b rest = (\<exists>ss. list_all2 F xs ss \<and> b = concat ss @ rest)"
  shows "(\<exists>xs b. sized buf (length xs) b \<and> length xs \<le> m \<and> (xs \<noteq> [] \<longrightarrow> i < (j :: nat)) \<and> v = f xs \<and> runs q (g xs) b rest) \<longleftrightarrow>
    (\<exists>xs b. sized buf (length xs) b \<and> length xs \<le> m \<and> (xs \<noteq> [] \<longrightarrow> 0 < j - i) \<and> v = f xs \<and>
       (\<exists>ss. list_all2 F (g xs) ss \<and> b = concat ss @ rest))"
  unfolding zero_less_diff by (intro iff_exI conj_cong refl assms [rule_format])

lemma parse_frames:
  "state p = WaitingForType \<Longrightarrow> parse p buf = (Ok (Some v), p', rest) \<longleftrightarrow>
     p' = p \<and> (\<exists>s. buf = s @ rest \<and>
       resp_frame lenient (max_bulk_size p) (max_array_len p) (max_depth p - current_depth p) v s)"
proof (induction "length buf" arbitrary: p buf v p' rest rule: less_induct)
  case less
  note p = less.prems
  let ?F = "resp_frame lenient (max_bulk_size p) (max_array_len p)" and ?d = "max_depth p - current_depth p"
  show ?case
  proof (cases buf)
    case Nil
    then show ?thesis using p by (auto simp: parse.simps [of p] parse_type_def elim: frame_byte)
  next
    case (Cons c buf')
    have sub: "parse (deeper p) b = (Ok (Some x), q', r) \<longleftrightarrow>
        q' = deeper p \<and> (\<exists>s. b = s @ r \<and> ?F (?d - 1) x s)" if "length b \<le> length buf'" for b x q' r
      using less.hyps [of b "deeper p"] that Cons p by simp
    then have bk: "back_to (deeper p) (length buf')" using p by (auto simp: back_to_def)
    have runs: "\<forall>xs b k. sized buf' k b \<longrightarrow>
        runs (deeper p) xs b rest = (\<exists>ss. list_all2 (?F (?d - 1)) xs ss \<and> b = concat ss @ rest)"
      using sub by (intro allI impI runs_iff [where l = "length buf'"]) (auto simp: sized_iff)
    have collections: "parse p (t # buf') = (Ok (Some v), p', rest) \<longleftrightarrow>
        p' = p \<and> after (max_bulk_size p) (max_array_len p) ?d v t buf' rest" if "t \<in> {42, 126, 62, 37}" for t
      using that array_grammar.collection_runs [OF p bk, of v p' rest] set_grammar.collection_runs [OF p bk, of v p' rest]
          push_grammar.collection_runs [OF p bk, of v p' rest] map_collection_runs [OF p bk, of v p' rest]
      unfolding runs_frames [OF runs, where g = "\<lambda>xs. xs"] runs_frames [OF runs, where g = flat_pairs]
      by (elim insertE emptyE) (simp_all add: after_collection eq_commute [of _ v])
    have "parse p (c # buf') = (Ok (Some v), p', rest) \<longleftrightarrow>
        p' = p \<and> after (max_bulk_size p) (max_array_len p) ?d v c buf' rest"
    proof (cases "c \<in> {43, 45, 58, 44, 40, 95, 35, 36, 33, 61, 42, 126, 62, 37}")
      case False
      then have "parse p (c # buf') = (Err (InvalidTypeMarker c), p, buf')"
        using p by (simp add: parse.simps [of p] parse_type_def)
      then show ?thesis using no_frame_after [OF False] by simp
    next
      case True
      then show ?thesis
        by (elim insertE emptyE)
          (simp_all only: line_frames [OF p] fixed_frames [OF p] bulk_frames [OF p]
            after_line after_bulk after_verbatim collections insert_iff simp_thms)
    qed
    then show ?thesis unfolding Cons frame_after .
  qed
qed

section \<open>Properties of the grammar\<close>

text \<open>Larger limits have more frames, and the encoder writes frames.\<close>

lemma resp_frame_mono:
  "resp_frame D b a d v s \<Longrightarrow> b \<le> b' \<Longrightarrow> a \<le> a' \<Longrightarrow> d \<le> d' \<Longrightarrow> resp_frame D b' a' d' v s"
proof (induction arbitrary: d' rule: resp_frame.induct)
  case (array s xs d ss)
  then show ?case by (intro resp_frame.array) (auto elim!: list_all2_mono)
next
  case (set s xs d ss)
  then show ?case by (intro resp_frame.set) (auto elim!: list_all2_mono)
next
  case (push s xs d ss)
  then show ?case by (intro resp_frame.push) (auto elim!: list_all2_mono)
next
  case (map s ps d ss)
  then show ?case by (intro resp_frame.map) (auto elim!: list_all2_mono)
qed (use resp_frame.intros in fastforce)+

lemma resp_frame_wire:
  assumes "max_bulk_size p < 2 ^ 63" "max_array_len p \<le> pair_capacity" "accepts p v"
  shows "resp_frame lenient (max_bulk_size p) (max_array_len p) (max_depth p - current_depth p) v (wire v)"
proof -
  let ?p = "goto p WaitingForType"
  have "parser_ready ?p" "accepts ?p v" using assms by (simp_all add: parser_ready_def accepts_def)
  then have "parse ?p (wire v @ []) = (Ok (Some v), ?p, [])" by (rule parse_wire)
  then show ?thesis using parse_frames [of ?p "wire v @ []" v ?p "[]"] by auto
qed

text \<open>What a frame outside the documented dialect contains: a boolean that is neither true nor false, the
  line of a simple string or an error longer than a megabyte, or a big number that is not digits.\<close>

definition strays :: "bytes \<Rightarrow> bool" where
  "strays s \<longleftrightarrow>
     (\<exists>c. sublist (35 # c # CRLF) s \<and> c \<noteq> 116 \<and> c \<noteq> 102) \<or>
     (\<exists>c t. c \<in> {43, 45} \<and> sublist (c # t @ CRLF) s \<and> find_crlf t = None \<and> 1024 * 1024 < length t) \<or>
     (\<exists>t. sublist (40 # t @ CRLF) s \<and> find_crlf t = None \<and> \<not> big_digits t)"

lemma strays_sublist: "strays s \<Longrightarrow> sublist s s' \<Longrightarrow> strays s'"
  unfolding strays_def by (meson sublist_order.order_trans)

lemma strays_concat: "s \<in> set ss \<Longrightarrow> strays s \<Longrightarrow> strays (c # h @ concat ss)"
proof -
  assume s: "s \<in> set ss" "strays s"
  then obtain us vs where "ss = us @ s # vs" by (meson split_list)
  then have "sublist s (c # h @ concat ss)"
    unfolding sublist_def by (intro exI [of _ "c # h @ concat us"] exI [of _ "concat vs"]) simp
  with s(2) show ?thesis by (rule strays_sublist)
qed

lemma frames_stray:
  assumes "list_all2 (\<lambda>x s. resp_frame lenient b a d x s \<and> (resp_frame documented b a d x s \<or> strays s)) xs ss"
  shows "list_all2 (resp_frame documented b a d) xs ss \<or> strays (c # h @ CRLF @ concat ss)"
proof (cases "\<exists>s \<in> set ss. strays s")
  case True
  then show ?thesis using strays_concat [of _ ss c "h @ CRLF"] by auto
next
  case False
  then show ?thesis using assms by (auto simp: list_all2_conv_all_nth)
qed

lemma lenient_frame: "resp_frame lenient b a d v s \<Longrightarrow> resp_frame documented b a d v s \<or> strays s"
proof (induction rule: resp_frame.induct)
  case (array s xs d ss)
  then show ?case using frames_stray [OF array.IH, of 42 s] resp_frame.array by blast
next
  case (set s xs d ss)
  then show ?case using frames_stray [OF set.IH, of 126 s] resp_frame.set by blast
next
  case (push s xs d ss)
  then show ?case using frames_stray [OF push.IH, of 62 s] resp_frame.push by blast
next
  case (map s ps d ss)
  then show ?case using frames_stray [OF map.IH, of 37 s] resp_frame.map by blast
next
  case (simple s d)
  then show ?case
    by (cases "length s \<le> 1024 * 1024")
      (auto simp: strays_def intro!: resp_frame.simple exI [of _ 43] exI [of _ s])
next
  case (error s d)
  then show ?case
    by (cases "length s \<le> 1024 * 1024")
      (auto simp: strays_def intro!: resp_frame.error exI [of _ 45] exI [of _ s])
next
  case (big_number s d)
  then show ?case
    by (cases "big_digits s") (auto simp: strays_def intro: resp_frame.big_number)
next
  case (boolean c d)
  then show ?case
    by (cases "c = 116 \<or> c = 102") (auto simp: strays_def intro: resp_frame.boolean)
qed (use resp_frame.intros in fastforce)+

lemma documented_frame: "resp_frame documented b a d v s \<Longrightarrow> resp_frame lenient b a d v s"
proof (induction rule: resp_frame.induct)
  case (array s xs d ss)
  then show ?case by (intro resp_frame.array) (auto elim!: list_all2_mono)
next
  case (set s xs d ss)
  then show ?case by (intro resp_frame.set) (auto elim!: list_all2_mono)
next
  case (push s xs d ss)
  then show ?case by (intro resp_frame.push) (auto elim!: list_all2_mono)
next
  case (map s ps d ss)
  then show ?case by (intro resp_frame.map) (auto elim!: list_all2_mono)
qed (use resp_frame.intros in fastforce)+

text \<open>C2: what the parser recognises, against the documented grammar. A call between frames returns a value
  and leaves some bytes exactly when the buffer is a frame of that value in the lenient dialect,
  within the size limits and the levels still free, followed by these bytes, and then the parser is
  as it was before the call. Every frame of the documented dialect is one of them; and a buffer
  the parser takes as one frame though it is not documented contains the text of a boolean other than
  \<open>t\<close> and \<open>f\<close>, of a simple string or error of more than a megabyte, or of a big number that is not digits.
  These are departures of the parser from its documentation, not part of the protocol.\<close>

theorem parser_recognises_grammar:
  assumes "state p = WaitingForType"
    and "frame = (\<lambda>D. resp_frame D (max_bulk_size p) (max_array_len p) (max_depth p - current_depth p))"
  shows "(parse p buf = (Ok (Some v), p', rest) \<longleftrightarrow> p' = p \<and> (\<exists>s. buf = s @ rest \<and> frame lenient v s)) \<and>
    (frame documented v t \<longrightarrow> parse p (t @ rest) = (Ok (Some v), p, rest)) \<and>
    (parse p t = (Ok (Some v), p, []) \<longrightarrow> frame documented v t \<or> strays t)"
  using parse_frames [OF assms(1)] documented_frame lenient_frame unfolding assms(2) by auto

lemma padded_texts: "line_i64 [43, 48, 55] = Some 7" "line_i64 [48, 49] = Some 1"
  by code_simp+

theorem parser_recognises_grammar_witness:
  "parse new_parser ([42, 48, 49, 13, 10, 58, 43, 48, 55, 13, 10] @ [1, 2]) =
     (Ok (Some (Array (Some [Integer 7]))), new_parser, [1, 2])"
proof -
  have "resp_frame documented (max_bulk_size new_parser) (max_array_len new_parser) (max_depth new_parser - 1)
      (Integer 7) (58 # [43, 48, 55] @ CRLF)"
    by (rule resp_frame.integer) (simp add: length_text_def padded_texts)
  then have frame: "resp_frame documented (max_bulk_size new_parser) (max_array_len new_parser)
      (max_depth new_parser - current_depth new_parser) (Array (Some [Integer 7]))
      (42 # [48, 49] @ CRLF @ concat [58 # [43, 48, 55] @ CRLF])"
    by (intro resp_frame.array) (auto simp: size_text_def length_text_def padded_texts new_parser_def
        max_capacity_def size_of_RespValue_def)
  have "state new_parser = WaitingForType" by (simp add: new_parser_def)
  from parser_recognises_grammar [OF this refl, THEN conjunct2, THEN conjunct1, rule_format, OF frame, of "[1, 2]"]
  show ?thesis by simp
qed

text \<open>A boolean that is neither true nor false is read as false.\<close>

lemma stray_boolean: "state p = WaitingForType \<Longrightarrow> parse p (35 # 120 # CRLF) = (Ok (Some (Boolean False)), p, [])"
  using fixed_frames(2) [of p "120 # CRLF" "Boolean False" p "[]"] by simp

text \<open>Raising limits takes nothing away: what a parser returns for a buffer, the same parser with larger
  limits on sizes and nesting returns too.\<close>

theorem larger_limits_keep_values:
  assumes "state p = WaitingForType" "parse p buf = (Ok (Some v), p', rest)"
    and "max_bulk_size p \<le> b" "max_array_len p \<le> a" "max_depth p \<le> d"
    and "q = with_max_depth (with_max_array_len (with_max_bulk_size p b) a) d"
  shows "parse q buf = (Ok (Some v), q, rest)"
proof -
  obtain s where s: "buf = s @ rest"
    "resp_frame lenient (max_bulk_size p) (max_array_len p) (max_depth p - current_depth p) v s"
    using parse_frames [OF assms(1)] assms(2) by blast
  have q: "state q = WaitingForType" "max_bulk_size q = b" "max_array_len q = a" "max_depth q = d"
    "current_depth q = current_depth p"
    using assms(1,6) by (simp_all add: with_max_depth_def with_max_array_len_def with_max_bulk_size_def)
  have "resp_frame lenient b a (d - current_depth p) v s"
    using assms(3-5) by (intro resp_frame_mono [OF s(2)]) simp_all
  then show ?thesis using s(1) q parse_frames [of q buf v q rest] by auto
qed

theorem larger_limits_keep_values_witness:
  "parse (with_max_depth new_parser 99) (wire (Integer 7)) = (Ok (Some (Integer 7)), with_max_depth new_parser 99, [])"
proof -
  have "parse new_parser (wire (Integer 7) @ []) = (Ok (Some (Integer 7)), new_parser, [])"
    by (rule parse_wire) (simp_all add: accepts_def new_parser_def parser_ready_def)
  then show ?thesis
    using larger_limits_keep_values [of new_parser "wire (Integer 7)" "Integer 7" new_parser "[]"
        "max_bulk_size new_parser" "max_array_len new_parser" 99]
    by (simp add: with_max_depth_def with_max_array_len_def with_max_bulk_size_def new_parser_def)
qed

end
