(* ===== verification/Resp_Final.thy ===== *)
theory Resp_Final
  imports Resp_Grammar Resp_Streaming
begin

text \<open>
  What the parser has decided it does not take back. A call that returns anything but a request for
  more input, a value as well as an error, returns the same when more bytes follow the ones it was
  given. With the grammar this shows that errors are justified: input that is refused cannot be
  completed to a frame.
\<close>

section \<open>More bytes in the buffer\<close>

fun with_more :: "bytes \<Rightarrow> iter \<Rightarrow> iter" where
  "with_more x (Return r p buf) = Return r p (buf @ x)"
| "with_more x (Continue p buf) = Continue p (buf @ x)"

fun decided :: "iter \<Rightarrow> bool" where
  "decided (Return (Ok None) p buf) \<longleftrightarrow> False"
| "decided it \<longleftrightarrow> True"

lemma decided_Return: "decided (Return r p buf) \<longleftrightarrow> r \<noteq> Ok None"
  by (cases "Return r p buf" rule: decided.cases) auto

lemma read_payload_more:
  "read_payload k d buf = BulkPanic \<Longrightarrow> read_payload k d (buf @ x) = BulkPanic"
  "read_payload k d buf = BulkBad s \<Longrightarrow> read_payload k d (buf @ x) = BulkBad s"
  by (auto simp: read_payload_def Let_def split: if_splits)

lemma extend_type: "decided (parse_type p buf) \<Longrightarrow> parse_type p (buf @ x) = with_more x (parse_type p buf)"
  by (cases buf) (auto simp: parse_type_def hd_append split: if_splits)

lemma extend_line:
  "decided (parse_simple_string p d buf) \<Longrightarrow> parse_simple_string p d (buf @ x) = with_more x (parse_simple_string p d buf)"
  "decided (parse_error p d buf) \<Longrightarrow> parse_error p d (buf @ x) = with_more x (parse_error p d buf)"
  "decided (parse_integer p d buf) \<Longrightarrow> parse_integer p d (buf @ x) = with_more x (parse_integer p d buf)"
  "decided (parse_double p d buf) \<Longrightarrow> parse_double p d (buf @ x) = with_more x (parse_double p d buf)"
  "decided (parse_big_number p d buf) \<Longrightarrow> parse_big_number p d (buf @ x) = with_more x (parse_big_number p d buf)"
  by (cases "take_line d buf"; auto simp: line_defs take_line_append_Some split: option.split)+

lemma extend_bulk_len:
  "decided (parse_bulk_string_len p d buf) \<Longrightarrow>
     parse_bulk_string_len p d (buf @ x) = with_more x (parse_bulk_string_len p d buf)"
  "decided (parse_bulk_error_len p d buf) \<Longrightarrow>
     parse_bulk_error_len p d (buf @ x) = with_more x (parse_bulk_error_len p d buf)"
  "decided (parse_verbatim_string_len p d buf) \<Longrightarrow>
     parse_verbatim_string_len p d (buf @ x) = with_more x (parse_verbatim_string_len p d buf)"
  by (cases "read_length d buf"; simp add: bulk_len_defs read_length_append Let_def split: if_splits)+

lemma extend_bulk_data:
  "decided (parse_bulk_string_data p k d buf) \<Longrightarrow>
     parse_bulk_string_data p k d (buf @ x) = with_more x (parse_bulk_string_data p k d buf)"
  "decided (parse_bulk_error_data p k d buf) \<Longrightarrow>
     parse_bulk_error_data p k d (buf @ x) = with_more x (parse_bulk_error_data p k d buf)"
  "decided (parse_verbatim_string_data p k d buf) \<Longrightarrow>
     parse_verbatim_string_data p k d (buf @ x) = with_more x (parse_verbatim_string_data p k d buf)"
  by (cases "read_payload k d buf"; auto simp: bulk_data_defs read_payload_more read_payload_append_Done)+

lemma extend_open: "open_collection p c k v s (buf @ x) = with_more x (open_collection p c k v s buf)"
  by (simp add: open_collection_def)

lemma extend_coll_len:
  "decided (parse_array_len p d buf) \<Longrightarrow> parse_array_len p d (buf @ x) = with_more x (parse_array_len p d buf)"
  "decided (parse_map_len p d buf) \<Longrightarrow> parse_map_len p d (buf @ x) = with_more x (parse_map_len p d buf)"
  "decided (parse_set_len p d buf) \<Longrightarrow> parse_set_len p d (buf @ x) = with_more x (parse_set_len p d buf)"
  "decided (parse_push_len p d buf) \<Longrightarrow> parse_push_len p d (buf @ x) = with_more x (parse_push_len p d buf)"
  by (cases "read_length d buf";
      auto simp: parse_array_len_def parse_map_len_def parse_set_len_def parse_push_len_def
        read_length_append extend_open Let_def)+

lemmas extend_handlers = extend_type extend_line extend_bulk_len extend_bulk_data extend_coll_len

lemma extend_close: "close_collection p v (buf @ x) = with_more x (close_collection p v buf)"
  by (simp add: close_collection_def)

lemma step_more:
  "step_state s p buf = Iter it \<Longrightarrow> decided it \<Longrightarrow> step_state s p (buf @ x) = Iter (with_more x it)"
  by (cases s) (auto simp: extend_handlers coll_data_defs split: if_splits)

lemma step_Descend_more: "step_state s p buf = Descend fr q \<Longrightarrow> step_state s p (buf @ x) = Descend fr q"
  by (cases s) (auto simp: coll_data_defs split: if_splits)

lemma map_element_more: "map_element k ps key (Some v) p (buf @ x) = with_more x (map_element k ps key (Some v) p buf)"
  by (cases key) (simp_all add: Let_def extend_close)

lemma resume_more: "resume fr r p (buf @ x) = with_more x (resume fr r p buf)"
proof (cases r)
  case (Ok y)
  then show ?thesis
    by (cases fr; cases y) (auto simp: Let_def extend_close map_element_more)
qed (cases fr; simp)+

lemma resume_undecided: "\<exists>p'. resume fr (Ok None) p buf = Return (Ok None) p' buf"
  by (cases fr) auto

lemma parse_more:
  "parse p buf = (r, p', rest) \<Longrightarrow> r \<noteq> Ok None \<Longrightarrow> parse p (buf @ x) = (r, p', rest @ x)"
proof (induction p buf arbitrary: r p' rest rule: parse.induct)
  case (1 p buf)
  show ?case
  proof (cases "step_state (state p) p buf")
    case (Iter it)
    show ?thesis
    proof (cases it)
      case (Return r1 p1 b1)
      then have "(r1, p1, b1) = (r, p', rest)" using "1.prems"(1) Iter by (simp add: parse.simps [of p])
      moreover have "decided it" using calculation Return "1.prems"(2) by (auto simp: decided_Return)
      ultimately show ?thesis
        using step_more [OF Iter, of x] Return by (simp add: parse.simps [of p])
    next
      case (Continue p1 b1)
      then have "parse p1 (b1 @ x) = (r, p', rest @ x)"
        using "1.prems" "1.IH"(1) [OF Iter Continue] Iter by (simp add: parse.simps [of p])
      then show ?thesis using step_more [OF Iter, of x] Continue by (simp add: parse.simps [of p "buf @ x"])
    qed
  next
    case (Descend fr q)
    obtain r2 q2 b2 where sub: "parse q buf = (r2, q2, b2)" by (metis prod_cases3)
    have run: "(case resume fr r2 q2 b2 of Return r p3 b3 \<Rightarrow> (r, p3, b3) | Continue p3 b3 \<Rightarrow> parse p3 b3) = (r, p', rest)"
      using "1.prems"(1) Descend sub by (simp add: parse.simps [of p])
    then have "r2 \<noteq> Ok None" using resume_undecided [of fr q2 b2] "1.prems"(2) by auto
    then have sub': "parse q (buf @ x) = (r2, q2, b2 @ x)" using "1.IH"(2) [OF Descend sub] by blast
    have step: "parse p (buf @ x) =
        (case with_more x (resume fr r2 q2 b2) of Return r p3 b3 \<Rightarrow> (r, p3, b3) | Continue p3 b3 \<Rightarrow> parse p3 b3)"
      using step_Descend_more [OF Descend, of x] sub' by (simp add: parse.simps [of p "buf @ x"] resume_more)
    show ?thesis
    proof (cases "resume fr r2 q2 b2")
      case (Return r3 p3 b3)
      then show ?thesis using run step by simp
    next
      case (Continue p3 b3)
      then have "parse p3 (b3 @ x) = (r, p', rest @ x)"
        using run "1.IH"(3) [OF Descend sub [symmetric] refl Continue] "1.prems"(2) by simp
      then show ?thesis using step Continue by simp
    qed
  qed
qed

section \<open>Properties\<close>

text \<open>C7: a decision is final. From every state of the parser, a call that returns a value, an error or
  panics does so whatever bytes follow those in the buffer, leaves the parser in the same state and
  the following bytes in the buffer.\<close>

theorem decided_is_final:
  assumes "parse p buf = (r, p', rest)" "r \<noteq> Ok None"
  shows "parse p (buf @ x) = (r, p', rest @ x)"
  using assms by (rule parse_more)

theorem decided_is_final_witness:
  "parse new_parser ((43 # CRLF) @ [1, 2]) = (Ok (Some (SimpleString [])), new_parser, [] @ [1, 2])"
  by (rule decided_is_final) (simp_all add: run_simps new_parser_def take_line_def)

text \<open>C8: errors are justified. When a call between frames refuses its buffer, no bytes that could still
  arrive would have made it a frame, within the limits of the parser, and what follows it, not even in the
  lenient dialect and so not in the documented one.\<close>

theorem errors_are_justified:
  assumes "state p = WaitingForType" "parse p buf = (Err e, p', rest)"
    and "resp_frame lenient (max_bulk_size p) (max_array_len p) (max_depth p - current_depth p) v s"
  shows "buf @ x \<noteq> s @ t"
proof
  assume "buf @ x = s @ t"
  then have "parse p (buf @ x) = (Ok (Some v), p, t)" using parse_frames [OF assms(1)] assms(3) by auto
  moreover have "parse p (buf @ x) = (Err e, p', rest @ x)" using parse_more [OF assms(2)] by simp
  ultimately show False by simp
qed

theorem errors_are_justified_witness:
  "parse new_parser [7] = (Err (InvalidTypeMarker 7), new_parser, []) \<and> [7] @ [1] \<noteq> (95 # CRLF) @ []"
proof -
  have err: "parse new_parser [7] = (Err (InvalidTypeMarker 7), new_parser, [])"
    by (simp add: parse.simps new_parser_def parse_type_def)
  then show ?thesis
    using errors_are_justified [OF _ err resp_frame.null, of "[1]" "[]"] by (simp add: new_parser_def)
qed

end
