(* ===== verification/Rocks_Node.thy ===== *)
theory Rocks_Node
  imports Rocks_Machine_Props
begin

text \<open>
  A node on RocksDB over its lifetime. openraft calls the log storage and the state machine of the
  data group in any order; both work on one database. A call is an append, a truncation, a purge, a
  saved vote, an applied batch, a restart, or a crash between two entries of an applied batch, which
  is followed by a restart. The specification keeps the log as a map from indices to entries and
  everything else as values; every sequence of permitted calls (\<open>calls_ok\<close>) refines it.
\<close>

section \<open>Calls\<close>








section \<open>The specification\<close>








section \<open>The relation\<close>







section \<open>The last index\<close>








section \<open>The effect of a call on the database\<close>









section \<open>Simulation\<close>























section \<open>What is read\<close>









section \<open>Properties\<close>







end
