(* ===== verification/Storage_Trait.thy ===== *)
theory Storage_Trait
  imports Rocks_Keys
begin

text \<open>
  The trait \<open>StorageBackend\<close> of \<open>crates/storage/src/storage_trait.rs\<close>, as a record of its methods, with
  the behaviour its documentation asks of an implementation as a locale. What a client may conclude
  is proved once in the locale; \<open>Storage\<close>, whose methods have the same signatures, satisfies it over
  every healthy RocksDB.
\<close>

section \<open>The trait\<close>

record ('s, 'it) StorageBackend =
  sb_get :: "'s \<Rightarrow> ColumnFamily \<Rightarrow> bytes \<Rightarrow> bytes option sres \<times> 's"
  sb_put :: "'s \<Rightarrow> ColumnFamily \<Rightarrow> bytes \<Rightarrow> bytes \<Rightarrow> unit sres \<times> 's"
  sb_delete :: "'s \<Rightarrow> ColumnFamily \<Rightarrow> bytes \<Rightarrow> unit sres \<times> 's"
  sb_batch_write :: "'s \<Rightarrow> WriteBatch \<Rightarrow> unit sres \<times> 's"
  sb_get_iter :: "'s \<Rightarrow> ColumnFamily \<Rightarrow> 'it sres"

section \<open>The contract\<close>

type_synonym cf_map = "ColumnFamily \<Rightarrow> bytes \<rightharpoonup> bytes"

fun cf_effect :: "BatchOperation \<Rightarrow> cf_map \<Rightarrow> cf_map" where
  "cf_effect (Put cf k v) m = m(cf := (m cf)(k \<mapsto> v))"
| "cf_effect (Delete cf k) m = m(cf := (m cf)(k := None))"

text \<open>The last write to a key of a column family in a sequence of operations.\<close>

fun cf_written :: "ColumnFamily \<Rightarrow> bytes \<Rightarrow> BatchOperation \<Rightarrow> bytes option option" where
  "cf_written cf k (Put cf' k' v) = (if cf' = cf \<and> k' = k then Some (Some v) else None)"
| "cf_written cf k (Delete cf' k') = (if cf' = cf \<and> k' = k then Some None else None)"

fun last_cf_write :: "ColumnFamily \<Rightarrow> bytes \<Rightarrow> BatchOperation list \<Rightarrow> bytes option option" where
  "last_cf_write cf k [] = None"
| "last_cf_write cf k (w # ws) =
     (case last_cf_write cf k ws of Some v \<Rightarrow> Some v | None \<Rightarrow> cf_written cf k w)"

lemma fold_cf_effect:
  "fold cf_effect ws m cf k = (case last_cf_write cf k ws of Some v \<Rightarrow> v | None \<Rightarrow> m cf k)"
proof (induction ws arbitrary: m)
  case (Cons w ws)
  have "cf_effect w m cf k = (case cf_written cf k w of Some v \<Rightarrow> v | None \<Rightarrow> m cf k)" by (cases w) auto
  with Cons show ?case by (auto split: option.split)
qed simp

text \<open>Writes through the trait: a single operation, or a batch.\<close>

datatype backend_write = Single BatchOperation | Batch WriteBatch

fun trait_write :: "('s, 'it) StorageBackend \<Rightarrow> backend_write \<Rightarrow> 's \<Rightarrow> unit sres \<times> 's" where
  "trait_write T (Single (Put cf k v)) s = sb_put T s cf k v"
| "trait_write T (Single (Delete cf k)) s = sb_delete T s cf k"
| "trait_write T (Batch b) s = sb_batch_write T s b"

fun trait_writes :: "('s, 'it) StorageBackend \<Rightarrow> backend_write list \<Rightarrow> 's \<Rightarrow> unit sres list \<times> 's" where
  "trait_writes T [] s = ([], s)"
| "trait_writes T (w # ws) s =
     (case trait_write T w s of (r, s') \<Rightarrow> (case trait_writes T ws s' of (rs, s'') \<Rightarrow> (r # rs, s'')))"

fun write_ops :: "backend_write \<Rightarrow> BatchOperation list" where
  "write_ops (Single op) = [op]"
| "write_ops (Batch b) = operations b"

text \<open>The operations of the writes that were answered with success.\<close>

fun accepted_ops :: "backend_write list \<Rightarrow> unit sres list \<Rightarrow> BatchOperation list" where
  "accepted_ops (w # ws) (r # rs) = (if r = SOk () then write_ops w else []) @ accepted_ops ws rs"
| "accepted_ops _ _ = []"

locale storage_backend =
  fixes T :: "('s, 'it) StorageBackend"
    and valid :: "'s \<Rightarrow> bool"
    and contents :: "'s \<Rightarrow> cf_map"
  assumes get_law: "valid s \<Longrightarrow> sb_get T s cf k = (SOk (contents s cf k), s)"
    and put_law: "valid s \<Longrightarrow> sb_put T s cf k v = (r, s') \<Longrightarrow>
      r = SOk () \<and> valid s' \<and> contents s' = cf_effect (Put cf k v) (contents s)"
    and delete_law: "valid s \<Longrightarrow> sb_delete T s cf k = (r, s') \<Longrightarrow>
      r = SOk () \<and> valid s' \<and> contents s' = cf_effect (Delete cf k) (contents s)"
    and batch_law: "valid s \<Longrightarrow> sb_batch_write T s b = (r, s') \<Longrightarrow>
      valid s' \<and> contents s' = (if r = SOk () then fold cf_effect (operations b) (contents s) else contents s)"
begin

lemma write_contents:
  assumes "valid s" "trait_write T w s = (r, s')"
  shows "valid s' \<and> contents s' = (if r = SOk () then fold cf_effect (write_ops w) (contents s) else contents s)"
proof (cases w)
  case (Single op)
  show ?thesis
  proof (cases op)
    case (Put cf k v)
    then have "sb_put T s cf k v = (r, s')" using assms(2) Single by simp
    from put_law [OF assms(1) this] show ?thesis using Single Put by simp
  next
    case (Delete cf k)
    then have "sb_delete T s cf k = (r, s')" using assms(2) Single by simp
    from delete_law [OF assms(1) this] show ?thesis using Single Delete by simp
  qed
next
  case (Batch b)
  then show ?thesis using assms batch_law by simp
qed

lemma writes_contents:
  "valid s \<Longrightarrow> trait_writes T ws s = (rs, s') \<Longrightarrow>
     valid s' \<and> contents s' = fold cf_effect (accepted_ops ws rs) (contents s)"
proof (induction ws arbitrary: s rs)
  case (Cons w ws)
  obtain r s1 where w: "trait_write T w s = (r, s1)" by force
  obtain rs' where ws: "trait_writes T ws s1 = (rs', s')" "rs = r # rs'"
    using Cons.prems(2) w by (auto split: prod.splits)
  have "valid s1" "contents s1 = (if r = SOk () then fold cf_effect (write_ops w) (contents s) else contents s)"
    using write_contents [OF Cons.prems(1) w] by blast+
  with Cons.IH [OF _ ws(1)] ws(2) show ?case by auto
qed simp

lemma reads_last_write:
  assumes "valid s" "trait_writes T ws s = (rs, s')"
  shows "fst (sb_get T s' cf k) =
    SOk (case last_cf_write cf k (accepted_ops ws rs) of Some v \<Rightarrow> v | None \<Rightarrow> contents s cf k)"
  using writes_contents [OF assms] by (simp add: get_law fold_cf_effect)

end

section \<open>The RocksDB storage\<close>

definition storage_methods :: "('d, 'i) rocksdb \<Rightarrow> ('d Storage, 'i StorageIterator) StorageBackend" where
  "storage_methods R =
     \<lparr>sb_get = get R, sb_put = put R, sb_delete = delete R, sb_batch_write = batch_write R,
      sb_get_iter = (\<lambda>s cf. storage_iterator R s cf Start)\<rparr>"

definition storage_contents :: "('d \<Rightarrow> store_map) \<Rightarrow> 'd Storage \<Rightarrow> cf_map" where
  "storage_contents store s = (\<lambda>cf. store (db s) (as_str cf))"

lemma cf_effect_rocks:
  "op_effect (rocks_of w) m (as_str cf) = cf_effect w (\<lambda>cf. m (as_str cf)) cf"
  by (cases w) (auto simp: as_str_inj)

lemma fold_cf_effect_rocks:
  "fold op_effect (map rocks_of ws) m (as_str cf) = fold cf_effect ws (\<lambda>cf. m (as_str cf)) cf"
proof (induction ws arbitrary: m)
  case (Cons w ws)
  have "(\<lambda>cf. op_effect (rocks_of w) m (as_str cf)) = cf_effect w (\<lambda>cf. m (as_str cf))"
    by (rule ext) (rule cf_effect_rocks)
  with Cons [of "op_effect (rocks_of w) m"] show ?case by simp
qed simp

locale healthy_rocksdb =
  fixes R :: "('d, 'i) rocksdb"
    and store :: "'d \<Rightarrow> store_map"
    and cursor :: "'i \<Rightarrow> (bytes \<times> bytes) list \<times> nat"
  assumes healthy: "rocks_ok R store cursor"

lemma batch_write_too_large:
  "MAX_BATCH_OPERATIONS < length (operations b) \<Longrightarrow>
     batch_write R s b = (SErr (BatchTooLarge (length (operations b)) MAX_BATCH_OPERATIONS), s)"
  by (auto simp: batch_write_def batch_is_empty_def)

sublocale healthy_rocksdb \<subseteq> storage: storage_backend "storage_methods R" "\<lambda>s. handles_ok R (db s)" "storage_contents store"
proof unfold_locales
  fix s s' :: "'d Storage" and cf k v r b
  assume s: "handles_ok R (db s)"
  show "sb_get (storage_methods R) s cf k = (SOk (storage_contents store s cf k), s)"
    using get_spec [OF healthy s] by (simp add: storage_methods_def storage_contents_def)
  show "r = SOk () \<and> handles_ok R (db s') \<and>
      storage_contents store s' = cf_effect (Put cf k v) (storage_contents store s)"
    if "sb_put (storage_methods R) s cf k v = (r, s')"
  proof -
    obtain d where "put R s cf k v = (SOk (), s\<lparr>db := d\<rparr>)" "handles_ok R d"
      "store d = op_effect (rocks_of (Put cf k v)) (store (db s))"
      using put_spec [OF healthy s] by (metis rocks_of.simps(1))
    with that show ?thesis
      by (auto simp: storage_methods_def storage_contents_def fun_eq_iff cf_effect_rocks simp del: rocks_of.simps cf_effect.simps)
  qed
  show "r = SOk () \<and> handles_ok R (db s') \<and>
      storage_contents store s' = cf_effect (Delete cf k) (storage_contents store s)"
    if "sb_delete (storage_methods R) s cf k = (r, s')"
  proof -
    obtain d where "delete R s cf k = (SOk (), s\<lparr>db := d\<rparr>)" "handles_ok R d"
      "store d = op_effect (rocks_of (Delete cf k)) (store (db s))"
      using delete_spec [OF healthy s] by (metis rocks_of.simps(2))
    with that show ?thesis
      by (auto simp: storage_methods_def storage_contents_def fun_eq_iff cf_effect_rocks simp del: rocks_of.simps cf_effect.simps)
  qed
  show "handles_ok R (db s') \<and> storage_contents store s' =
      (if r = SOk () then fold cf_effect (operations b) (storage_contents store s) else storage_contents store s)"
    if "sb_batch_write (storage_methods R) s b = (r, s')"
  proof (cases "length (operations b) \<le> MAX_BATCH_OPERATIONS")
    case True
    obtain d where "batch_write R s b = (SOk (), s\<lparr>db := d\<rparr>)" "handles_ok R d"
      "store d = fold op_effect (map rocks_of (operations b)) (store (db s))"
      using batch_write_spec [OF healthy s True] by blast
    with that show ?thesis
      by (auto simp: storage_methods_def storage_contents_def fun_eq_iff fold_cf_effect_rocks)
  next
    case False
    with that s show ?thesis by (auto simp: storage_methods_def batch_write_too_large)
  qed
qed

text \<open>Which writes are accepted.\<close>

fun write_answer :: "backend_write \<Rightarrow> unit sres" where
  "write_answer (Single _) = SOk ()"
| "write_answer (Batch b) =
     (if MAX_BATCH_OPERATIONS < length (operations b)
      then SErr (BatchTooLarge (length (operations b)) MAX_BATCH_OPERATIONS) else SOk ())"

context healthy_rocksdb
begin

lemmas storage_reads = storage.reads_last_write

lemma storage_answer:
  assumes "handles_ok R (db s)" "trait_write (storage_methods R) w s = (r, s')"
  shows "r = write_answer w"
proof (cases w)
  case (Single op)
  then show ?thesis
    using assms(2) storage.put_law [OF assms(1)] storage.delete_law [OF assms(1)]
    by (cases op) (metis trait_write.simps write_answer.simps)+
next
  case (Batch b)
  show ?thesis
  proof (cases "length (operations b) \<le> MAX_BATCH_OPERATIONS")
    case True
    then obtain d where "batch_write R s b = (SOk (), s\<lparr>db := d\<rparr>)"
      using batch_write_spec [OF healthy assms(1) True] by blast
    then show ?thesis using assms(2) Batch True by (simp add: storage_methods_def)
  next
    case False
    then show ?thesis using assms(2) Batch by (simp add: storage_methods_def batch_write_too_large)
  qed
qed

lemma storage_answers:
  "handles_ok R (db s) \<Longrightarrow> trait_writes (storage_methods R) ws s = (rs, s') \<Longrightarrow> rs = map write_answer ws"
proof (induction ws arbitrary: s rs)
  case (Cons w ws)
  obtain r s1 where w: "trait_write (storage_methods R) w s = (r, s1)" by force
  obtain rs' where ws: "trait_writes (storage_methods R) ws s1 = (rs', s')" "rs = r # rs'"
    using Cons.prems(2) w by (auto split: prod.splits)
  have "handles_ok R (db s1)" using storage.write_contents [OF Cons.prems(1) w] by blast
  then show ?case using Cons.IH [OF _ ws(1)] ws(2) storage_answer [OF Cons.prems(1) w] by simp
qed simp

end

interpretation log_backend: healthy_rocksdb log_db log_db_store id
  by unfold_locales (rule log_db_ok)

section \<open>Properties\<close>

text \<open>C26: the storage meets the contract of the trait. Whatever puts, deletes and batches a client writes, a
  write is accepted exactly when it is not a batch beyond the limit, a batch that is refused leaves no
  trace, and a read returns what the last accepted operation on its key left, or what was there before.\<close>

theorem storage_meets_trait_contract:
  assumes "rocks_ok R store cursor" "handles_ok R (db s)" "trait_writes (storage_methods R) ws s = (rs, s')"
  shows "rs = map write_answer ws \<and> fst (sb_get (storage_methods R) s' cf k) =
    SOk (case last_cf_write cf k (accepted_ops ws rs) of Some v \<Rightarrow> v | None \<Rightarrow> store (db s) (as_str cf) k)"
proof -
  have R: "healthy_rocksdb R store cursor" by unfold_locales (rule assms(1))
  show ?thesis
    using healthy_rocksdb.storage_answers [OF R assms(2,3)]
      healthy_rocksdb.storage_reads [OF R assms(2,3), of cf k]
    unfolding storage_contents_def by blast
qed

definition example_writes :: "backend_write list" where
  "example_writes =
     [Single (Put DataKv [1] [2]), Batch \<lparr>operations = [Put DataKv [3] [4], Delete DataKv [1]]\<rparr>, Single (Delete SystemData [1])]"

theorem storage_meets_trait_contract_witness:
  "fst (sb_get (storage_methods log_db)
      (snd (trait_writes (storage_methods log_db) example_writes \<lparr>db = [], last_log_index_cache = Map.empty, path = ''d''\<rparr>))
      DataKv [3]) = SOk (Some [4])"
proof -
  let ?s = "\<lparr>db = [], last_log_index_cache = Map.empty, path = ''d''\<rparr> :: rocks_op list Storage"
  let ?run = "trait_writes (storage_methods log_db) example_writes ?s"
  have "handles_ok log_db (db ?s)" using all_cfs_complete(1) by (auto simp: handles_ok_def log_db_def)
  from storage_meets_trait_contract [OF log_db_ok this, of example_writes "fst ?run" "snd ?run" DataKv "[3]"]
  show ?thesis by (simp add: example_writes_def MAX_BATCH_OPERATIONS_def)
qed

end
