(* ===== verification/Rocks_Iterator.thy ===== *)
theory Rocks_Iterator
  imports Storage_Trait
begin

text \<open>
  Iterating over a column family: the rest of \<open>crates/storage/src/iterator.rs\<close>, and what a client sees
  that opens an iterator with \<open>Storage::iterator\<close> and steps along it. Both directions are the same
  contract, a cursor with a list of pairs ahead of it; backward iteration adds what RocksDB documents
  of \<open>seek_to_first\<close>, \<open>seek_for_prev\<close> and \<open>prev\<close> (\<open>rocks_backward\<close>).
\<close>

section \<open>Accessors\<close>

definition sit_valid :: "('d, 'i) rocksdb \<Rightarrow> 'i StorageIterator \<Rightarrow> bool" where
  "sit_valid R it = iter_valid R (inner it)"

definition sit_key :: "('d, 'i) rocksdb \<Rightarrow> 'i StorageIterator \<Rightarrow> bytes option" where
  "sit_key R it = iter_key R (inner it)"

definition sit_value :: "('d, 'i) rocksdb \<Rightarrow> 'i StorageIterator \<Rightarrow> bytes option" where
  "sit_value R it = iter_value R (inner it)"


definition sit_next ::
    "('d, 'i) rocksdb \<Rightarrow> 'i StorageIterator \<Rightarrow> (bytes \<times> bytes) option sres \<times> 'i StorageIterator" where
  "sit_next R it = step_forward R it"

definition sit_prev ::
    "('d, 'i) rocksdb \<Rightarrow> 'i StorageIterator \<Rightarrow> (bytes \<times> bytes) option sres \<times> 'i StorageIterator" where
  "sit_prev R it = step_backward R it"

section \<open>Walking\<close>

text \<open>What \<open>n\<close> steps return, and where they lead.\<close>

primrec walk :: "('it \<Rightarrow> 'r \<times> 'it) \<Rightarrow> nat \<Rightarrow> 'it \<Rightarrow> 'r list \<times> 'it" where
  "walk step 0 it = ([], it)"
| "walk step (Suc n) it =
     (case step it of (r, it') \<Rightarrow> (case walk step n it' of (rs, it'') \<Rightarrow> (r # rs, it'')))"

text \<open>A walker has a list ahead of it; a step returns its head and moves past it, and at the end returns
  nothing and stays.\<close>

locale walker =
  fixes step :: "'it \<Rightarrow> 'a option sres \<times> 'it"
    and valid :: "'it \<Rightarrow> bool"
    and ahead :: "'it \<Rightarrow> 'a list"
  assumes step_ahead: "step it = (r, it') \<Longrightarrow>
      r = SOk (case ahead it of [] \<Rightarrow> None | x # _ \<Rightarrow> Some x) \<and> ahead it' = tl (ahead it)"
    and valid_ahead: "valid it \<longleftrightarrow> ahead it \<noteq> []"
begin

lemma walk_ahead:
  "walk step n it = (rs, it') \<Longrightarrow>
    rs = map (\<lambda>x. SOk (Some x)) (take n (ahead it)) @ replicate (n - length (ahead it)) (SOk None) \<and>
    ahead it' = drop n (ahead it)"
proof (induction n arbitrary: it rs)
  case (Suc n)
  obtain r it1 where st: "step it = (r, it1)" by force
  obtain rs1 where w: "walk step n it1 = (rs1, it')" "rs = r # rs1"
    using Suc.prems st by (auto split: prod.splits)
  show ?case
    using Suc.IH [OF w(1)] step_ahead [OF st] w(2) by (cases "ahead it") auto
qed simp

text \<open>A client that steps while the iterator is valid sees everything, and then the end.\<close>

lemma walk_exhausts:
  assumes "walk step (length (ahead it)) it = (rs, it')"
  shows "rs = map (\<lambda>x. SOk (Some x)) (ahead it)" "\<not> valid it'"
  using walk_ahead [OF assms] valid_ahead by simp_all

end

section \<open>Iterators of a healthy database\<close>

definition rocks_backward ::
    "('d, 'i) rocksdb \<Rightarrow> ('i \<Rightarrow> (bytes \<times> bytes) list \<times> nat) \<Rightarrow> bool" where
  "rocks_backward R cursor \<longleftrightarrow>
     (\<forall>i. cursor (iter_seek_to_first R i) = (fst (cursor i), 0)) \<and>
     (\<forall>i k. cursor (iter_seek_for_prev R i k) =
        (fst (cursor i), case length (takeWhile (\<lambda>p. \<not> blt k (fst p)) (fst (cursor i))) of
           0 \<Rightarrow> length (fst (cursor i)) | Suc m \<Rightarrow> m)) \<and>
     (\<forall>i. iter_valid R i \<longrightarrow> cursor (iter_prev R i) =
        (fst (cursor i), case snd (cursor i) of 0 \<Rightarrow> length (fst (cursor i)) | Suc m \<Rightarrow> m))"

lemma log_db_backward: "rocks_backward log_db id"
  by (auto simp: rocks_backward_def log_db_def split: nat.split)

text \<open>The pairs in front of a position, and those up to it in reverse. A position at the end is also the
  one before the beginning.\<close>

definition pairs_from :: "'p list \<times> nat \<Rightarrow> 'p list" where
  "pairs_from c = drop (snd c) (fst c)"

definition pairs_upto :: "'p list \<times> nat \<Rightarrow> 'p list" where
  "pairs_upto c = (if snd c < length (fst c) then rev (take (Suc (snd c)) (fst c)) else [])"

lemma pairs_from_at: "n < length ps \<Longrightarrow> pairs_from (ps, n) = ps ! n # pairs_from (ps, Suc n)"
  by (simp add: pairs_from_def Cons_nth_drop_Suc)

lemma pairs_upto_at:
  "n < length ps \<Longrightarrow> pairs_upto (ps, n) = ps ! n # pairs_upto (ps, case n of 0 \<Rightarrow> length ps | Suc m \<Rightarrow> m)"
  by (auto simp: pairs_upto_def take_Suc_conv_app_nth split: nat.split)

locale healthy_iterators = healthy_rocksdb R store cursor
  for R :: "('d, 'i) rocksdb" and store cursor +
  assumes backward: "rocks_backward R cursor"
begin

lemma step_at:
  assumes "cursor (inner it) = (ps, n)" "n < length ps"
  shows "step_forward R it = (SOk (Some (ps ! n)), it\<lparr>inner := iter_next R (inner it)\<rparr>)"
    "step_backward R it = (SOk (Some (ps ! n)), it\<lparr>inner := iter_prev R (inner it)\<rparr>)"
  using rocks_iter_at [OF healthy assms] by (simp_all add: step_forward_def step_backward_def)

lemma step_past:
  assumes "cursor (inner it) = (ps, n)" "length ps \<le> n"
  shows "step_forward R it = (SOk None, it)" "step_backward R it = (SOk None, it)"
  using assms rocks_iter_simps(3,4) [OF healthy, of "inner it"]
  by (simp_all add: step_forward_def step_backward_def end_or_error_def)

lemma prev_at: "cursor i = (ps, n) \<Longrightarrow> n < length ps \<Longrightarrow>
    cursor (iter_prev R i) = (ps, case n of 0 \<Rightarrow> length ps | Suc m \<Rightarrow> m)"
  using backward rocks_iter_at(1) [OF healthy] by (auto simp: rocks_backward_def split: nat.split)

end

sublocale healthy_iterators \<subseteq> forward:
  walker "step_forward R" "sit_valid R" "\<lambda>it. pairs_from (cursor (inner it))"
proof
  fix it it' :: "'i StorageIterator" and r
  obtain ps n where c: "cursor (inner it) = (ps, n)" by force
  show "sit_valid R it \<longleftrightarrow> pairs_from (cursor (inner it)) \<noteq> []"
    using rocks_iter_simps(3) [OF healthy] by (simp add: sit_valid_def pairs_from_def not_le)
  assume "step_forward R it = (r, it')"
  then show "r = SOk (case pairs_from (cursor (inner it)) of [] \<Rightarrow> None | x # _ \<Rightarrow> Some x) \<and>
      pairs_from (cursor (inner it')) = tl (pairs_from (cursor (inner it)))"
    using c step_at(1) [OF c] step_past(1) [OF c] rocks_iter_at(4) [OF healthy c] pairs_from_at [of n ps]
    by (cases "n < length ps") (auto simp: pairs_from_def)
qed

sublocale healthy_iterators \<subseteq> backward:
  walker "step_backward R" "sit_valid R" "\<lambda>it. pairs_upto (cursor (inner it))"
proof
  fix it it' :: "'i StorageIterator" and r
  obtain ps n where c: "cursor (inner it) = (ps, n)" by force
  show "sit_valid R it \<longleftrightarrow> pairs_upto (cursor (inner it)) \<noteq> []"
    using rocks_iter_simps(3) [OF healthy, of "inner it"] c by (auto simp: sit_valid_def pairs_upto_def)
  assume "step_backward R it = (r, it')"
  then show "r = SOk (case pairs_upto (cursor (inner it)) of [] \<Rightarrow> None | x # _ \<Rightarrow> Some x) \<and>
      pairs_upto (cursor (inner it')) = tl (pairs_upto (cursor (inner it)))"
    using c step_at(2) [OF c] step_past(2) [OF c] prev_at [OF c] pairs_upto_at [of n ps]
    by (cases "n < length ps") (auto simp: pairs_upto_def)
qed

interpretation log_iterators: healthy_iterators log_db log_db_store id
  by unfold_locales (rule log_db_backward)

section \<open>Opening an iterator\<close>

text \<open>The pairs of a column family in the order a mode announces, and the step that follows it.\<close>

fun mode_pairs :: "IteratorMode \<Rightarrow> (bytes \<times> bytes) list \<Rightarrow> (bytes \<times> bytes) list" where
  "mode_pairs Start ps = ps"
| "mode_pairs End ps = rev ps"
| "mode_pairs (From k Forward) ps = filter (\<lambda>p. \<not> blt (fst p) k) ps"
| "mode_pairs (From k Reverse) ps = rev (filter (\<lambda>p. \<not> blt k (fst p)) ps)"

fun mode_step ::
    "('d, 'i) rocksdb \<Rightarrow> IteratorMode \<Rightarrow> 'i StorageIterator \<Rightarrow> (bytes \<times> bytes) option sres \<times> 'i StorageIterator" where
  "mode_step R Start = step_forward R"
| "mode_step R End = step_backward R"
| "mode_step R (From k Forward) = step_forward R"
| "mode_step R (From k Reverse) = step_backward R"

lemma pairs_upto_takeWhile:
  "pairs_upto (ps, case length (takeWhile P ps) of 0 \<Rightarrow> length ps | Suc m \<Rightarrow> m) = rev (takeWhile P ps)"
  using length_takeWhile_le [of P ps] takeWhile_eq_take [of P ps]
  by (auto simp: pairs_upto_def split: nat.split)

context healthy_iterators
begin

lemma seek_pairs:
  assumes "key_sorted (fst (cursor i))"
  shows "pairs_from (cursor (iter_seek_to_first R i)) = fst (cursor i)"
    and "pairs_upto (cursor (iter_seek_to_last R i)) = rev (fst (cursor i))"
    and "pairs_from (cursor (iter_seek R i k)) = filter (\<lambda>p. \<not> blt (fst p) k) (fst (cursor i))"
    and "pairs_upto (cursor (iter_seek_for_prev R i k)) = rev (filter (\<lambda>p. \<not> blt k (fst p)) (fst (cursor i)))"
proof -
  show "pairs_from (cursor (iter_seek_to_first R i)) = fst (cursor i)"
    using backward by (simp add: rocks_backward_def pairs_from_def)
  show "pairs_upto (cursor (iter_seek_to_last R i)) = rev (fst (cursor i))"
    by (cases "fst (cursor i)" rule: rev_cases) (simp_all add: rocks_iter_simps(2) [OF healthy] pairs_upto_def)
  show "pairs_from (cursor (iter_seek R i k)) = filter (\<lambda>p. \<not> blt (fst p) k) (fst (cursor i))"
    by (simp add: rocks_iter_simps(1) [OF healthy] pairs_from_def key_sorted_from [OF assms, symmetric] dropWhile_eq_drop)
  show "pairs_upto (cursor (iter_seek_for_prev R i k)) = rev (filter (\<lambda>p. \<not> blt k (fst p)) (fst (cursor i)))"
    using backward
    by (simp add: rocks_backward_def pairs_upto_takeWhile key_sorted_upto [OF assms, symmetric])
qed

lemma iterator_walk:
  assumes "handles_ok R (db s)" "key_sorted ps" "store (db s) (as_str cf) = map_of ps"
    and "storage_iterator R s cf mode = SOk it" "walk (mode_step R mode) n it = (rs, it')"
  shows "rs = map (\<lambda>x. SOk (Some x)) (take n (mode_pairs mode ps)) @
      replicate (n - length (mode_pairs mode ps)) (SOk None)"
    and "sit_valid R it' \<longleftrightarrow> n < length (mode_pairs mode ps)"
proof -
  note seek_pairs = seek_pairs [of "raw_iterator_cf R (db s) (as_str cf)", unfolded iterator_entries [OF healthy assms(2,3)], OF assms(2)]
  note fw = forward.walk_ahead [of n it rs it'] forward.valid_ahead [of it']
  note bw = backward.walk_ahead [of n it rs it'] backward.valid_ahead [of it']
  have h: "get_cf_handle R s cf = SOk (as_str cf)"
    using assms(1) by (rule handle_ok)
  have it: "inner it = (case mode of Start \<Rightarrow> iter_seek_to_first R (raw_iterator_cf R (db s) (as_str cf))
      | End \<Rightarrow> iter_seek_to_last R (raw_iterator_cf R (db s) (as_str cf))
      | From k Forward \<Rightarrow> iter_seek R (raw_iterator_cf R (db s) (as_str cf)) k
      | From k Reverse \<Rightarrow> iter_seek_for_prev R (raw_iterator_cf R (db s) (as_str cf)) k)"
    using assms(4) h by (auto simp: storage_iterator_def Let_def)
  have at: "if mode = Start \<or> (\<exists>k. mode = From k Forward)
      then mode_step R mode = step_forward R \<and> pairs_from (cursor (inner it)) = mode_pairs mode ps
      else mode_step R mode = step_backward R \<and> pairs_upto (cursor (inner it)) = mode_pairs mode ps"
  proof (cases mode)
    case (From k d)
    then show ?thesis using it seek_pairs by (cases d) simp_all
  qed (use it seek_pairs in simp_all)
  show "rs = map (\<lambda>x. SOk (Some x)) (take n (mode_pairs mode ps)) @
      replicate (n - length (mode_pairs mode ps)) (SOk None)"
    using at fw(1) bw(1) assms(5) by (auto split: if_splits)
  show "sit_valid R it' \<longleftrightarrow> n < length (mode_pairs mode ps)"
    using at fw bw assms(5) by (auto split: if_splits)
qed

end

section \<open>Properties\<close>




end
