(* ===== verification/Rocks_Concurrent.thy ===== *)
theory Rocks_Concurrent
  imports Rocks_Log Storage_Trait
begin

text \<open>
  Several threads on one \<open>Storage\<close>. The calls on a Raft log take the lock of the index cache for a
  single lookup or update and otherwise call RocksDB, so between two of these another thread may run.
  \<open>log_step\<close> cuts each call of \<open>crates/storage/src/storage.rs\<close> at these points: one step is a lookup
  or update of the cache under its lock, or one call of the database with the computation around it.
  An iterator reads a snapshot of the database, so a range is read in one step.

  A thread that runs alone does what the sequential definitions of \<open>Rocks_Storage\<close> do. Threads that
  work on different logs, as the system and the data group do, behave under every interleaving as if
  alone. Threads that share a log do not.
\<close>

section \<open>Threads that own their part of the state\<close>

text \<open>Threads in a list, run by a schedule, which names the thread of each step.\<close>

fun run_schedule :: "('th \<Rightarrow> 's \<Rightarrow> 'th \<times> 's) \<Rightarrow> nat list \<Rightarrow> 'th list \<Rightarrow> 's \<Rightarrow> 'th list \<times> 's" where
  "run_schedule step [] ths s = (ths, s)"
| "run_schedule step (i # sched) ths s =
     (if i < length ths
      then (case step (ths ! i) s of (th, s') \<Rightarrow> run_schedule step sched (ths[i := th]) s')
      else run_schedule step sched ths s)"

primrec run_alone :: "('th \<Rightarrow> 's \<Rightarrow> 'th \<times> 's) \<Rightarrow> nat \<Rightarrow> 'th \<Rightarrow> 's \<Rightarrow> 'th \<times> 's" where
  "run_alone step 0 th s = (th, s)"
| "run_alone step (Suc n) th s = (case step th s of (th', s') \<Rightarrow> run_alone step n th' s')"

lemma run_alone_add:
  "run_alone step (m + n) th s = (case run_alone step m th s of (th', s') \<Rightarrow> run_alone step n th' s')"
  by (induction m arbitrary: th s) (simp_all split: prod.split)

lemma run_alone_idle: "step th s = (th, s) \<Longrightarrow> run_alone step n th s = (th, s)"
  by (induction n) simp_all

text \<open>The contract: what a step reads and writes of the state is the part its thread owns.\<close>

locale owned_threads =
  fixes step :: "'th \<Rightarrow> 's \<Rightarrow> 'th \<times> 's"
    and owned :: "'th \<Rightarrow> 'part"
    and view :: "'s \<Rightarrow> 'part \<Rightarrow> 'v"
    and valid :: "'s \<Rightarrow> bool"
  assumes step_keeps: "valid s \<Longrightarrow> step th s = (th', s') \<Longrightarrow>
      valid s' \<and> owned th' = owned th \<and> (\<forall>c. c \<noteq> owned th \<longrightarrow> view s' c = view s c)"
    and step_local: "valid s \<Longrightarrow> valid t \<Longrightarrow> view s (owned th) = view t (owned th) \<Longrightarrow>
      step th s = (th1, s') \<Longrightarrow> step th t = (th2, t') \<Longrightarrow> th1 = th2 \<and> view s' (owned th) = view t' (owned th)"
begin

lemma alone_local:
  "valid s \<Longrightarrow> valid t \<Longrightarrow> view s (owned th) = view t (owned th) \<Longrightarrow>
    run_alone step n th s = (th1, s') \<Longrightarrow> run_alone step n th t = (th2, t') \<Longrightarrow>
    th1 = th2 \<and> view s' (owned th) = view t' (owned th)"
proof (induction n arbitrary: th s t)
  case (Suc n)
  obtain u s1 where s: "step th s = (u, s1)" by force
  obtain v t1 where t: "step th t = (v, t1)" by force
  have "u = v" "view s1 (owned th) = view t1 (owned th)"
    using step_local [OF Suc.prems(1-3) s t] by blast+
  then show ?case
    using Suc.IH [of s1 t1 u] Suc.prems(4,5) step_keeps [OF Suc.prems(1) s] step_keeps [OF Suc.prems(2) t] s t
    by simp
qed simp

text \<open>Under a schedule every thread ends as if it had taken its steps alone.\<close>

lemma schedule_alone:
  "valid s \<Longrightarrow> distinct (map owned ths) \<Longrightarrow> run_schedule step sched ths s = (ths', s') \<Longrightarrow> i < length ths \<Longrightarrow>
    run_alone step (count_list sched i) (ths ! i) s = (th, t) \<Longrightarrow>
    ths' ! i = th \<and> view s' (owned (ths ! i)) = view t (owned (ths ! i))"
proof (induction sched arbitrary: s ths t th)
  case (Cons j sched)
  show ?case
  proof (cases "j < length ths")
    case True
    obtain u s1 where st: "step (ths ! j) s = (u, s1)" by force
    note keeps = step_keeps [OF Cons.prems(1) st]
    have own: "map owned (ths[j := u]) = map owned ths"
      using keeps True by (simp add: map_update list_update_id [of "map owned ths" j, unfolded nth_map [OF True]])
    have rest: "run_schedule step sched (ths[j := u]) s1 = (ths', s')" using Cons.prems(3) True st by simp
    have IH: "ths' ! i = th' \<and> view s' (owned (ths[j := u] ! i)) = view t' (owned (ths[j := u] ! i))"
      if "run_alone step (count_list sched i) (ths[j := u] ! i) s1 = (th', t')" for th' t'
      using Cons.IH [OF _ _ rest _ that] keeps own Cons.prems(2,4) by simp
    show ?thesis
    proof (cases "i = j")
      case True
      then show ?thesis using IH [of th t] Cons.prems(4,5) st keeps by simp
    next
      case False
      obtain th' t' where a: "run_alone step (count_list sched i) (ths ! i) s1 = (th', t')" by force
      have "owned (ths ! i) \<noteq> owned (ths ! j)"
        using False True Cons.prems(2,4) by (auto simp: distinct_conv_nth)
      then have "view s1 (owned (ths ! i)) = view s (owned (ths ! i))" using keeps by blast
      with keeps have "th' = th \<and> view t' (owned (ths ! i)) = view t (owned (ths ! i))"
        using alone_local [OF _ Cons.prems(1) _ a] Cons.prems(5) False by simp
      then show ?thesis using IH [of th' t'] a False by simp
    qed
  next
    case False
    then show ?thesis using Cons by auto
  qed
qed simp

end

section \<open>Calls on a log, step by step\<close>

datatype log_call = AppendCall u64 bytes | TruncateCall u64 | LastIndexCall | RangeCall u64 u64

datatype log_answer = Answered "unit sres" | LastIndex "u64 option sres" | Range "bytes list sres option"

text \<open>Where a call stands: before its cache lookup, before the query that follows a miss, before the
  cache is filled with the result, with the last index at hand, and before the cache update that follows a write.\<close>

datatype log_pc = Begin | QueryDb | FillCache u64 | HaveLast "u64 option" | UpdateCache

definition set_cache :: "'d Storage \<Rightarrow> ColumnFamily \<Rightarrow> u64 option \<Rightarrow> 'd Storage" where
  "set_cache s cf v = s\<lparr>last_log_index_cache := (last_log_index_cache s)(cf := v)\<rparr>"

definition lookup_cache :: "'d Storage \<Rightarrow> ColumnFamily \<Rightarrow> log_pc" where
  "lookup_cache s cf = (case last_log_index_cache s cf of Some index \<Rightarrow> HaveLast (Some index) | None \<Rightarrow> QueryDb)"

fun query_answer :: "log_call \<Rightarrow> u64 option sres \<Rightarrow> log_pc + log_answer" where
  "query_answer c (SOk None) = Inl (HaveLast None)"
| "query_answer c (SOk (Some index)) = Inl (FillCache index)"
| "query_answer LastIndexCall (SErr e) = Inr (LastIndex (SErr e))"
| "query_answer LastIndexCall SPanic = Inr (LastIndex SPanic)"
| "query_answer c (SErr e) = Inr (Answered (SErr e))"
| "query_answer c SPanic = Inr (Answered SPanic)"

fun written_answer :: "unit sres \<Rightarrow> log_pc + log_answer" where
  "written_answer (SOk _) = Inl UpdateCache"
| "written_answer (SErr e) = Inr (Answered (SErr e))"
| "written_answer SPanic = Inr (Answered SPanic)"

definition append_write ::
    "('d, 'i) rocksdb \<Rightarrow> ColumnFamily \<Rightarrow> u64 \<Rightarrow> bytes \<Rightarrow> u64 option \<Rightarrow> 'd Storage \<Rightarrow> unit sres \<times> 'd Storage" where
  "append_write R cf index entry_bytes last_index s =
     sbind (check_log_index cf last_index index, s) (\<lambda>_ s.
     sbind (get_cf_handle R s cf, s) (\<lambda>h s.
       let (r, d) = put_cf_opt R (db s) h (format_log_key index) entry_bytes False
       in (rocks_res r, s\<lparr>db := d\<rparr>)))"

definition truncate_write ::
    "('d, 'i) rocksdb \<Rightarrow> ColumnFamily \<Rightarrow> u64 \<Rightarrow> u64 \<Rightarrow> 'd Storage \<Rightarrow> unit sres \<times> 'd Storage" where
  "truncate_write R cf truncate_index lst s =
     sbind (get_cf_handle R s cf, s) (\<lambda>h s.
       let (r, d) = write_opt R (db s) (if lst < truncate_index then delete_log_keys h (unat lst + 1)
                                        else delete_log_keys h (unat truncate_index)) False
       in (rocks_res r, s\<lparr>db := d\<rparr>))"

fun log_step ::
    "('d, 'i) rocksdb \<Rightarrow> ColumnFamily \<Rightarrow> log_call \<Rightarrow> log_pc \<Rightarrow> 'd Storage \<Rightarrow> (log_pc + log_answer) \<times> 'd Storage" where
  "log_step R cf (AppendCall index entry_bytes) Begin s =
     (if \<not> is_log_cf cf then
        (Inr (Answered (SErr (InvalidColumnFamily (as_str cf)
           ''append_log_entry only works on log CFs (SystemRaftLog, DataRaftLog)''))), s)
      else (Inl (lookup_cache s cf), s))"
| "log_step R cf (TruncateCall truncate_index) Begin s =
     (if \<not> is_log_cf cf then
        (Inr (Answered (SErr (InvalidColumnFamily (as_str cf)
           ''truncate_log_before only works on log CFs (SystemRaftLog, DataRaftLog)''))), s)
      else (Inl (lookup_cache s cf), s))"
| "log_step R cf LastIndexCall Begin s = (Inl (lookup_cache s cf), s)"
| "log_step R cf (RangeCall start stop) pc s = (Inr (Range (get_log_range R s cf start stop)), s)"
| "log_step R cf c QueryDb s = (query_answer c (get_last_log_index_from_db R s cf), s)"
| "log_step R cf c (FillCache index) s = (Inl (HaveLast (Some index)), set_cache s cf (Some index))"
| "log_step R cf (AppendCall index entry_bytes) (HaveLast last_index) s =
     (case append_write R cf index entry_bytes last_index s of (r, s') \<Rightarrow> (written_answer r, s'))"
| "log_step R cf (TruncateCall truncate_index) (HaveLast last_index) s =
     (case last_index of
        None \<Rightarrow> (Inr (Answered (SOk ())), s)
      | Some lst \<Rightarrow> (case truncate_write R cf truncate_index lst s of (r, s') \<Rightarrow> (written_answer r, s')))"
| "log_step R cf LastIndexCall (HaveLast last_index) s = (Inr (LastIndex (SOk last_index)), s)"
| "log_step R cf (AppendCall index entry_bytes) UpdateCache s = (Inr (Answered (SOk ())), set_cache s cf (Some index))"
| "log_step R cf (TruncateCall truncate_index) UpdateCache s = (Inr (Answered (SOk ())), set_cache s cf None)"
| "log_step R cf LastIndexCall UpdateCache s = (Inr (LastIndex (SOk None)), s)"

text \<open>A thread makes its calls on one log, one after the other.\<close>

record log_thread =
  thread_cf :: ColumnFamily
  todo :: "log_call list"
  at :: log_pc
  answers :: "log_answer list"

definition new_thread :: "ColumnFamily \<times> log_call list \<Rightarrow> log_thread" where
  "new_thread job = \<lparr>thread_cf = fst job, todo = snd job, at = Begin, answers = []\<rparr>"

definition thread_step :: "('d, 'i) rocksdb \<Rightarrow> log_thread \<Rightarrow> 'd Storage \<Rightarrow> log_thread \<times> 'd Storage" where
  "thread_step R th s =
     (case todo th of
        [] \<Rightarrow> (th, s)
      | c # cs \<Rightarrow>
          (case log_step R (thread_cf th) c (at th) s of
             (Inl pc, s') \<Rightarrow> (th\<lparr>at := pc\<rparr>, s')
           | (Inr a, s') \<Rightarrow> (th\<lparr>todo := cs, at := Begin, answers := answers th @ [a]\<rparr>, s')))"

text \<open>The same calls by the sequential definitions.\<close>

fun call_whole :: "('d, 'i) rocksdb \<Rightarrow> ColumnFamily \<Rightarrow> log_call \<Rightarrow> 'd Storage \<Rightarrow> log_answer \<times> 'd Storage" where
  "call_whole R cf (AppendCall index entry_bytes) s =
     (case append_log_entry R s cf index entry_bytes of (r, s') \<Rightarrow> (Answered r, s'))"
| "call_whole R cf (TruncateCall truncate_index) s =
     (case truncate_log_before R s cf truncate_index of (r, s') \<Rightarrow> (Answered r, s'))"
| "call_whole R cf LastIndexCall s = (case get_last_log_index R s cf of (r, s') \<Rightarrow> (LastIndex r, s'))"
| "call_whole R cf (RangeCall start stop) s = (Range (get_log_range R s cf start stop), s)"

fun calls_whole ::
    "('d, 'i) rocksdb \<Rightarrow> ColumnFamily \<Rightarrow> log_call list \<Rightarrow> 'd Storage \<Rightarrow> log_answer list \<times> 'd Storage" where
  "calls_whole R cf [] s = ([], s)"
| "calls_whole R cf (c # cs) s =
     (case call_whole R cf c s of (a, s') \<Rightarrow> (case calls_whole R cf cs s' of (as, s'') \<Rightarrow> (a # as, s'')))"

section \<open>A thread alone\<close>

primrec call_steps ::
    "('d, 'i) rocksdb \<Rightarrow> ColumnFamily \<Rightarrow> log_call \<Rightarrow> nat \<Rightarrow> log_pc \<Rightarrow> 'd Storage \<Rightarrow> (log_answer \<times> 'd Storage) option" where
  "call_steps R cf c 0 pc s = None"
| "call_steps R cf c (Suc n) pc s =
     (case log_step R cf c pc s of (Inl pc', s') \<Rightarrow> call_steps R cf c n pc' s' | (Inr a, s') \<Rightarrow> Some (a, s'))"

text \<open>Five steps are enough for a call: lookup, query, fill, write, update.\<close>

lemma append_whole:
  "append_log_entry R s cf i b =
     (if \<not> is_log_cf cf then
        (SErr (InvalidColumnFamily (as_str cf)
           ''append_log_entry only works on log CFs (SystemRaftLog, DataRaftLog)''), s)
      else sbind (get_cached_last_log_index R s cf) (\<lambda>l s.
        sbind (append_write R cf i b l s) (\<lambda>_ s. (SOk (), set_cache s cf (Some i)))))"
  by (auto simp: append_log_entry_def append_write_def update_cached_last_log_index_def set_cache_def
      sbind_def Let_def split: prod.split outcome.split)

lemma truncate_whole:
  "truncate_log_before R s cf i =
     (if \<not> is_log_cf cf then
        (SErr (InvalidColumnFamily (as_str cf)
           ''truncate_log_before only works on log CFs (SystemRaftLog, DataRaftLog)''), s)
      else sbind (get_cached_last_log_index R s cf) (\<lambda>l s.
        case l of None \<Rightarrow> (SOk (), s)
        | Some lst \<Rightarrow> sbind (truncate_write R cf i lst s) (\<lambda>_ s. (SOk (), set_cache s cf None))))"
  by (auto simp: truncate_log_before_def truncate_write_def set_cache_def sbind_def Let_def
      split: prod.split outcome.split option.split)

lemma cached_whole:
  "get_cached_last_log_index R s cf =
     (case lookup_cache s cf of HaveLast l \<Rightarrow> (SOk l, s)
      | _ \<Rightarrow> (case get_last_log_index_from_db R s cf of
               SOk None \<Rightarrow> (SOk None, s) | SOk (Some i) \<Rightarrow> (SOk (Some i), set_cache s cf (Some i))
             | SErr e \<Rightarrow> (SErr e, s) | SPanic \<Rightarrow> (SPanic, s)))"
  by (auto simp: get_cached_last_log_index_def lookup_cache_def set_cache_def split: option.split outcome.split)

lemma lookup_cache_cases:
  obtains l where "lookup_cache s cf = HaveLast l" | "lookup_cache s cf = QueryDb"
  by (cases "last_log_index_cache s cf") (auto simp: lookup_cache_def)

lemma call_steps_whole: "call_steps R cf c 5 Begin s = Some (call_whole R cf c s)"
proof -
  note whole = append_whole truncate_whole get_last_log_index_def cached_whole sbind_def eval_nat_numeral
  consider l where "lookup_cache s cf = HaveLast l"
    | "lookup_cache s cf = QueryDb" "get_last_log_index_from_db R s cf = SOk None"
    | i where "lookup_cache s cf = QueryDb" "get_last_log_index_from_db R s cf = SOk (Some i)"
    | e where "lookup_cache s cf = QueryDb" "get_last_log_index_from_db R s cf = SErr e"
    | "lookup_cache s cf = QueryDb" "get_last_log_index_from_db R s cf = SPanic"
    by (metis lookup_cache_cases outcome.exhaust option.exhaust)
  then show ?thesis
    by cases (cases c; auto simp: whole split: prod.split outcome.split option.split)+
qed

lemma run_call:
  "call_steps R (thread_cf th) c n (at th) s = Some (a, s') \<Longrightarrow> todo th = c # cs \<Longrightarrow>
    \<exists>k \<le> n. run_alone (thread_step R) k th s = (th\<lparr>todo := cs, at := Begin, answers := answers th @ [a]\<rparr>, s')"
proof (induction n arbitrary: th s)
  case (Suc n)
  obtain r s1 where st: "log_step R (thread_cf th) c (at th) s = (r, s1)" by force
  show ?case
  proof (cases r)
    case (Inl pc)
    then have "call_steps R (thread_cf (th\<lparr>at := pc\<rparr>)) c n (at (th\<lparr>at := pc\<rparr>)) s1 = Some (a, s')"
      using Suc.prems(1) st by simp
    with Suc.IH [OF this] Suc.prems(2) obtain k where "k \<le> n"
      "run_alone (thread_step R) k (th\<lparr>at := pc\<rparr>) s1 = (th\<lparr>todo := cs, at := Begin, answers := answers th @ [a]\<rparr>, s')"
      by auto
    moreover have "thread_step R th s = (th\<lparr>at := pc\<rparr>, s1)"
      using Suc.prems(2) st Inl by (simp add: thread_step_def)
    ultimately show ?thesis by (intro exI [of _ "Suc k"]) simp
  next
    case (Inr b)
    then show ?thesis
      using Suc.prems st by (intro exI [of _ 1]) (simp add: thread_step_def)
  qed
qed simp

text \<open>A thread alone ends, and has made its calls.\<close>

lemma run_calls:
  assumes "at th = Begin" "calls_whole R (thread_cf th) (todo th) s = (as, t)" "5 * length (todo th) \<le> n"
  shows "run_alone (thread_step R) n th s = (th\<lparr>todo := [], answers := answers th @ as\<rparr>, t)"
  using assms
proof (induction "todo th" arbitrary: th s as n)
  case Nil
  then have "thread_step R th s = (th, s)" by (simp add: thread_step_def)
  with Nil show ?case by (simp add: run_alone_idle)
next
  case (Cons c cs)
  obtain a s1 where c: "call_whole R (thread_cf th) c s = (a, s1)" by force
  let ?th = "th\<lparr>todo := cs, at := Begin, answers := answers th @ [a]\<rparr>"
  obtain k where k: "k \<le> 5" "run_alone (thread_step R) k th s = (?th, s1)"
    using run_call [of R th c 5 s a s1 cs] call_steps_whole [of R "thread_cf th" c s] c Cons.hyps(2) Cons.prems(1) by auto
  obtain as' where as': "calls_whole R (thread_cf th) cs s1 = (as', t)" "as = a # as'"
    using Cons.prems(2) c Cons.hyps(2) [symmetric] by (auto split: prod.splits)
  have "n = k + (n - k)" "5 * length cs \<le> n - k" using k(1) Cons.prems(3) Cons.hyps(2) [symmetric] by simp_all
  moreover have "run_alone (thread_step R) (n - k) ?th s1 = (?th\<lparr>todo := [], answers := answers ?th @ as'\<rparr>, t)"
    using Cons.hyps(1) [of ?th s1 as' "n - k"] as'(1) calculation(2) by simp
  ultimately show ?case
    using run_alone_add [of "thread_step R" k "n - k" th s] k(2) as'(2) Cons.prems(1) by simp
qed

section \<open>What a step reads and writes\<close>

text \<open>The part of the storage that belongs to a log: its column family and its place in the cache.\<close>

definition log_part :: "('d \<Rightarrow> store_map) \<Rightarrow> 'd Storage \<Rightarrow> ColumnFamily \<Rightarrow> (bytes \<rightharpoonup> bytes) \<times> u64 option" where
  "log_part store s cf = (store (db s) (as_str cf), last_log_index_cache s cf)"

context healthy_rocksdb
begin

lemma same_entries:
  assumes "store d cf = store d' cf"
  shows "fst (cursor (raw_iterator_cf R d cf)) = fst (cursor (raw_iterator_cf R d' cf))"
  using healthy assms by (intro key_sorted_unique) (auto simp: rocks_ok_def rocks_iterators_def)

lemma same_cursor:
  assumes "cursor i = cursor j"
  shows "iter_valid R i = iter_valid R j"
    and "iter_valid R i \<Longrightarrow> iter_key R i = iter_key R j \<and> iter_value R i = iter_value R j \<and>
      cursor (iter_next R i) = cursor (iter_next R j)"
  using healthy assms by (auto simp: rocks_ok_def rocks_iterators_def)

lemma last_index_local:
  assumes "handles_ok R (db s)" "handles_ok R (db t)" "store (db s) (as_str cf) = store (db t) (as_str cf)"
  shows "get_last_log_index_from_db R s cf = get_last_log_index_from_db R t cf"
proof -
  have c: "cursor (iter_seek_to_last R (raw_iterator_cf R (db s) (as_str cf))) =
      cursor (iter_seek_to_last R (raw_iterator_cf R (db t) (as_str cf)))"
    using same_entries [OF assms(3)] by (simp add: rocks_iter_simps(2) [OF healthy])
  show ?thesis
    using same_cursor [OF c] assms(1,2) by (simp add: get_last_log_index_from_db_def Let_def)
qed

lemma range_loop_local:
  "cursor (inner it) = cursor (inner it') \<Longrightarrow> log_range_loop R cf stop it es = log_range_loop R cf stop it' es"
proof (induction "length (fst (cursor (inner it))) - snd (cursor (inner it))" arbitrary: it it' es rule: less_induct)
  case less
  note same = same_cursor [OF less.prems]
  show ?case
  proof (cases "iter_valid R (inner it)")
    case True
    let ?n = "it\<lparr>inner := iter_next R (inner it)\<rparr>" and ?n' = "it'\<lparr>inner := iter_next R (inner it')\<rparr>"
    obtain key val where kv: "iter_key R (inner it) = Some key" "iter_value R (inner it) = Some val"
      using healthy True by (auto simp: rocks_ok_def rocks_iterators_def)
    have "snd (cursor (inner it)) < length (fst (cursor (inner it)))"
      "cursor (iter_next R (inner it)) = (fst (cursor (inner it)), Suc (snd (cursor (inner it))))"
      using healthy True by (auto simp: rocks_ok_def rocks_iterators_def)
    then have "log_range_loop R cf stop ?n es' = log_range_loop R cf stop ?n' es'" for es'
      using less.hyps [of ?n ?n'] same(2) [OF True] by simp
    moreover have "iter_valid R (inner it')" "iter_key R (inner it') = Some key" "iter_value R (inner it') = Some val"
      using True same(1) same(2) [OF True] kv by simp_all
    ultimately show ?thesis
      using True kv
      by (simp add: log_range_loop.simps [of R cf stop it] log_range_loop.simps [of R cf stop it'] step_forward_def
          split: option.split)
  next
    case False
    then have "\<not> iter_valid R (inner it')" using same(1) by simp
    with False show ?thesis
      by (simp add: log_range_loop.simps [of R cf stop it] log_range_loop.simps [of R cf stop it'])
  qed
qed

lemma range_local:
  assumes "handles_ok R (db s)" "handles_ok R (db t)" "store (db s) (as_str cf) = store (db t) (as_str cf)"
  shows "get_log_range R s cf start stop = get_log_range R t cf start stop"
proof -
  have "cursor (iter_seek R (raw_iterator_cf R (db s) (as_str cf)) k) =
      cursor (iter_seek R (raw_iterator_cf R (db t) (as_str cf)) k)" for k
    using same_entries [OF assms(3)] by (simp add: rocks_iter_simps(1) [OF healthy])
  then show ?thesis
    using assms(1,2) by (simp add: get_log_range_def storage_iterator_def Let_def range_loop_local)
qed

text \<open>The writes of a call, on the part of its log.\<close>

lemma append_write_spec:
  assumes "handles_ok R (db s)" "append_write R cf i b l s = (r, s')"
  shows "r = map_outcome id (\<lambda>_. ()) (check_log_index cf l i)"
    and "handles_ok R (db s')" "last_log_index_cache s' = last_log_index_cache s"
    and "store (db s') = (if r = SOk () then op_effect (RocksPut (as_str cf) (format_log_key i) b) (store (db s)) else store (db s))"
proof -
  obtain d where "put_cf_opt R (db s) (as_str cf) (format_log_key i) b False = (Inr (), d)"
    "store d = op_effect (RocksPut (as_str cf) (format_log_key i) b) (store (db s))" "cf_handle R d = cf_handle R (db s)"
    using healthy unfolding rocks_ok_def rocks_writes_def by blast
  then show "r = map_outcome id (\<lambda>_. ()) (check_log_index cf l i)"
    "handles_ok R (db s')" "last_log_index_cache s' = last_log_index_cache s"
    "store (db s') = (if r = SOk () then op_effect (RocksPut (as_str cf) (format_log_key i) b) (store (db s)) else store (db s))"
    using assms by (cases "check_log_index cf l i"; auto simp: append_write_def handles_ok_def)+
qed

lemma truncate_write_spec:
  assumes "handles_ok R (db s)" "truncate_write R cf i lst s = (r, s')"
  shows "r = SOk ()" "handles_ok R (db s')" "last_log_index_cache s' = last_log_index_cache s"
    and "store (db s') = fold op_effect (delete_log_keys (as_str cf) (if lst < i then unat lst + 1 else unat i)) (store (db s))"
proof -
  obtain d where "write_opt R (db s) (delete_log_keys (as_str cf) (if lst < i then unat lst + 1 else unat i)) False = (Inr (), d)"
    "store d = fold op_effect (delete_log_keys (as_str cf) (if lst < i then unat lst + 1 else unat i)) (store (db s))"
    "cf_handle R d = cf_handle R (db s)"
    using healthy unfolding rocks_ok_def rocks_writes_def by blast
  then show "r = SOk ()" "handles_ok R (db s')" "last_log_index_cache s' = last_log_index_cache s"
    "store (db s') = fold op_effect (delete_log_keys (as_str cf) (if lst < i then unat lst + 1 else unat i)) (store (db s))"
    using assms by (auto simp: truncate_write_def handles_ok_def split: if_splits)
qed

lemma append_write_keeps:
  assumes "handles_ok R (db s)" "append_write R cf i b l s = (r, s')" "c \<noteq> cf"
  shows "log_part store s' c = log_part store s c"
  using append_write_spec(3,4) [OF assms(1,2)] assms(3) by (simp add: log_part_def as_str_inj)

lemma truncate_write_keeps:
  assumes "handles_ok R (db s)" "truncate_write R cf i lst s = (r, s')" "c \<noteq> cf"
  shows "log_part store s' c = log_part store s c"
  using truncate_write_spec(3,4) [OF assms(1,2)] assms(3)
  by (simp add: log_part_def as_str_inj delete_log_keys_effect)

lemma append_write_local:
  assumes "handles_ok R (db s)" "handles_ok R (db t)" "log_part store s cf = log_part store t cf"
    and "append_write R cf i b l s = (r, s')" "append_write R cf i b l t = (r', t')"
  shows "r = r' \<and> log_part store s' cf = log_part store t' cf"
  using append_write_spec [OF assms(1,4)] append_write_spec [OF assms(2,5)] assms(3)
  by (simp add: log_part_def)

lemma truncate_write_local:
  assumes "handles_ok R (db s)" "handles_ok R (db t)" "log_part store s cf = log_part store t cf"
    and "truncate_write R cf i lst s = (r, s')" "truncate_write R cf i lst t = (r', t')"
  shows "r = r' \<and> log_part store s' cf = log_part store t' cf"
  using truncate_write_spec [OF assms(1,4)] truncate_write_spec [OF assms(2,5)] assms(3)
  by (simp add: log_part_def delete_log_keys_effect)

lemma log_step_keeps:
  assumes "handles_ok R (db s)" "log_step R cf c pc s = (r, s')"
  shows "handles_ok R (db s') \<and> (\<forall>c'. c' \<noteq> cf \<longrightarrow> log_part store s' c' = log_part store s c')"
proof -
  have cache: "handles_ok R (db (set_cache s cf v)) \<and>
      (\<forall>c'. c' \<noteq> cf \<longrightarrow> log_part store (set_cache s cf v) c' = log_part store s c')" for v
    using assms(1) by (simp add: log_part_def set_cache_def)
  show ?thesis
    using assms cache append_write_spec(2) [OF assms(1)] append_write_keeps [OF assms(1)]
      truncate_write_spec(2) [OF assms(1)] truncate_write_keeps [OF assms(1)]
    by (cases c; cases pc; auto split: prod.splits option.splits if_splits)
qed

lemma log_step_local:
  assumes "handles_ok R (db s)" "handles_ok R (db t)" "log_part store s cf = log_part store t cf"
    and "log_step R cf c pc s = (r, s')" "log_step R cf c pc t = (r', t')"
  shows "r = r' \<and> log_part store s' cf = log_part store t' cf"
proof -
  have part: "store (db s) (as_str cf) = store (db t) (as_str cf)" "lookup_cache s cf = lookup_cache t cf"
    "log_part store (set_cache s cf v) cf = log_part store (set_cache t cf v) cf" for v
    using assms(3) by (simp_all add: log_part_def lookup_cache_def set_cache_def)
  show ?thesis
    using assms(3-5) part last_index_local [OF assms(1,2) part(1)] range_local [OF assms(1,2) part(1)]
    by (cases c; cases pc; auto split: prod.splits option.splits if_splits
        dest: append_write_local [OF assms(1-3)] truncate_write_local [OF assms(1-3)])
qed

end

sublocale healthy_rocksdb \<subseteq> threads: owned_threads "thread_step R" thread_cf "log_part store" "\<lambda>s. handles_ok R (db s)"
proof
  show "handles_ok R (db s') \<and> thread_cf th' = thread_cf th \<and>
      (\<forall>c. c \<noteq> thread_cf th \<longrightarrow> log_part store s' c = log_part store s c)"
    if "handles_ok R (db s)" "thread_step R th s = (th', s')" for s s' th th'
    using that log_step_keeps [of s] by (auto simp: thread_step_def split: list.splits prod.splits sum.splits)
  show "th1 = th2 \<and> log_part store s' (thread_cf th) = log_part store t' (thread_cf th)"
    if "handles_ok R (db s)" "handles_ok R (db t)" "log_part store s (thread_cf th) = log_part store t (thread_cf th)"
      "thread_step R th s = (th1, s')" "thread_step R th t = (th2, t')" for s t th th1 th2 s' t'
  proof (cases "todo th")
    case (Cons c cs)
    obtain r1 s1 where s1: "log_step R (thread_cf th) c (at th) s = (r1, s1)" by force
    obtain r2 t1 where t1: "log_step R (thread_cf th) c (at th) t = (r2, t1)" by force
    show ?thesis
      using log_step_local [OF that(1-3) s1 t1] that(4,5) Cons s1 t1
      by (auto simp: thread_step_def split: sum.splits)
  qed (use that in \<open>simp add: thread_step_def\<close>)
qed

section \<open>Threads that share a log\<close>

lemma check_next: "unat lst + 1 < 2 ^ 64 \<Longrightarrow> check_log_index cf (Some lst) (lst + 1) = SOk (lst + 1)"
  by (simp add: check_log_index_def)

lemma check_other: "index \<noteq> lst + 1 \<Longrightarrow> check_log_index cf (Some lst) index \<noteq> SOk x"
  by (simp add: check_log_index_def Let_def)

context healthy_rocksdb
begin

lemmas threads_alone = threads.schedule_alone

lemma append_next:
  assumes "handles_ok R (db s)" "unat lst + 1 < 2 ^ 64"
  obtains s' where "append_write R cf (lst + 1) b (Some lst) s = (SOk (), s')" "handles_ok R (db s')"
    "last_log_index_cache s' = last_log_index_cache s"
    "store (db s') = op_effect (RocksPut (as_str cf) (format_log_key (lst + 1)) b) (store (db s))"
proof -
  obtain r s' where a: "append_write R cf (lst + 1) b (Some lst) s = (r, s')" by force
  have "r = SOk ()" using append_write_spec(1) [OF assms(1) a] check_next [OF assms(2)] by simp
  with a show thesis using that append_write_spec(2-4) [OF assms(1) a] by simp
qed

end

lemma two_threads: "run_schedule step (0 # sched) [t0, t1] s =
    (case step t0 s of (t, s') \<Rightarrow> run_schedule step sched [t, t1] s')"
  "run_schedule step (Suc 0 # sched) [t0, t1] s = (case step t1 s of (t, s') \<Rightarrow> run_schedule step sched [t0, t] s')"
  by (simp_all split: prod.split)

section \<open>Properties\<close>

text \<open>C21: threads on different logs do not interfere. Whatever the other threads do on their logs and
  wherever they stop, a thread that is given five steps for each of its calls has made them all, with the
  answers and the effect on its log that the sequential calls have on the storage the threads started from.\<close>

theorem separate_logs_do_not_interfere:
  assumes "rocks_ok R store cursor" "handles_ok R (db s)" "distinct (map fst jobs)"
    and "run_schedule (thread_step R) sched (map new_thread jobs) s = (ths, s')"
    and "i < length jobs" "jobs ! i = (cf, calls)" "5 * length calls \<le> count_list sched i"
    and "calls_whole R cf calls s = (as, t)"
  shows "todo (ths ! i) = [] \<and> answers (ths ! i) = as \<and> log_part store s' cf = log_part store t cf"
proof -
  have R: "healthy_rocksdb R store cursor" by unfold_locales (rule assms(1))
  have th: "new_thread (jobs ! i) = \<lparr>thread_cf = cf, todo = calls, at = Begin, answers = []\<rparr>"
    using assms(6) by (simp add: new_thread_def)
  have own: "map thread_cf (map new_thread jobs) = map fst jobs" by (simp add: new_thread_def)
  have alone: "run_alone (thread_step R) (count_list sched i) (map new_thread jobs ! i) s =
      (\<lparr>thread_cf = cf, todo = [], at = Begin, answers = as\<rparr>, t)"
    using run_calls [of "new_thread (jobs ! i)" R s as t "count_list sched i"] assms(5,7,8) th by simp
  have "distinct (map thread_cf (map new_thread jobs))" using assms(3) by (simp only: own)
  from healthy_rocksdb.threads_alone [OF R assms(2) this assms(4) _ alone]
  show ?thesis using assms(5) th by simp
qed

definition example_jobs :: "(ColumnFamily \<times> log_call list) list" where
  "example_jobs = [(DataRaftLog, [AppendCall 1 [7], LastIndexCall]), (SystemRaftLog, [AppendCall 2 [8]])]"

lemma example_calls_whole:
  "fst (calls_whole log_db DataRaftLog [AppendCall 1 [7], LastIndexCall] fresh_storage) =
    [Answered (SOk ()), LastIndex (SOk (Some 1))]"
  by code_simp

theorem separate_logs_do_not_interfere_witness:
  "answers (fst (run_schedule (thread_step log_db) (concat (replicate 10 [0, 1])) (map new_thread example_jobs)
      fresh_storage) ! 0) = [Answered (SOk ()), LastIndex (SOk (Some 1))]"
proof -
  obtain ths s' where run: "run_schedule (thread_step log_db) (concat (replicate 10 [0, 1])) (map new_thread example_jobs)
      fresh_storage = (ths, s')" by force
  obtain as t where seq: "calls_whole log_db DataRaftLog [AppendCall 1 [7], LastIndexCall] fresh_storage = (as, t)" by force
  have "handles_ok log_db (db fresh_storage)" using all_cfs_complete(1) by (auto simp: handles_ok_def log_db_def)
  then have "answers (ths ! 0) = as"
    using separate_logs_do_not_interfere [OF log_db_ok _ _ run _ _ _ seq, of 0]
    by (simp add: example_jobs_def numeral_nat)
  then show ?thesis using run seq example_calls_whole by simp
qed

text \<open>C22: two threads that append to one log at the same index, the next one, can both be told that their
  entry was appended; the log then holds the entry of one of them and the other is lost.\<close>

theorem racing_appends_lose_an_entry:
  assumes "rocks_ok R store cursor" "handles_ok R (db s)" "is_log_cf cf"
    and "last_log_index_cache s cf = Some lst" "unat lst + 1 < 2 ^ 64"
    and "run_schedule (thread_step R) [0, 1, 0, 0, 1, 1]
      (map new_thread [(cf, [AppendCall (lst + 1) a]), (cf, [AppendCall (lst + 1) b])]) s = (ths, s')"
  shows "map answers ths = [[Answered (SOk ())], [Answered (SOk ())]] \<and>
    store (db s') (as_str cf) = (store (db s) (as_str cf))(format_log_key (lst + 1) \<mapsto> b) \<and>
    last_log_index_cache s' cf = Some (lst + 1)"
proof -
  have R: "healthy_rocksdb R store cursor" by unfold_locales (rule assms(1))
  obtain s1 where s1: "append_write R cf (lst + 1) a (Some lst) s = (SOk (), s1)" "handles_ok R (db s1)"
    "store (db s1) = op_effect (RocksPut (as_str cf) (format_log_key (lst + 1)) a) (store (db s))"
    using healthy_rocksdb.append_next [OF R assms(2,5)] by blast
  let ?s1 = "set_cache s1 cf (Some (lst + 1))"
  have "handles_ok R (db ?s1)" using s1(2) by (simp add: set_cache_def)
  then obtain s2 where s2: "append_write R cf (lst + 1) b (Some lst) ?s1 = (SOk (), s2)"
    "store (db s2) = op_effect (RocksPut (as_str cf) (format_log_key (lst + 1)) b) (store (db ?s1))"
    using healthy_rocksdb.append_next [OF R _ assms(5), of ?s1] by blast
  have "lookup_cache s cf = HaveLast (Some lst)" using assms(4) by (simp add: lookup_cache_def)
  then have "ths = [\<lparr>thread_cf = cf, todo = [], at = Begin, answers = [Answered (SOk ())]\<rparr>,
      \<lparr>thread_cf = cf, todo = [], at = Begin, answers = [Answered (SOk ())]\<rparr>]"
    "s' = set_cache s2 cf (Some (lst + 1))"
    using assms(3,6) s1(1) s2(1) by (auto simp: two_threads thread_step_def new_thread_def)
  then show ?thesis using s1(3) s2(2) by (simp add: set_cache_def)
qed

definition race :: "ColumnFamily \<Rightarrow> u64 \<Rightarrow> bytes \<Rightarrow> bytes \<Rightarrow> log_thread list" where
  "race cf index a b = map new_thread [(cf, [AppendCall index a]), (cf, [AppendCall index b])]"

theorem racing_appends_lose_an_entry_witness:
  "map answers (fst (run_schedule (thread_step log_db) [0, 1, 0, 0, 1, 1] (race DataRaftLog (2 + 1) [1] [2])
      (set_cache example_storage DataRaftLog (Some 2)))) = [[Answered (SOk ())], [Answered (SOk ())]]"
proof -
  obtain ths s' where run: "run_schedule (thread_step log_db) [0, 1, 0, 0, 1, 1] (race DataRaftLog (2 + 1) [1] [2])
      (set_cache example_storage DataRaftLog (Some 2)) = (ths, s')" by force
  have "handles_ok log_db (db (set_cache example_storage DataRaftLog (Some 2)))"
    using example_log_inv by (simp add: handles_ok_def log_inv_def set_cache_def)
  from racing_appends_lose_an_entry [OF log_db_ok this _ _ _ run [unfolded race_def]]
  have "map answers ths = [[Answered (SOk ())], [Answered (SOk ())]]" by (simp add: set_cache_def)
  then show ?thesis using run by simp
qed

text \<open>C23: a thread that only asks for the last index can make another's entry disappear. When the cache
  has no last index, as after every truncation, and the query of the reader is overtaken by an append,
  the cache ends one index behind; the next append is accepted at the index of the entry just written
  and replaces it, and the index that continues the log is refused.\<close>

theorem stale_cache_overwrites_an_entry:
  assumes "rocks_ok R store cursor" "handles_ok R (db s)" "is_log_cf cf" "last_log_index_cache s cf = None"
    and "get_last_log_index_from_db R s cf = SOk (Some lst)" "unat lst + 2 < 2 ^ 64"
    and "run_schedule (thread_step R) [0, 0, 1, 1, 1, 1, 1, 0, 0]
      (map new_thread [(cf, [LastIndexCall]), (cf, [AppendCall (lst + 1) a])]) s = (ths, s')"
  shows "map answers ths = [[LastIndex (SOk (Some lst))], [Answered (SOk ())]] \<and>
    store (db s') (as_str cf) (format_log_key (lst + 1)) = Some a \<and>
    fst (append_log_entry R s' cf (lst + 2) b) \<noteq> SOk () \<and>
    (\<exists>s''. append_log_entry R s' cf (lst + 1) b = (SOk (), s'') \<and>
       store (db s'') (as_str cf) (format_log_key (lst + 1)) = Some b)"
proof -
  have R: "healthy_rocksdb R store cursor" by unfold_locales (rule assms(1))
  have lst: "unat lst + 1 < 2 ^ 64" using assms(6) by simp
  let ?s0 = "set_cache s cf (Some lst)"
  have "handles_ok R (db ?s0)" using assms(2) by (simp add: set_cache_def)
  then obtain s1 where s1: "append_write R cf (lst + 1) a (Some lst) ?s0 = (SOk (), s1)" "handles_ok R (db s1)"
    "store (db s1) = op_effect (RocksPut (as_str cf) (format_log_key (lst + 1)) a) (store (db ?s0))"
    using healthy_rocksdb.append_next [OF R _ lst, of ?s0] by blast
  have "lookup_cache s cf = QueryDb" using assms(4) by (simp add: lookup_cache_def)
  then have ths: "map answers ths = [[LastIndex (SOk (Some lst))], [Answered (SOk ())]]"
    "s' = set_cache (set_cache s1 cf (Some (lst + 1))) cf (Some lst)"
    using assms(3,5,7) s1(1) by (auto simp: two_threads thread_step_def new_thread_def)
  have cached: "get_cached_last_log_index R s' cf = (SOk (Some lst), s')"
    using ths(2) by (simp add: get_cached_last_log_index_def set_cache_def)
  have "handles_ok R (db s')" using s1(2) ths(2) by (simp add: set_cache_def)
  then obtain s2 where s2: "append_write R cf (lst + 1) b (Some lst) s' = (SOk (), s2)"
    "store (db s2) = op_effect (RocksPut (as_str cf) (format_log_key (lst + 1)) b) (store (db s'))"
    using healthy_rocksdb.append_next [OF R _ lst, of s'] by blast
  have "append_log_entry R s' cf (lst + 1) b = (SOk (), set_cache s2 cf (Some (lst + 1)))"
    using assms(3) cached s2(1) by (simp add: append_whole)
  moreover have "fst (append_log_entry R s' cf (lst + 2) b) \<noteq> SOk ()"
    using assms(3) cached check_other [of "lst + 2" lst cf]
    by (cases "check_log_index cf (Some lst) (lst + 2)") (auto simp: append_whole append_write_def)
  ultimately show ?thesis using ths s1(3) s2(2) by (simp add: set_cache_def)
qed

lemma truncated_example:
  obtains s where "log_inv log_db log_db_store s DataRaftLog (1, [[7], [9]])" "last_log_index_cache s DataRaftLog = None"
proof -
  have "log_inv log_db log_db_store (set_cache example_storage DataRaftLog None) DataRaftLog (1, [[7], [9]])"
    using example_log_inv by (simp add: log_inv_def set_cache_def)
  then show thesis by (rule that) (simp add: set_cache_def)
qed

theorem stale_cache_overwrites_an_entry_witness:
  "\<exists>s ths s' s''. run_schedule (thread_step log_db) [0, 0, 1, 1, 1, 1, 1, 0, 0]
      (map new_thread [(DataRaftLog, [LastIndexCall]), (DataRaftLog, [AppendCall (2 + 1) [1]])]) s = (ths, s') \<and>
    log_db_store (db s') (as_str DataRaftLog) (format_log_key (2 + 1)) = Some [1] \<and>
    append_log_entry log_db s' DataRaftLog (2 + 1) [5] = (SOk (), s'') \<and>
    log_db_store (db s'') (as_str DataRaftLog) (format_log_key (2 + 1)) = Some [5]"
proof -
  obtain s where s: "log_inv log_db log_db_store s DataRaftLog (1, [[7], [9]])" "last_log_index_cache s DataRaftLog = None"
    by (rule truncated_example)
  obtain ths s' where run: "run_schedule (thread_step log_db) [0, 0, 1, 1, 1, 1, 1, 0, 0]
      (map new_thread [(DataRaftLog, [LastIndexCall]), (DataRaftLog, [AppendCall (2 + 1) [1]])]) s = (ths, s')" by force
  have "handles_ok log_db (db s)" using s(1) by (simp add: handles_ok_def log_inv_def)
  moreover have "get_last_log_index_from_db log_db s DataRaftLog = SOk (Some 2)"
    using last_index_from_db [OF rocks_ok_iterators [OF log_db_ok] s(1)] by simp
  ultimately show ?thesis
    using stale_cache_overwrites_an_entry [OF log_db_ok _ _ s(2) _ _ run, of "[5]"] run by fastforce
qed

end
