(* ===== verification/Rocks_Faults.thy ===== *)
theory Rocks_Faults
  imports Rocks_Concurrent
begin

text \<open>
  The RocksDB layer on a database that fails. A write of RocksDB takes effect or is answered with an error
  (\<open>rocks_fallible\<close>); which of the two happens is up to the database. \<open>flaky_db\<close> is one whose writes
  fail as a list of outcomes says. An iterator that meets an error becomes invalid and keeps the error in its
  status, as at the end of its data, where the status is good.
\<close>

section \<open>Writes that fail\<close>

definition rocks_fallible ::
    "('d, 'i) rocksdb \<Rightarrow> ('d \<Rightarrow> store_map) \<Rightarrow> ('i \<Rightarrow> (bytes \<times> bytes) list \<times> nat) \<Rightarrow> bool" where
  "rocks_fallible R store cursor \<longleftrightarrow>
     rocks_iterators R store cursor \<and>
     (\<forall>d cf k v sync r d'. put_cf_opt R d cf k v sync = (r, d') \<longrightarrow> cf_handle R d' = cf_handle R d \<and>
        store d' = (if isl r then store d else op_effect (RocksPut cf k v) (store d))) \<and>
     (\<forall>d ops sync r d'. write_opt R d ops sync = (r, d') \<longrightarrow> cf_handle R d' = cf_handle R d \<and>
        store d' = (if isl r then store d else fold op_effect ops (store d)))"

lemma rocks_ok_fallible:
  assumes "rocks_ok R store cursor"
  shows "rocks_fallible R store cursor"
proof -
  have w: "rocks_writes R store" "rocks_iterators R store cursor" using assms by (simp_all add: rocks_ok_def)
  have "cf_handle R d' = cf_handle R d \<and> store d' = (if isl r then store d else op_effect (RocksPut cf k v) (store d))"
    if "put_cf_opt R d cf k v sync = (r, d')" for d cf k v sync r d'
    using w(1) that unfolding rocks_writes_def by (metis isl_def prod.inject sum.distinct(1))
  moreover have "cf_handle R d' = cf_handle R d \<and> store d' = (if isl r then store d else fold op_effect ops (store d))"
    if "write_opt R d ops sync = (r, d')" for d ops sync r d'
    using w(1) that unfolding rocks_writes_def by (metis isl_def prod.inject sum.distinct(1))
  ultimately show ?thesis using w(2) by (auto simp: rocks_fallible_def)
qed

subsection \<open>A database whose writes fail\<close>

text \<open>The second component says of the writes to come which succeed; after it, all do.\<close>

definition flaky_write ::
    "rocks_op list \<Rightarrow> rocks_op list \<times> bool list \<Rightarrow> (string + unit) \<times> rocks_op list \<times> bool list" where
  "flaky_write ops d =
     (case snd d of
        False # outcomes \<Rightarrow> (Inl ''IO error'', fst d, outcomes)
      | _ \<Rightarrow> (Inr (), fst d @ ops, tl (snd d)))"

definition flaky_db :: "(rocks_op list \<times> bool list, (bytes \<times> bytes) list \<times> nat) rocksdb" where
  "flaky_db =
     \<lparr>cf_handle = (\<lambda>d. cf_handle log_db (fst d)),
      get_cf = (\<lambda>d. get_cf log_db (fst d)),
      get_pinned_cf = (\<lambda>d. get_pinned_cf log_db (fst d)),
      put_cf_opt = (\<lambda>d cf k v _. flaky_write [RocksPut cf k v] d),
      delete_cf_opt = (\<lambda>d cf k _. flaky_write [RocksDelete cf k] d),
      write_opt = (\<lambda>d ops _. flaky_write ops d),
      flush_cf = (\<lambda>d _. (Inr (), d)),
      raw_iterator_cf = (\<lambda>d. raw_iterator_cf log_db (fst d)),
      iter_seek = iter_seek log_db,
      iter_seek_for_prev = iter_seek_for_prev log_db,
      iter_seek_to_first = iter_seek_to_first log_db,
      iter_seek_to_last = iter_seek_to_last log_db,
      iter_next = iter_next log_db,
      iter_prev = iter_prev log_db,
      iter_valid = iter_valid log_db,
      iter_key = iter_key log_db,
      iter_value = iter_value log_db,
      iter_status = iter_status log_db\<rparr>"

lemma flaky_write_cases:
  "flaky_write ops d = (r, d') \<Longrightarrow> cf_handle flaky_db d' = cf_handle flaky_db d \<and>
    log_db_store (fst d') = (if isl r then log_db_store (fst d) else fold op_effect ops (log_db_store (fst d)))"
  by (auto simp: flaky_write_def flaky_db_def log_db_def log_db_store_append split: list.splits bool.splits)

lemma flaky_db_fallible: "rocks_fallible flaky_db (\<lambda>d. log_db_store (fst d)) id"
proof -
  have "rocks_iterators log_db log_db_store id" by (rule rocks_ok_iterators [OF log_db_ok])
  then have "rocks_iterators flaky_db (\<lambda>d. log_db_store (fst d)) id"
    by (simp add: rocks_iterators_def flaky_db_def)
  moreover have "put_cf_opt flaky_db d cf k v sync = flaky_write [RocksPut cf k v] d"
    "write_opt flaky_db d ops sync = flaky_write ops d" for d cf k v sync ops
    by (simp_all add: flaky_db_def)
  ultimately show ?thesis
    unfolding rocks_fallible_def using flaky_write_cases [of "[RocksPut _ _ _]"] flaky_write_cases by force
qed

section \<open>A log under failing writes\<close>

lemma append_faulty:
  assumes "rocks_fallible R store cursor" "log_inv R store s cf l"
    "append_log_entry R s cf index e = (r, s')" "log_spec (AppendEntry index e) l = (b, l')"
  shows "(r = SOk () \<longrightarrow> b) \<and> log_inv R store s' cf (if r = SOk () then l' else l) \<and> others_kept store cf s s'"
proof -
  have it: "rocks_iterators R store cursor" using assms(1) by (simp add: rocks_fallible_def)
  obtain s1 where s1: "get_cached_last_log_index R s cf = (SOk (log_last l), s1)"
    "log_inv R store s1 cf l" "db s1 = db s" "others_kept store cf s s1"
    using cached_last_index [OF it assms(2)] by blast
  have cf: "is_log_cf cf" "log_fits l" using assms(2) by (simp_all add: log_inv_def)
  obtain w d where d: "put_cf_opt R (db s1) (as_str cf) (format_log_key index) e False = (w, d)" by force
  have eff: "cf_handle R d = cf_handle R (db s1)"
    "store d = (if isl w then store (db s1) else op_effect (RocksPut (as_str cf) (format_log_key index) e) (store (db s1)))"
    using assms(1) d unfolding rocks_fallible_def by blast+
  note step = assms(3) [unfolded append_log_entry_def s1(1)]
  show ?thesis
  proof (cases "check_log_index cf (log_last l) index")
    case (SOk x)
    then have next_ok: "unat index = next_index l" using check_log_index_spec [OF cf(2)] by metis
    show ?thesis
    proof (cases w)
      case (Inl err)
      then have "r = SErr (RocksDb err)" "s' = s1\<lparr>db := d\<rparr>"
        using step cf(1) SOk d cf_handle_ok [OF s1(2), of cf] by auto
      then show ?thesis using s1 eff Inl by (simp add: log_inv_def others_kept_def)
    next
      case (Inr u)
      then have r: "r = SOk ()" "s' = s1\<lparr>db := d, last_log_index_cache := (last_log_index_cache s1)(cf \<mapsto> index)\<rparr>"
        using step cf(1) SOk d cf_handle_ok [OF s1(2), of cf] by (auto simp: update_cached_last_log_index_def)
      have "b \<and> log_inv R store s' cf l'"
        unfolding r(2) using append_effect [OF s1(2) next_ok eff(1) _ assms(4)] eff(2) Inr by simp
      then show ?thesis using r s1(3,4) eff(2) Inr by (simp add: others_kept_def)
    qed
  qed (use step cf(1) s1 in auto)
qed

lemma truncate_faulty:
  assumes "rocks_fallible R store cursor" "log_inv R store s cf l"
    "truncate_log_before R s cf t = (r, s')" "log_spec (TruncateBefore t) l = (b, l')"
  shows "(r = SOk () \<longrightarrow> b) \<and> log_inv R store s' cf (if r = SOk () then l' else l) \<and> others_kept store cf s s'"
proof -
  have it: "rocks_iterators R store cursor" using assms(1) by (simp add: rocks_fallible_def)
  obtain s1 where s1: "get_cached_last_log_index R s cf = (SOk (log_last l), s1)"
    "log_inv R store s1 cf l" "db s1 = db s" "others_kept store cf s s1"
    using cached_last_index [OF it assms(2)] by blast
  have cf: "is_log_cf cf" "log_fits l" using assms(2) by (simp_all add: log_inv_def)
  obtain lo es where l: "l = (lo, es)" by force
  note step = assms(3) [unfolded truncate_whole s1(1)]
  show ?thesis
  proof (cases "log_last l")
    case None
    then have "es = []" using l by (auto split: if_splits)
    moreover have "r = SOk ()" "s' = s1" using step cf(1) None by auto
    moreover have "log_fits (max lo (unat t), [])" using cf(2) l unsigned_less [of t, where 'a = nat] by auto
    ultimately show ?thesis using s1 l assms(4) by (auto simp: log_inv_def)
  next
    case (Some i)
    define stop where "stop = (if i < t then unat i + 1 else unat t)"
    obtain w d where d: "write_opt R (db s1) (delete_log_keys (as_str cf) stop) False = (w, d)" by force
    have eff: "cf_handle R d = cf_handle R (db s1)"
      "store d = (if isl w then store (db s1) else fold op_effect (delete_log_keys (as_str cf) stop) (store (db s1)))"
      using assms(1) d unfolding rocks_fallible_def by blast+
    have tw: "truncate_write R cf t i s1 = (rocks_res w, s1\<lparr>db := d\<rparr>)"
      using d cf_handle_ok [OF s1(2), of cf] by (auto simp: truncate_write_def stop_def split: if_splits)
    show ?thesis
    proof (cases w)
      case (Inl err)
      then have "r = SErr (RocksDb err)" "s' = s1\<lparr>db := d\<rparr>" using step cf(1) Some tw by auto
      then show ?thesis using s1 eff Inl by (simp add: log_inv_def others_kept_def)
    next
      case (Inr u)
      then have r: "r = SOk ()" "s' = s1\<lparr>db := d, last_log_index_cache := (last_log_index_cache s1)(cf := None)\<rparr>"
        using step cf(1) Some tw by (auto simp: set_cache_def)
      have "b \<and> log_inv R store s' cf l'"
        unfolding r(2) using truncate_effect [OF s1(2) Some eff(1) _ assms(4)] eff(2) Inr by (simp add: stop_def)
      then show ?thesis using r s1(3,4) eff(2) Inr by (simp add: others_kept_def delete_log_keys_effect)
    qed
  qed
qed

text \<open>The commands that were answered with success.\<close>

fun acknowledged :: "log_cmd list \<Rightarrow> unit sres list \<Rightarrow> log_cmd list" where
  "acknowledged (c # cs) (r # rs) = (if r = SOk () then c # acknowledged cs rs else acknowledged cs rs)"
| "acknowledged _ _ = []"

lemma run_faulty:
  assumes "rocks_fallible R store cursor"
  shows "log_inv R store s cf l \<Longrightarrow> run_storage R cf cmds s = (rs, s') \<Longrightarrow>
    False \<notin> set (fst (run_spec (acknowledged cmds rs) l)) \<and>
    log_inv R store s' cf (snd (run_spec (acknowledged cmds rs) l)) \<and> others_kept store cf s s'"
proof (induction cmds arbitrary: s l rs)
  case (Cons c cmds)
  obtain r s1 where c: "storage_cmd R cf c s = (r, s1)" by force
  obtain rs1 where rest: "run_storage R cf cmds s1 = (rs1, s')" "rs = r # rs1"
    using Cons.prems(2) c by (auto split: prod.splits)
  obtain b l1 where sp: "log_spec c l = (b, l1)" by (meson surj_pair)
  have one: "(r = SOk () \<longrightarrow> b) \<and> log_inv R store s1 cf (if r = SOk () then l1 else l) \<and> others_kept store cf s s1"
    using c sp append_faulty [OF assms Cons.prems(1)] truncate_faulty [OF assms Cons.prems(1)]
    by (cases c) (metis storage_cmd.simps)+
  let ?l1 = "if r = SOk () then l1 else l"
  have "False \<notin> set (fst (run_spec (acknowledged cmds rs1) ?l1)) \<and>
      log_inv R store s' cf (snd (run_spec (acknowledged cmds rs1) ?l1)) \<and> others_kept store cf s1 s'"
    using Cons.IH [OF _ rest(1)] one by blast
  with one show ?case using rest(2) sp by (cases "r = SOk ()") (simp_all add: split_beta others_kept_def)
qed (simp add: others_kept_def)

section \<open>Properties\<close>

text \<open>C20: a log holds what was acknowledged. On a database whose writes may fail, after any sequence of
  appends and truncations, the log is the one the commands answered with success make of it, each of them
  accepted by the specification; a failed command leaves no trace in the log, nor in the index
  cache a wrong index, and no other column family is touched.\<close>

theorem log_holds_what_was_acknowledged:
  assumes "rocks_fallible R store cursor" "log_inv R store s cf l" "run_storage R cf cmds s = (rs, s')"
  shows "False \<notin> set (fst (run_spec (acknowledged cmds rs) l)) \<and>
    log_inv R store s' cf (snd (run_spec (acknowledged cmds rs) l)) \<and> others_kept store cf s s'"
  using run_faulty [OF assms] .

definition flaky_storage :: "(rocks_op list \<times> bool list) Storage" where
  "flaky_storage = \<lparr>db = ([], [False]), last_log_index_cache = Map.empty, path = ''data''\<rparr>"

theorem log_holds_what_was_acknowledged_witness:
  "log_inv flaky_db (\<lambda>d. log_db_store (fst d))
     (snd (run_storage flaky_db DataRaftLog [AppendEntry 1 [7], AppendEntry 2 [8], AppendEntry 1 [9]] flaky_storage))
     DataRaftLog (1, [[9]])"
proof -
  let ?cmds = "[AppendEntry 1 [7], AppendEntry 2 [8], AppendEntry 1 [9]]"
  obtain rs s' where run: "run_storage flaky_db DataRaftLog ?cmds flaky_storage = (rs, s')" by force
  have "acknowledged ?cmds (fst (run_storage flaky_db DataRaftLog ?cmds flaky_storage)) = [AppendEntry 1 [9]]"
    by code_simp
  then have rs: "acknowledged ?cmds rs = [AppendEntry 1 [9]]" using run by simp
  have "log_inv flaky_db (\<lambda>d. log_db_store (fst d)) flaky_storage DataRaftLog (1, [])"
    using all_cfs_complete(1)
    by (auto simp: log_inv_def flaky_storage_def flaky_db_def log_db_def log_db_store_def log_db_pairs_def)
  from log_holds_what_was_acknowledged [OF flaky_db_fallible this run] show ?thesis using rs run by simp
qed

text \<open>C24: an iterator that fails makes a log look empty. When the iterator that looks for the last key of a
  log without cached index meets an error, which stepping along it would report, the last index is
  answered as that of an empty log, and an append is accepted at index 1; a range read whose iterator fails
  is answered with no entries.\<close>

theorem iterator_error_reads_as_empty_log:
  assumes "is_log_cf cf" "handles_ok R (db s)" "last_log_index_cache s cf = None"
    and "it = iter_seek_to_last R (raw_iterator_cf R (db s) (as_str cf))" "\<not> iter_valid R it" "iter_status R it = Inl e"
    and "jt = iter_seek R (raw_iterator_cf R (db s) (as_str cf)) (format_log_key start)" "\<not> iter_valid R jt"
    and "put_cf_opt R (db s) (as_str cf) (format_log_key 1) b False = (Inr (), d)"
  shows "fst (step_forward R \<lparr>inner = it, iter_cf = cf\<rparr>) = SErr (RocksDb e) \<and>
    get_last_log_index R s cf = (SOk None, s) \<and>
    append_log_entry R s cf 1 b = (SOk (), s\<lparr>db := d, last_log_index_cache := (last_log_index_cache s)(cf \<mapsto> 1)\<rparr>) \<and>
    get_log_range R s cf start stop = Some (SOk [])"
proof -
  have last: "get_cached_last_log_index R s cf = (SOk None, s)"
    using assms(1-5) by (simp add: get_cached_last_log_index_def get_last_log_index_from_db_def Let_def)
  have "append_write R cf 1 b None s = (SOk (), s\<lparr>db := d\<rparr>)"
    using assms(2,9) by (simp add: append_write_def check_log_index_def)
  then have "append_log_entry R s cf 1 b = (SOk (), s\<lparr>db := d, last_log_index_cache := (last_log_index_cache s)(cf \<mapsto> 1)\<rparr>)"
    using assms(1) last by (simp add: append_whole set_cache_def)
  moreover have "get_log_range R s cf start stop = Some (SOk [])"
    using assms(1,2,7,8) by (simp add: get_log_range_def storage_iterator_def Let_def log_range_loop.simps)
  ultimately show ?thesis
    using last assms(5,6) by (simp add: get_last_log_index_def step_forward_def end_or_error_def)
qed

definition failing_iterators :: "(rocks_op list, (bytes \<times> bytes) list \<times> nat) rocksdb" where
  "failing_iterators = log_db\<lparr>iter_valid := (\<lambda>_. False), iter_status := (\<lambda>_. Inl ''IO error'')\<rparr>"

theorem iterator_error_reads_as_empty_log_witness:
  "get_log_range failing_iterators (set_cache example_storage DataRaftLog None) DataRaftLog 1 3 = Some (SOk []) \<and>
   log_db_store (db example_storage) (as_str DataRaftLog) (format_log_key 1) = Some [7]"
proof -
  let ?s = "set_cache example_storage DataRaftLog None"
  have "handles_ok failing_iterators (db ?s)"
    using all_cfs_complete(1) by (auto simp: handles_ok_def failing_iterators_def log_db_def)
  moreover have "log_db_store (db example_storage) (as_str DataRaftLog) (format_log_key 1) = Some [7]"
    using example_log_inv by (simp add: log_inv_def nat_key_def)
  ultimately show ?thesis
    using iterator_error_reads_as_empty_log [of DataRaftLog failing_iterators ?s _ "''IO error''" _ 1 "[1]" _ 3]
    by (simp add: set_cache_def failing_iterators_def log_db_def)
qed

end
