(* ===== verification/Spec2Isabelle.thy ===== *)
theory Spec2Isabelle
  imports Resp_Inline Buffer_Pool Mem_Storage Rocks_Snapshot Replication Raft_Node
    Resp_Final Rocks_Node Rocks_Iterator Rocks_Faults
begin

text \<open>
  Verification of Seshat, a replicated key-value store that speaks the Redis protocol. The program
  has three crates: \<open>crates/resp\<close> turns bytes into commands and values into bytes, \<open>crates/storage\<close>
  keeps Raft logs and the key-value state in memory or in RocksDB, and \<open>crates/kv\<close> joins them to the
  consensus library openraft. A client's bytes go through \<open>RespCodec\<close> and \<open>RespParser\<close> to a
  \<open>RespValue\<close> and on to a \<open>RespCommand\<close>; a write becomes an \<open>Operation\<close>, which openraft puts into a
  log (\<open>OpenRaftMemLog\<close> or \<open>RocksDBLogStorage\<close>) and, once it is committed, hands to a state machine
  (\<open>OpenRaftMemStateMachine\<close> over \<open>StateMachine\<close>, or \<open>RocksDBStateMachine\<close> over \<open>Storage\<close>).

  \<^bold>\<open>Conventions.\<close> A Rust function is a HOL function of the same name, prefixed where two
  components share one. A method that changes its receiver returns it with the result. \<open>Result\<close> is a
  sum with the error on the left, or \<open>outcome\<close> where a panic is possible too. \<open>u64\<close>,
  \<open>i64\<close> and \<open>u8\<close> are words; \<open>usize\<close> is a natural number, as every one of
  them counts bytes or elements in memory. Additions and subtractions that can overflow are panics, as
  in a build with overflow checks (in a release build they wrap), and so is a \<open>Vec::with_capacity\<close> for
  more elements than a vector holds (\<open>max_capacity\<close>, with the size of a \<open>RespValue\<close> on 64-bit targets). A loop is a
  structural recursion, a recursion with a termination proof (\<open>parse\<close>), or, where it depends on
  something outside the program, a \<open>partial_function\<close> whose value \<open>None\<close> is not
  returning; for these (\<open>log_range_loop\<close>, \<open>reader_loop\<close>, \<open>wait_loop\<close>) that
  they return is proved. No definition uses fuel; \<open>call_steps\<close> bounds the steps of a log call by
  five, which is proved enough.

  \<^bold>\<open>Shared theories.\<close> \<open>Prelude\<close> has the types, the collections of facts and the results monad.
  \<open>Rust_Std\<close> models what the program uses of the standard library: decimal printing and parsing of
  integers, zero padding, UTF-8. \<open>F64\<close> models the printing and parsing of doubles, \<open>Rust_Collections\<close>
  ordered maps, ranges and locks.

  \<^bold>\<open>The protocol\<close> (\<open>crates/resp/src\<close>). \<open>Resp_Types\<close> is \<open>types.rs\<close> and \<open>error.rs\<close>, \<open>Resp_Encoder\<close>
  is \<open>encoder.rs\<close>, \<open>Resp_Parser\<close> is \<open>parser.rs\<close>: one definition per state of the parser, composed by
  \<open>step_state\<close> and the recursive \<open>parse\<close>. \<open>Resp_Round_Trip\<close> shows that parsing inverts encoding for
  every kind of value within the parser's limits and that encodings are self-delimiting;
  \<open>Resp_Limits\<close> that what a parser returns respects its limits, that it is back in its initial state
  after a frame and does not panic between frames unless its collection limit is beyond what can be
  allocated, and that it consumes a prefix of its input; \<open>Resp_Streaming\<close> for which cuts of the
  input parsing resumes, and for which it panics or loses data. \<open>Resp_Grammar\<close> states the protocol as
  an inductive grammar, independent of the parser's states, in two dialects: the documented one, all of
  whose frames the parser accepts, and a lenient one, which is exactly what the parser accepts, with
  what sets the two apart; \<open>Resp_Final\<close> that a decision does not depend on bytes still to come, so that a refused
  buffer is the beginning of no frame. \<open>Resp_Codec\<close> is \<open>codec.rs\<close> with the
  decoding of pipelines, through the contract \<open>framed_codec\<close>. \<open>Resp_Command\<close> is \<open>command.rs\<close>: exactly
  which values are commands, exactly which are refused with which error, and that a command survives
  the wire. \<open>Resp_Inline\<close> is \<open>inline.rs\<close>, the tokenizer of commands typed as text, against a grammar
  of quoted lines. \<open>Buffer_Pool\<close> is \<open>buffer_pool.rs\<close>.

  \<^bold>\<open>State machines and logs in memory\<close> (\<open>crates/storage/src\<close>). \<open>Operations\<close> is \<open>operations.rs\<close> of both
  crates, through the contract \<open>kv_contract\<close> of a key-value state; \<open>State_Machine\<close> is
  \<open>state_machine.rs\<close>: the last write wins, an entry is applied at most once, snapshots restore.
  \<open>Openraft_Types\<close> is \<open>types.rs\<close>; \<open>Openraft_Mem\<close> and \<open>Openraft_Mem_Apply\<close> are \<open>openraft_mem.rs\<close>, the log
  through the contract \<open>raft_log\<close>, with the poisoning of its locks. \<open>Mem_Storage\<close> is the raft-rs
  storage of \<open>lib.rs\<close>.

  \<^bold>\<open>RocksDB\<close> (\<open>crates/storage/src\<close>). \<open>Storage_Base\<close> is
  \<open>column_family.rs\<close>, \<open>error.rs\<close>, \<open>batch.rs\<close> and \<open>options.rs\<close>.
  \<open>Rocks_Db\<close> states what RocksDB is relied on for (\<open>rocks_ok\<close>): reads and writes of a
  map per column family, batches at once, iterators in byte order (assumed for \<open>DataKv\<close> too, whose
  prefix extractor makes RocksDB promise it only within a prefix). \<open>Rocks_Storage\<close> is
  \<open>storage.rs\<close> and \<open>iterator.rs\<close>. \<open>Rocks_Log\<close> shows that the Raft logs in
  it refine an abstract log under every sequence of appends and truncations, that range reads return exactly the
  entries asked for, and that reopening loses nothing; \<open>Rocks_Keys\<close> that a batch is the sequence of
  its operations; \<open>Storage_Trait\<close> is \<open>storage_trait.rs\<close>: the trait as a record of
  methods, what its documentation asks as the contract \<open>storage_backend\<close>, which
  \<open>Storage\<close> meets over every healthy database; \<open>Rocks_Concurrent\<close> cuts the calls on a
  log at their locks and database calls and shows that threads on different logs behave as if alone under every
  interleaving, and that threads on the same log can lose entries; \<open>Rocks_Faults\<close> that a log on a
  database whose writes fail holds what was acknowledged, and that a failing iterator makes a log look empty;
  \<open>Rocks_Iterator\<close> that iterators walk a column family in key order, in both directions;
  \<open>Rocks_Snapshot\<close> that the path of a checkpoint resolves into the data directory or names a new entry of
  a directory in it. \<open>Rocks_Openraft\<close> is the
  log half and \<open>Rocks_Machine\<close> the state machine half of \<open>openraft_rocksdb.rs\<close>.
  \<open>Rocks_Openraft_Log\<close> shows what of appended entries and votes is read back, that its two readers
  agree, and that truncation, a full purge, and a purge after an append that ends below the last index
  do not do what openraft needs; \<open>Rocks_Machine_Props\<close>
  that applied batches end in the last write of every key, that a crash inside a batch is repaired by applying it
  again, and that snapshots carry no data. \<open>Openraft_Instance\<close> shows the hypotheses on messages and
  openraft satisfiable.

  \<^bold>\<open>Together.\<close> \<open>Entry_Ops\<close> names the operations and answers of a batch of entries, which both state
  machines are measured by. \<open>Replication\<close> shows that the in-memory and the RocksDB state machine hold
  the same data after the same entries, and follows a batch from the RocksDB log to the state
  machine on the same database. \<open>Rocks_Node\<close> puts log, vote and state machine of one node together:
  under every sequence of permitted calls (\<open>calls_ok\<close>: appends that end at or above the last index,
  truncations and purges that keep an entry, batches that decode), restarts, and crashes between two
  entries of a batch, the answers and everything that can be read are those of an abstract node.

  \<^bold>\<open>The node.\<close> \<open>Raft_Node\<close> is \<open>crates/kv/src/raft_node.rs\<close>, with the proof that waiting for leadership
  ends.

  \<^bold>\<open>Parameters.\<close> Code outside the repository is an argument of the definitions that call it,
  with what is relied on as a named hypothesis: \<open>bincode\<close> (\<open>bincode_ok\<close>),
  \<open>prost\<close> (\<open>prost_ok\<close>, \<open>messages_ok\<close>), openraft's votes and memberships
  (\<open>api_ok\<close>) and its \<open>Raft\<close> (\<open>raft_lib\<close>), RocksDB (\<open>rocks_ok\<close>,
  \<open>rocks_backward\<close> for its backward iterators, \<open>rocks_fallible\<close> where its writes may
  fail, \<open>reopen_ok\<close> for closing and opening it), the file system (\<open>fs_ok\<close>: resolving a path is idempotent and goes component by component; nothing is
  assumed of links), the clock
  (\<open>clock_ok\<close>), how much \<open>BytesMut\<close> allocates, and the table of Unicode uppercase forms
  beyond ASCII.

  \<^bold>\<open>Not modelled.\<close> The server binary (\<open>crates/seshat\<close>) prints one line; the
  module files only re-export. Only tests implement the trait of \<open>storage_trait.rs\<close>; it is measured
  against the methods of \<open>Storage\<close> of the same names, with \<open>get_iter\<close> taken from \<open>Storage::iterator\<close>, whose
  signature differs. Threads are interleaved in the log calls
  of \<open>Storage\<close>; elsewhere a call runs to its end. Asynchronous scheduling, running out of memory, log
  output, the text of error messages beyond what is stored in an error value, and derived \<open>Debug\<close>
  formats are left out.
\<close>

end
